(* ===== verification/Prelude.thy ===== *)
theory Prelude
  imports Main "HOL-Library.Word"
begin

text \<open>
  The vocabulary the components share: the fixed-width integers of the C++ code, byte
  strings, exceptions as values, and the few generic facts about words and lists that the
  component proofs use again and again.

  \<^item> \<open>uint8_t\<close> \dots \<open>uint64_t\<close> and \<open>size_t\<close> are words of their width
    (the program is built for a 64-bit platform), so every overflow wraps as it does in C++;
  \<^item> \<open>std::string\<close>, \<open>std::deque<char>\<close> and \<open>Buffer\<close> contents are lists of bytes;
  \<^item> a C++ exception, and undefined behaviour where the code could reach it, is an
    \<open>Inl\<close> value of a sum type.
\<close>

unbundle bit_operations_syntax

type_synonym u8 = "8 word"
type_synonym u16 = "16 word"
type_synonym u32 = "32 word"
type_synonym u64 = "64 word"
type_synonym bytes = "8 word list"

text \<open>
  What a call can end with instead of a value: \<open>std::out_of_range\<close>,
  \<open>std::runtime_error\<close> with its message, \<open>std::invalid_argument\<close>, a \<open>tagged_error\<close> with
  what was attempted and the error code, or undefined behaviour (a division by zero, an
  iterator outside its container, a read outside an array).
\<close>

datatype exn = Out_Of_Range | Length_Error | Runtime_Error string | Undefined_Behaviour | Invalid_Argument
  | Tagged_Error string int

type_synonym 'a res = "exn + 'a"

text \<open>Sequencing of two steps, the second skipped when the first one throws.\<close>

definition bindE :: "'a res \<Rightarrow> ('a \<Rightarrow> 'b res) \<Rightarrow> 'b res" where
  "bindE m f = (case m of Inl e \<Rightarrow> Inl e | Inr x \<Rightarrow> f x)"

text \<open>The value of a container's \<open>size()\<close>, a \<open>size_t\<close>.\<close>

definition sz :: "'a list \<Rightarrow> u64" where
  "sz xs = word_of_nat (length xs)"

text \<open>A container that exists in memory has fewer than \<open>2 ^ 64\<close> elements.\<close>

definition fits :: "'a list \<Rightarrow> bool" where
  "fits xs \<longleftrightarrow> length xs < 18446744073709551616"

text \<open>\<open>std::string::substr(pos, count)\<close>: it throws when \<open>pos\<close> is past the end and
  otherwise returns at most \<open>count\<close> characters.\<close>

definition str_substr :: "'a list \<Rightarrow> u64 \<Rightarrow> u64 \<Rightarrow> 'a list res" where
  "str_substr s pos n =
     (if length s < unat pos then Inl Out_Of_Range
      else Inr (take (unat n) (drop (unat pos) s)))"

text \<open>\<open>std::string::replace(pos, count, str)\<close>: the replaced part is cut off at the end
  of the string, the replacement is not, so the string can change its length.\<close>

definition str_replace :: "'a list \<Rightarrow> u64 \<Rightarrow> u64 \<Rightarrow> 'a list \<Rightarrow> 'a list res" where
  "str_replace s pos n t =
     (if length s < unat pos then Inl Out_Of_Range
      else Inr (take (unat pos) s @ t @ drop (unat pos + unat n) s))"

text \<open>\<open>std::string::resize(n)\<close>: cut off or padded with zero characters.\<close>

definition str_resize :: "bytes \<Rightarrow> nat \<Rightarrow> bytes" where
  "str_resize s n = take n s @ replicate (n - length s) 0"

text \<open>\<open>std::fill(v.begin() + a, v.begin() + b, x)\<close>, undefined outside the vector.\<close>

definition vec_fill :: "'a list \<Rightarrow> nat \<Rightarrow> nat \<Rightarrow> 'a \<Rightarrow> 'a list res" where
  "vec_fill v a b x =
     (if a \<le> b \<and> b \<le> length v then Inr (take a v @ replicate (b - a) x @ drop b v)
      else Inl Undefined_Behaviour)"

text \<open>\<open>std::accumulate(v.begin() + a, v.begin() + b, 0)\<close> over a \<open>vector<bool>\<close>: the number
  of set flags in the range. The sum runs in an \<open>int\<close> and is converted to \<open>size_t\<close>.\<close>

definition vec_count :: "bool list \<Rightarrow> nat \<Rightarrow> nat \<Rightarrow> u64 res" where
  "vec_count v a b =
     (if a \<le> b \<and> b \<le> length v
      then Inr (word_of_nat (length (filter id (take (b - a) (drop a v)))))
      else Inl Undefined_Behaviour)"

text \<open>The distance from the start of a range to the first set flag in it (its length when
  there is none): \<open>std::find(first, last, true) - first\<close>.\<close>

fun find_true :: "bool list \<Rightarrow> nat" where
  "find_true [] = 0"
| "find_true (b # bs) = (if b then 0 else Suc (find_true bs))"

section \<open>Collections of rewrite rules\<close>

named_theorems word_nat \<open>reading 64-bit values as natural numbers\<close>
named_theorems wf_intros \<open>well-formedness is kept by the operations\<close>

section \<open>Exceptions\<close>

lemma bindE_Inl [simp]: "bindE (Inl e) f = Inl e"
  by (simp add: bindE_def)

lemma bindE_Inr [simp]: "bindE (Inr x) f = f x"
  by (simp add: bindE_def)

lemma bindE_eq_Inr: "bindE m f = Inr y \<longleftrightarrow> (\<exists>x. m = Inr x \<and> f x = Inr y)"
  by (cases m) simp_all

lemma bindE_assoc: "bindE (bindE m f) g = bindE m (\<lambda>x. bindE (f x) g)"
  by (cases m) simp_all

lemma bindE_cong [fundef_cong]:
  "m = m' \<Longrightarrow> (\<And>x. m' = Inr x \<Longrightarrow> f x = g x) \<Longrightarrow> bindE m f = bindE m' g"
  by (cases m') simp_all

text \<open>A computation without undefined behaviour.\<close>

definition defined :: "'a res \<Rightarrow> bool" where
  "defined m \<longleftrightarrow> m \<noteq> Inl Undefined_Behaviour"

lemma defined_simps [simp]: "defined (Inr x)" "defined (Inl e) \<longleftrightarrow> e \<noteq> Undefined_Behaviour"
  by (simp_all add: defined_def)

lemma defined_bind [intro]: "defined m \<Longrightarrow> (\<And>x. m = Inr x \<Longrightarrow> defined (f x)) \<Longrightarrow> defined (bindE m f)"
  by (cases m) simp_all

section \<open>Evaluation\<close>

lemma replicate_numeral [simp]: "replicate (numeral k) x = x # replicate (pred_numeral k) x"
  by (simp add: numeral_eq_Suc)

section \<open>Words\<close>

lemma u64_bound: "unat (x :: u64) < 18446744073709551616"
  using unsigned_less [where 'a = nat, of x] by simp

lemma u32_bound: "unat (x :: u32) < 4294967296"
  using unsigned_less [where 'a = nat, of x] by simp

lemma u16_bound: "unat (x :: u16) < 65536"
  using unsigned_less [where 'a = nat, of x] by simp

lemma u8_bound: "unat (x :: u8) < 256"
  using unsigned_less [where 'a = nat, of x] by simp

lemma unat_u64_of_nat [word_nat]:
  "n < 18446744073709551616 \<Longrightarrow> unat (word_of_nat n :: u64) = n"
  by (simp add: unat_of_nat)

lemma unat_u64_add [word_nat]:
  "unat a + unat b < 18446744073709551616 \<Longrightarrow> unat (a + b :: u64) = unat a + unat b"
  using unat_add_lem [of a b] by simp

lemma unat_u64_sub [word_nat]:
  "unat b \<le> unat a \<Longrightarrow> unat (a - b :: u64) = unat a - unat b"
  by (simp add: unat_sub word_le_nat_alt)

lemma unat_min: "unat (min a b :: 'a::len word) = min (unat a) (unat b)"
  by (simp add: min_def word_le_nat_alt)

lemma unat_max: "unat (max a b :: 'a::len word) = max (unat a) (unat b)"
  by (simp add: max_def word_le_nat_alt)

lemma unat_ucast_mod:
  "unat (ucast (x :: 'a::len word) :: 'b::len word) = unat x mod 2 ^ LENGTH('b)"
  by (simp add: unsigned_ucast_eq take_bit_eq_mod)

lemma uint_ucast_mod:
  "uint (ucast (x :: 'a::len word) :: 'b::len word) = uint x mod 2 ^ LENGTH('b)"
  by (simp add: unsigned_ucast_eq take_bit_eq_mod)

lemma unat_up_64 [simp]: "unat (ucast (x :: u32) :: u64) = unat x"
  using u32_bound [of x] by (simp add: unat_ucast_mod)

lemma unat_sz [word_nat]: "fits xs \<Longrightarrow> unat (sz xs) = length xs"
  by (simp add: sz_def fits_def unat_u64_of_nat)

lemma fitsI: "length xs \<le> unat (n :: u64) \<Longrightarrow> fits xs"
  unfolding fits_def by (rule order.strict_trans1 [OF _ u64_bound])

lemma fits_Nil [simp]: "fits []"
  by (simp add: fits_def)

lemma fits_take: "fits xs \<Longrightarrow> fits (take n xs)"
  by (simp add: fits_def)

lemma fits_drop: "fits xs \<Longrightarrow> fits (drop n xs)"
  by (simp add: fits_def)

lemma unat_sz_le: "unat (sz xs) \<le> length xs"
  by (simp add: sz_def unat_of_nat)

lemma sz_Nil [simp]: "sz [] = 0"
  by (simp add: sz_def)

lemma sz_append: "sz (xs @ ys) = sz xs + sz ys"
  by (simp add: sz_def)

lemma take_sz [simp]: "fits xs \<Longrightarrow> take (unat (sz xs)) xs = xs"
  by (simp add: unat_sz)

lemma mod_eq_apart:
  fixes a b m :: nat
  assumes "a mod m = b mod m" shows "a = b \<or> a + m \<le> b \<or> b + m \<le> a"
proof -
  have eq: "a = a div m * m + b mod m" "b = b div m * m + b mod m"
    using assms by (metis div_mult_mod_eq)+
  consider "a div m = b div m" | "a div m + 1 \<le> b div m" | "b div m + 1 \<le> a div m" by linarith
  then show ?thesis
  proof cases
    case 2
    then have "(a div m + 1) * m \<le> b div m * m" by (rule mult_le_mono1)
    then have "a div m * m + m \<le> b div m * m" by simp
    then show ?thesis using eq by linarith
  next
    case 3
    then have "(b div m + 1) * m \<le> a div m * m" by (rule mult_le_mono1)
    then have "b div m * m + m \<le> a div m * m" by simp
    then show ?thesis using eq by linarith
  qed (use eq in simp)
qed

section \<open>Lists\<close>

lemma take_min_length [simp]:
  "take (min n (length xs)) xs = take n xs" "take (min (length xs) n) xs = take n xs"
  by (simp_all add: min_def)

lemma drop_min_length [simp]:
  "drop (min n (length xs)) xs = drop n xs" "drop (min (length xs) n) xs = drop n xs"
  by (simp_all add: min_def)

lemma find_true_le: "find_true bs \<le> length bs"
  by (induction bs) auto

lemma find_true_ge: "q \<le> length bs \<Longrightarrow> (\<And>k. k < q \<Longrightarrow> \<not> bs ! k) \<Longrightarrow> q \<le> find_true bs"
proof (induction bs arbitrary: q)
  case (Cons b bs)
  then show ?case
  proof (cases q)
    case (Suc q')
    then have "q' \<le> find_true bs" using Cons.prems by (intro Cons.IH) force+
    then show ?thesis using Suc Cons.prems(2) [of 0] by simp
  qed simp
qed simp

lemma find_true_before: "i < find_true bs \<Longrightarrow> \<not> bs ! i"
  by (induction bs arbitrary: i) (auto simp: nth_Cons split: nat.splits if_splits)

lemma find_true_at: "find_true bs < length bs \<Longrightarrow> bs ! find_true bs"
  by (induction bs) (auto split: if_splits)

end
