(* ===== verification/Wrapping_Integers.thy ===== *)
theory Wrapping_Integers
  imports Prelude
begin

text \<open>
  \<open>WrappingInt32\<close> (\<open>src/libsponge/wrapping_integers.hh\<close>, \<open>wrapping_integers.cc\<close>): the
  32-bit sequence numbers of the wire and their conversion to and from the 64-bit absolute
  sequence numbers that the sender and the receiver count in.
\<close>

section \<open>Definitions\<close>

datatype WrappingInt32 = WrappingInt32 (raw_value: u32)

definition wi_sub :: "WrappingInt32 \<Rightarrow> WrappingInt32 \<Rightarrow> int" where
  "wi_sub a b = sint (raw_value a - raw_value b)"

definition wi_plus :: "WrappingInt32 \<Rightarrow> u32 \<Rightarrow> WrappingInt32" where
  "wi_plus a b = WrappingInt32 (raw_value a + b)"

definition wi_minus :: "WrappingInt32 \<Rightarrow> u32 \<Rightarrow> WrappingInt32" where
  "wi_minus a b = wi_plus a (- b)"

definition wrap :: "u64 \<Rightarrow> WrappingInt32 \<Rightarrow> WrappingInt32" where
  "wrap n isn =
     (let md = push_bit 32 (1 :: u64)
      in WrappingInt32 (ucast ((n + ucast (raw_value isn)) mod md)))"

definition unwrap :: "WrappingInt32 \<Rightarrow> WrappingInt32 \<Rightarrow> u64 \<Rightarrow> u64" where
  "unwrap n isn checkpoint =
     (let e31 = push_bit 31 (1 :: u64);
          e32 = push_bit 32 (1 :: u64);
          isn64 = ucast (raw_value isn) :: u64;
          mid = checkpoint + isn64;
          low = (if e31 \<ge> mid then 0 else mid - e31 - 1);
          high = (if e31 \<ge> mid then e32 - 2 else mid + e31 - 1);
          num_cycle = mid div e32;
          cand = ucast (raw_value n) + num_cycle * e32
      in if cand > low
         then if cand > high + 1 then (cand - e32) - isn64
              else if isn64 > cand then cand + e32 - isn64
              else cand - isn64
         else cand + e32 - isn64)"

text \<open>The distance between two absolute sequence numbers.\<close>

definition seq_dist :: "u64 \<Rightarrow> u64 \<Rightarrow> nat" where
  "seq_dist a b = (unat a - unat b) + (unat b - unat a)"

section \<open>Reading the definitions as arithmetic\<close>

lemma down32_add: "(ucast (a + b :: u64) :: u32) = ucast a + ucast b"
  by (simp add: word_uint_eq_iff uint_ucast_mod uint_word_ariths mod_simps mod_mod_cancel)

lemma down32_sub: "(ucast (a - b :: u64) :: u32) = ucast a - ucast b"
  by (simp add: word_uint_eq_iff uint_ucast_mod uint_word_ariths mod_simps mod_mod_cancel)

lemma down32_mult: "(ucast (a * b :: u64) :: u32) = ucast a * ucast b"
  by (simp add: word_uint_eq_iff uint_ucast_mod uint_word_ariths mod_simps mod_mod_cancel)

lemma down32_mod: "(ucast (a mod 4294967296 :: u64) :: u32) = ucast a"
  by (simp add: word_unat_eq_iff unat_ucast_mod unat_mod)

lemma down32_up: "(ucast (ucast (x :: u32) :: u64) :: u32) = x"
  by (simp add: word_unat_eq_iff unat_ucast_mod u32_bound)

lemma down32_cycle: "(4294967296 :: u32) = 0"
  by simp

lemmas down32 = down32_add down32_sub down32_mult down32_mod down32_up down32_cycle

lemma wrap_raw: "raw_value (wrap n isn) = ucast n + raw_value isn"
  by (simp add: wrap_def Let_def down32)

lemma unat_wrap:
  "unat (raw_value (wrap n isn)) = (unat n + unat (raw_value isn)) mod 4294967296"
  by (simp add: wrap_raw unat_word_ariths unat_ucast_mod mod_simps)

text \<open>\<open>unwrap\<close> over the natural numbers, for checkpoints away from the end of the 64-bit range.\<close>

lemma unat_unwrap:
  fixes n isn :: WrappingInt32 and checkpoint :: u64
  defines "I \<equiv> unat (raw_value isn)" and "N \<equiv> unat (raw_value n)" and "C \<equiv> unat checkpoint"
  defines "M \<equiv> C + I"
  defines "K \<equiv> N + M div 4294967296 * 4294967296"
  assumes small: "C + 12884901888 \<le> 18446744073709551616"
  shows "unat (unwrap n isn checkpoint) =
    (if K > (if M \<le> 2147483648 then 0 else M - 2147483649)
     then if K > (if M \<le> 2147483648 then 4294967295 else M + 2147483648)
          then (if I \<le> K - 4294967296 then K - 4294967296 - I
                else 18446744073709551616 + (K - 4294967296) - I)
          else if I > K then K + 4294967296 - I else K - I
     else K + 4294967296 - I)"
proof -
  let ?isn = "ucast (raw_value isn) :: u64" and ?n = "ucast (raw_value n) :: u64"
  have I: "I < 4294967296" and N: "N < 4294967296"
    by (simp_all add: I_def N_def u32_bound)
  have mid: "unat (checkpoint + ?isn) = M"
    using I small unat_u64_add [of checkpoint ?isn] by (simp add: M_def C_def I_def)
  have quot: "unat ((checkpoint + ?isn) div 4294967296) = M div 4294967296"
    by (simp add: unat_div mid)
  have le: "M div 4294967296 * 4294967296 \<le> M" by simp
  have "M div 4294967296 < 4294967296" using I small by (simp add: M_def)
  then have "unat ((checkpoint + ?isn) div 4294967296 * 4294967296) = M div 4294967296 * 4294967296"
    using unat_mult_lem [of "(checkpoint + ?isn) div 4294967296" 4294967296] quot
    by simp
  then have K: "unat (?n + (checkpoint + ?isn) div 4294967296 * 4294967296) = K"
    using I N small le
      unat_u64_add [of ?n "(checkpoint + ?isn) div 4294967296 * 4294967296"]
    by (simp add: K_def N_def M_def)
  define m k where "m = checkpoint + ?isn" and "k = ?n + m div 4294967296 * 4294967296"
  have m: "unat m = M" and k: "unat k = K" using mid K by (simp_all add: m_def k_def)
  have bounds: "M + 8589934592 \<le> 18446744073709551616" "K + 4294967296 < 18446744073709551616"
    using I N small le by (simp_all add: M_def K_def)
  have low: "unat (if 2147483648 \<ge> m then 0 else m - 2147483648 - 1) =
      (if M \<le> 2147483648 then 0 else M - 2147483649)"
    using bounds by (simp add: word_le_nat_alt m unat_sub_if')
  have high: "unat ((if 2147483648 \<ge> m then 4294967294 else m + 2147483648 - 1) + 1) =
      (if M \<le> 2147483648 then 4294967295 else M + 2147483648)"
    using bounds by (simp add: word_le_nat_alt m unat_plus_if')
  have down: "unat (k - 4294967296 - ?isn) = (if I \<le> K - 4294967296 then K - 4294967296 - I
      else 18446744073709551616 + (K - 4294967296) - I)" if "4294967296 \<le> K"
    using that bounds by (simp add: unat_sub_if' k I_def)
  have up: "unat (k + 4294967296 - ?isn) = K + 4294967296 - I"
    using bounds I unat_u64_add [of k 4294967296] by (simp add: unat_sub_if' k flip: I_def)
  have same: "unat (k - ?isn) = K - I" if "I \<le> K"
    using that by (simp add: unat_sub_if' k I_def)
  have "unwrap n isn checkpoint =
    (if k > (if 2147483648 \<ge> m then 0 else m - 2147483648 - 1)
     then if k > (if 2147483648 \<ge> m then 4294967294 else m + 2147483648 - 1) + 1
          then k - 4294967296 - ?isn
          else if ?isn > k then k + 4294967296 - ?isn else k - ?isn
     else k + 4294967296 - ?isn)"
    unfolding unwrap_def Let_def m_def k_def by (simp only: push_bit_eq_mult) simp
  then show ?thesis
    unfolding word_less_nat_alt low high k unat_up_64 I_def [symmetric]
    using up same down bounds by (simp split del: if_split) (auto)
qed

lemma unwrap_near:
  assumes small: "unat c + 12884901888 \<le> 18446744073709551616"
    and start: "2147483648 \<le> unat c \<or> unat c + unat (raw_value isn) < 4294967296"
    and nonzero: "raw_value n \<noteq> 0 \<or> raw_value isn \<noteq> 0 \<or> 2147483648 < unat c"
  shows "seq_dist (unwrap n isn c) c \<le> 2147483648 \<or>
    unat (unwrap n isn c) < 4294967296 \<and> unat c \<le> 2147483648"
proof -
  define C where "C = unat c"
  define I where "I = unat (raw_value isn)"
  define N where "N = unat (raw_value n)"
  define K where "K = N + (C + I) div 4294967296 * 4294967296"
  define r where "r = unat (unwrap n isn c)"
  note r = unat_unwrap [OF small, of n isn, folded r_def C_def I_def N_def, folded K_def]
  have N: "N < 4294967296" and I: "I < 4294967296"
    by (simp_all add: N_def I_def u32_bound)
  have K: "K < C + I + 4294967296" "C + I < K + 4294967296"
    using N div_mult_mod_eq [of "C + I" 4294967296] mod_less_divisor [of 4294967296 "C + I"]
    unfolding K_def by linarith+
  have s: "2147483648 \<le> C \<or> K < 4294967296"
    using start N by (auto simp: C_def I_def K_def)
  have z: "C + I \<le> 2147483648 \<Longrightarrow> K = N \<and> (0 < N \<or> 0 < I)"
    using nonzero by (auto simp: C_def I_def N_def K_def unat_gt_0)
  have "r \<le> C + 2147483648 \<and> C \<le> r + 2147483648 \<or> r < 4294967296 \<and> C \<le> 2147483648"
  proof (cases "C + I \<le> 2147483648")
    case True
    then have "r = (if 0 < N then if N < I then N + 4294967296 - I else N - I
        else 4294967296 - I)"
      using r z N by auto
    then show ?thesis using True z N by (auto split: if_splits)
  next
    case False
    consider "K \<le> C + I - 2147483649" | "C + I - 2147483649 < K" "K \<le> C + I + 2147483648" "K < I"
      | "C + I - 2147483649 < K" "K \<le> C + I + 2147483648" "I \<le> K"
      | "C + I + 2147483648 < K" "C + I - 2147483649 < K" "I \<le> K - 4294967296"
      | "C + I + 2147483648 < K" "K - 4294967296 < I"
      by linarith
    then show ?thesis
    proof cases
      case 1
      then have "r = K + 4294967296 - I" using r False by simp
      then show ?thesis using 1 K False by arith
    next
      case 2
      then have "r = K + 4294967296 - I" using r False I by simp
      then show ?thesis using 2 I by arith
    next
      case 3
      then have "r = K - I" using r False by simp
      then show ?thesis using 3 False by arith
    next
      case 4
      then have "r = K - 4294967296 - I" using r False by simp
      then show ?thesis using 4 K by arith
    next
      case 5
      then show ?thesis using s False by arith
    qed
  qed
  then show ?thesis by (auto simp: seq_dist_def r_def C_def)
qed

lemma unwrap_congruent: "wrap (unwrap n isn checkpoint) isn = n"
proof -
  have "ucast (unwrap n isn checkpoint) = raw_value n - raw_value isn"
    by (simp add: unwrap_def Let_def if_distrib [where f = ucast] down32 cong: if_weak_cong)
  then show ?thesis by (simp add: WrappingInt32.expand wrap_raw)
qed

lemma unwrap_near_inverse:
  assumes near: "unat x < unat c + 2147483648" "unat c < unat x + 2147483648"
    and small: "unat c + 12884901888 \<le> 18446744073709551616"
    and nonzero: "x \<noteq> 0 \<or> raw_value isn \<noteq> 0"
  shows "unwrap (wrap x isn) isn c = x"
proof -
  define X where "X = unat x"
  define C where "C = unat c"
  define I where "I = unat (raw_value isn)"
  define q where "q = (X + I) div 4294967296"
  define p where "p = (C + I) div 4294967296"
  have pos: "0 < X + I"
    using nonzero by (auto simp: X_def I_def unat_gt_0)
  have N: "unat (raw_value (wrap x isn)) = (X + I) - q * 4294967296"
    by (simp add: unat_wrap X_def I_def q_def minus_div_mult_eq_mod)
  have bounds: "q * 4294967296 \<le> X + I" "X + I < q * 4294967296 + 4294967296"
    "p * 4294967296 \<le> C + I" "C + I < p * 4294967296 + 4294967296"
    using div_mult_mod_eq [of "X + I" 4294967296] div_mult_mod_eq [of "C + I" 4294967296]
      mod_less_divisor [of 4294967296 "X + I"] mod_less_divisor [of 4294967296 "C + I"]
    unfolding p_def q_def by linarith+
  have near': "X < C + 2147483648" "C < X + 2147483648"
    using near by (simp_all add: X_def C_def)
  then have "p \<le> q + 1" and "q \<le> p + 1" using bounds by linarith+
  then consider "q = p" | "q = p + 1" | "p = q + 1" by linarith
  then have "unat (unwrap (wrap x isn) isn c) = X"
    unfolding unat_unwrap [OF small] N C_def [symmetric] I_def [symmetric] p_def [symmetric]
    using bounds near' pos by cases (simp_all split del: if_split, auto)
  then show ?thesis by (simp add: X_def word_unat_eq_iff)
qed

section \<open>Properties\<close>

text \<open>
  Unwrapping is a right inverse of wrapping: whatever the checkpoint, the absolute
  sequence number that \<open>unwrap\<close> returns wraps back to the given one.
\<close>

theorem wrap_unwrap: "wrap (unwrap n isn checkpoint) isn = n"
  by (rule unwrap_congruent)

text \<open>
  Unwrapping is a left inverse of wrapping near the checkpoint: an absolute sequence
  number less than \<open>2 ^ 31\<close> away from the checkpoint survives the trip through its 32-bit
  form. (The pair of an absolute number 0 and an initial sequence number 0 is excluded, see
  \<open>unwrap_zero\<close>.)
\<close>

theorem unwrap_wrap:
  assumes "unat x < unat c + 2147483648" and "unat c < unat x + 2147483648"
    and "unat c + 12884901888 \<le> 18446744073709551616"
    and "x \<noteq> 0 \<or> raw_value isn \<noteq> 0"
  shows "unwrap (wrap x isn) isn c = x"
  using assms by (rule unwrap_near_inverse)

theorem unwrap_wrap_witness:
  "unat (4294967301 :: u64) < unat (4294967290 :: u64) + 2147483648 \<and>
   unat (4294967290 :: u64) < unat (4294967301 :: u64) + 2147483648 \<and>
   unat (4294967290 :: u64) + 12884901888 \<le> 18446744073709551616 \<and>
   raw_value (WrappingInt32 7) \<noteq> 0 \<and>
   unwrap (wrap 4294967301 (WrappingInt32 7)) (WrappingInt32 7) 4294967290 = 4294967301"
  using unwrap_wrap [of 4294967301 4294967290 "WrappingInt32 7"] by simp



text \<open>
  Where the code leaves its documentation: the sequence number equal to an initial
  sequence number 0 is unwrapped to \<open>2 ^ 32\<close> at checkpoint 0, although the absolute number 0
  wraps to it and is the checkpoint itself; and a sequence number just before the initial one
  is unwrapped to a number next to \<open>2 ^ 64\<close>, although \<open>2 ^ 32 - 9\<close> wraps to it as well.
\<close>

theorem unwrap_not_closest:
  "unwrap (WrappingInt32 0) (WrappingInt32 0) 0 = 4294967296 \<and>
   wrap 0 (WrappingInt32 0) = WrappingInt32 0 \<and>
   unwrap (WrappingInt32 4294967286) (WrappingInt32 4294967295) 6 = - 9 \<and>
   wrap 4294967287 (WrappingInt32 4294967295) = WrappingInt32 4294967286 \<and>
   seq_dist 4294967287 6 < seq_dist (- 9) 6"
  by (simp add: unwrap_def wrap_def seq_dist_def Let_def)

end
