(* ===== verification/Net_Parser.thy ===== *)
theory Net_Parser
  imports Prelude
begin

text \<open>
  \<open>NetParser\<close> and \<open>NetUnparser\<close> (\<open>src/libsponge/util/parser.hh\<close>, \<open>parser.cc\<close>): integers in
  network byte order, read from the front of a buffer with a sticky error flag, and
  appended to a string. The integer width is a parameter of the two generic routines, as it
  is in the C++ templates.
\<close>

section \<open>State and operations\<close>

datatype ParseResult = NoError | BadChecksum | PacketTooShort | WrongIPVersion | HeaderTooShort
  | TruncatedPacket | Unsupported

text \<open>\<open>as_string\<close> indexes an array of six names with the seven values of the enum.\<close>

fun parse_result_index :: "ParseResult \<Rightarrow> nat" where
  "parse_result_index NoError = 0"
| "parse_result_index BadChecksum = 1"
| "parse_result_index PacketTooShort = 2"
| "parse_result_index WrongIPVersion = 3"
| "parse_result_index HeaderTooShort = 4"
| "parse_result_index TruncatedPacket = 5"
| "parse_result_index Unsupported = 6"

definition as_string :: "ParseResult \<Rightarrow> string res" where
  "as_string r =
     (let names = [''NoError'', ''BadChecksum'', ''PacketTooShort'', ''WrongIPVersion'',
                   ''HeaderTooShort'', ''TruncatedPacket'']
      in if parse_result_index r < length names then Inr (names ! parse_result_index r)
         else Inl Undefined_Behaviour)"

record NetParser =
  np_buffer :: bytes
  np_error :: ParseResult

definition NetParser_init :: "bytes \<Rightarrow> NetParser" where
  "NetParser_init buffer = \<lparr>np_buffer = buffer, np_error = NoError\<rparr>"

definition np_set_error :: "NetParser \<Rightarrow> ParseResult \<Rightarrow> NetParser" where
  "np_set_error p res = p\<lparr>np_error := res\<rparr>"

definition np_has_error :: "NetParser \<Rightarrow> bool" where
  "np_has_error p \<longleftrightarrow> np_error p \<noteq> NoError"

definition check_size :: "NetParser \<Rightarrow> nat \<Rightarrow> NetParser" where
  "check_size p len = (if len > length (np_buffer p) then np_set_error p PacketTooShort else p)"

definition parse_int :: "nat \<Rightarrow> NetParser \<Rightarrow> 'a::len word \<times> NetParser" where
  "parse_int len p =
     (let p1 = check_size p len in
      if np_has_error p1 then (0, p1)
      else (foldl (\<lambda>ret i. push_bit 8 ret + ucast (np_buffer p1 ! i)) 0 [0 ..< len],
            p1\<lparr>np_buffer := drop len (np_buffer p1)\<rparr>))"

definition np_u32 :: "NetParser \<Rightarrow> u32 \<times> NetParser" where
  "np_u32 p = parse_int 4 p"

definition np_u16 :: "NetParser \<Rightarrow> u16 \<times> NetParser" where
  "np_u16 p = parse_int 2 p"

definition np_u8 :: "NetParser \<Rightarrow> u8 \<times> NetParser" where
  "np_u8 p = parse_int 1 p"

definition np_remove_prefix :: "NetParser \<Rightarrow> nat \<Rightarrow> NetParser" where
  "np_remove_prefix p n =
     (let p1 = check_size p n in
      if np_has_error p1 then p1 else p1\<lparr>np_buffer := drop n (np_buffer p1)\<rparr>)"

definition unparse_int :: "nat \<Rightarrow> bytes \<Rightarrow> 'a::len word \<Rightarrow> bytes" where
  "unparse_int len s val =
     foldl (\<lambda>s i. s @ [ucast (drop_bit ((len - i - 1) * 8) val AND 0xff)]) s [0 ..< len]"

definition put_u32 :: "bytes \<Rightarrow> u32 \<Rightarrow> bytes" where
  "put_u32 s val = unparse_int 4 s val"

definition put_u16 :: "bytes \<Rightarrow> u16 \<Rightarrow> bytes" where
  "put_u16 s val = unparse_int 2 s val"

definition put_u8 :: "bytes \<Rightarrow> u8 \<Rightarrow> bytes" where
  "put_u8 s val = unparse_int 1 s val"

section \<open>Network byte order\<close>

text \<open>The bytes of an integer, most significant first.\<close>

definition be32 :: "u32 \<Rightarrow> bytes" where
  "be32 v = [ucast (drop_bit 24 v), ucast (drop_bit 16 v), ucast (drop_bit 8 v), ucast v]"

definition be16 :: "u16 \<Rightarrow> bytes" where
  "be16 v = [ucast (drop_bit 8 v), ucast v]"

lemma length_be32 [simp]: "length (be32 v) = 4"
  by (simp add: be32_def)

lemma length_be16 [simp]: "length (be16 v) = 2"
  by (simp add: be16_def)

lemma ucast_low_byte: "ucast ((x :: 'a::len word) AND 0xff) = (ucast x :: u8)"
proof (rule bit_word_eqI)
  fix n :: nat assume "n < LENGTH(8)"
  then show "bit (ucast (x AND 0xff) :: u8) n = bit (ucast x :: u8) n"
    using bit_mask_iff [of 8 n, where 'a = "'a word"]
    by (auto simp: bit_simps mask_eq_exp_minus_1 dest: bit_imp_le_length)
qed

lemma put_u32_eq [simp]: "put_u32 s v = s @ be32 v"
  by (simp add: put_u32_def unparse_int_def be32_def ucast_low_byte upt_rec)

lemma put_u16_eq [simp]: "put_u16 s v = s @ be16 v"
  by (simp add: put_u16_def unparse_int_def be16_def ucast_low_byte upt_rec)

lemma put_u8_eq [simp]: "put_u8 s v = s @ [v]"
  using ucast_low_byte [of v] by (simp add: put_u8_def unparse_int_def)

text \<open>What the parsing loop computes, as a number.\<close>

lemma unat_be_step:
  assumes "256 * unat (r :: 'a::len word) + 256 \<le> 2 ^ LENGTH('a)"
  shows "unat (push_bit 8 r + ucast (b :: u8)) = 256 * unat r + unat b"
proof -
  have b: "unat b < 256" by (rule u8_bound)
  then have "unat (ucast b :: 'a word) = unat b"
    using assms by (simp add: unat_ucast_mod)
  moreover have "unat (push_bit 8 r) = 256 * unat r"
    using assms unfolding unsigned_push_bit_eq take_bit_eq_mod
    by (simp add: push_bit_eq_mult mult.commute)
  ultimately show ?thesis
    using assms b by (simp add: unat_word_ariths)
qed

lemma unat_byte_of: "unat (ucast (drop_bit n (v :: 'a::len word)) :: u8) = unat v div 2 ^ n mod 256"
  by (simp add: unat_ucast_mod unat_drop_bit_eq) (simp add: drop_bit_eq_div)

lemma digits16: "(v :: nat) < 65536 \<Longrightarrow> 256 * (v div 256 mod 256) + v mod 256 = v"
  using div_mult_mod_eq [of v 256] by simp

lemma digits32:
  assumes "(v :: nat) < 4294967296"
  shows "256 * (256 * (256 * (v div 16777216 mod 256) + v div 65536 mod 256) + v div 256 mod 256) +
    v mod 256 = v"
proof -
  have "v div 65536 = v div 256 div 256" "v div 16777216 = v div 256 div 256 div 256"
    by (simp_all flip: div_mult2_eq)
  moreover have "v div 16777216 mod 256 = v div 16777216" using assms by simp
  ultimately show ?thesis
    using div_mult_mod_eq [of v 256] div_mult_mod_eq [of "v div 256" 256]
      div_mult_mod_eq [of "v div 256 div 256" 256] by presburger
qed

lemma unat_join:
  "unat (push_bit 8 (push_bit 8 (push_bit 8 (ucast (a :: u8)) + ucast (b :: u8)) + ucast (c :: u8)) +
     ucast (d :: u8) :: u32) = 256 * (256 * (256 * unat a + unat b) + unat c) + unat d"
proof -
  note u8 = u8_bound [of a] u8_bound [of b] u8_bound [of c]
  have 1: "unat (ucast a :: u32) = unat a" using u8 by (simp add: unat_ucast_mod)
  then have 2: "unat (push_bit 8 (ucast a) + ucast b :: u32) = 256 * unat a + unat b"
    using u8 by (subst unat_be_step) simp_all
  then have 3: "unat (push_bit 8 (push_bit 8 (ucast a) + ucast b) + ucast c :: u32) =
      256 * (256 * unat a + unat b) + unat c"
    using u8 by (subst unat_be_step) simp_all
  then show ?thesis using u8 by (subst unat_be_step) simp_all
qed

lemma join_be32:
  "push_bit 8 (push_bit 8 (push_bit 8 (ucast (ucast (drop_bit 24 v) :: u8)) +
     ucast (ucast (drop_bit 16 v) :: u8)) + ucast (ucast (drop_bit 8 v) :: u8)) +
     ucast (ucast v :: u8) = (v :: u32)"
proof -
  have b: "unat (ucast v :: u8) = unat v mod 256" using unat_byte_of [of 0 v] by simp
  have p: "(2 :: nat) ^ 24 = 16777216" "(2 :: nat) ^ 16 = 65536" "(2 :: nat) ^ 8 = 256" by simp_all
  show ?thesis
    unfolding word_unat_eq_iff unat_join unat_byte_of b p by (rule digits32 [OF u32_bound])
qed

lemma join_be16:
  "push_bit 8 (ucast (ucast (drop_bit 8 v) :: u8)) + ucast (ucast v :: u8) = (v :: u16)"
proof -
  have b: "unat (ucast v :: u8) = unat v mod 256" using unat_byte_of [of 0 v] by simp
  have s: "unat (ucast (c :: u8) :: u16) = unat c" for c using u8_bound [of c] by (simp add: unat_ucast_mod)
  show ?thesis
    using digits16 [OF u16_bound [of v]] u8_bound [of "ucast (drop_bit 8 v)"]
    by (simp add: word_unat_eq_iff unat_be_step s unat_byte_of b)
qed

section \<open>Reading back what was written\<close>

lemma np_has_error_init [simp]: "np_has_error (NetParser_init b) = False"
  by (simp add: np_has_error_def NetParser_init_def)

lemma np_buffer_init [simp]: "np_buffer (NetParser_init b) = b"
  by (simp add: NetParser_init_def)

lemma np_error_init [simp]: "np_error (NetParser_init b) = NoError"
  by (simp add: NetParser_init_def)

lemma np_u32_be: "np_u32 (NetParser_init (be32 v @ rest)) = (v, NetParser_init rest)"
  by (simp add: np_u32_def parse_int_def check_size_def Let_def be32_def upt_rec join_be32 NetParser_init_def np_has_error_def)

lemma np_u16_be: "np_u16 (NetParser_init (be16 v @ rest)) = (v, NetParser_init rest)"
  by (simp add: np_u16_def parse_int_def check_size_def Let_def be16_def upt_rec join_be16 NetParser_init_def np_has_error_def)

lemma np_u8_be: "np_u8 (NetParser_init (v # rest)) = (v, NetParser_init rest)"
  by (simp add: np_u8_def parse_int_def check_size_def Let_def NetParser_init_def np_has_error_def)

lemma np_remove_prefix_append:
  "np_remove_prefix (NetParser_init (xs @ rest)) (length xs) = NetParser_init rest"
  by (simp add: np_remove_prefix_def check_size_def Let_def NetParser_init_def np_has_error_def)

end
