(* ===== verification/Internet_Checksum.thy ===== *)
theory Internet_Checksum
  imports Prelude
begin

text \<open>
  \<open>InternetChecksum\<close> (\<open>src/libsponge/util/util.hh\<close>, \<open>util.cc\<close>): the 16-bit ones' complement
  sum of the IP and TCP headers. The accumulator is a 32-bit word that takes bytes
  alternately in the high and the low half of a 16-bit unit; \<open>value\<close> folds the carries back
  in and complements the result.

  The lemmas read the accumulator as a number modulo 65535: folding keeps the residue, which
  gives the documented contract that data with its checksum in place sums up to zero.
\<close>

section \<open>State and operations\<close>

record InternetChecksum =
  ck_sum :: u32
  ck_parity :: bool

definition InternetChecksum_init :: "u32 \<Rightarrow> InternetChecksum" where
  "InternetChecksum_init initial_sum = \<lparr>ck_sum = initial_sum, ck_parity = False\<rparr>"

definition ck_step :: "InternetChecksum \<Rightarrow> u8 \<Rightarrow> InternetChecksum" where
  "ck_step c b =
     (let v = (ucast b :: u16);
          v' = (if \<not> ck_parity c then push_bit 8 v else v)
      in c\<lparr>ck_sum := ck_sum c + ucast v', ck_parity := \<not> ck_parity c\<rparr>)"

definition ck_add :: "InternetChecksum \<Rightarrow> bytes \<Rightarrow> InternetChecksum" where
  "ck_add c data = foldl ck_step c data"

lemma fold_carry_less:
  assumes "(0xffff :: u32) < ret"
  shows "unat (drop_bit 16 ret + (ret AND 0xffff)) < unat ret"
    and "unat (drop_bit 16 ret + (ret AND 0xffff)) = unat ret div 65536 + unat ret mod 65536"
proof -
  have "ret AND 0xffff = take_bit 16 ret"
    by (simp add: take_bit_eq_mask mask_eq_exp_minus_1)
  then have low: "unat (ret AND 0xffff) = unat ret mod 65536"
    by (simp add: unsigned_take_bit_eq) (simp add: take_bit_eq_mod)
  have high: "unat (drop_bit 16 ret) = unat ret div 65536"
    unfolding unat_drop_bit_eq by (simp add: drop_bit_eq_div)
  have big: "65536 \<le> unat ret" using assms by (simp add: word_less_nat_alt)
  have "unat ret div 65536 + unat ret mod 65536 < 4294967296"
    using u32_bound [of ret] by simp
  then show eq: "unat (drop_bit 16 ret + (ret AND 0xffff)) = unat ret div 65536 + unat ret mod 65536"
    by (simp add: unat_word_ariths low high)
  show "unat (drop_bit 16 ret + (ret AND 0xffff)) < unat ret"
    unfolding eq using big div_mult_mod_eq [of "unat ret" 65536] by linarith
qed

function fold_carries :: "u32 \<Rightarrow> u32" where
  "fold_carries ret =
     (if ret > 0xffff then fold_carries (drop_bit 16 ret + (ret AND 0xffff)) else ret)"
  by pat_completeness auto
termination
  by (relation "measure unat") (simp_all add: fold_carry_less(1))

declare fold_carries.simps [simp del]

definition ck_value :: "InternetChecksum \<Rightarrow> u16" where
  "ck_value c = ucast (NOT (fold_carries (ck_sum c)))"

section \<open>The accumulator as a number\<close>

fun byte_sum :: "bool \<Rightarrow> bytes \<Rightarrow> nat" where
  "byte_sum par [] = 0"
| "byte_sum par (b # bs) = (if par then unat b else 256 * unat b) + byte_sum (\<not> par) bs"

lemma byte_sum_append:
  "byte_sum par (xs @ ys) = byte_sum par xs + byte_sum (par \<noteq> odd (length xs)) ys"
proof (induction xs arbitrary: par)
  case (Cons b xs)
  then show ?case by (cases par) simp_all
qed simp

lemma byte_sum_le: "2 * byte_sum par xs \<le> 65535 * length xs + (if par then 0 else 65025)"
proof (induction xs arbitrary: par)
  case (Cons b xs)
  show ?case using Cons.IH [of "\<not> par"] u8_bound [of b] by (cases par) auto
qed simp

lemma word_of_unatI: "unat w = k \<Longrightarrow> w = word_of_nat k"
  by auto

lemma ck_step_parity: "ck_parity (ck_step c b) = (\<not> ck_parity c)"
  by (simp add: ck_step_def Let_def)

lemma ck_step_sum:
  "ck_sum (ck_step c b) = ck_sum c + word_of_nat (if ck_parity c then unat b else 256 * unat b)"
proof -
  have b: "unat b < 256" by (rule u8_bound)
  have "unat (push_bit 8 (ucast b :: u16)) = 256 * unat b"
    unfolding unsigned_push_bit_eq take_bit_eq_mod using b
    by (simp add: unat_ucast_mod push_bit_eq_mult)
  then have "unat (ucast (push_bit 8 (ucast b :: u16)) :: u32) = 256 * unat b"
    using b by (simp add: unat_ucast_mod)
  moreover have "unat (ucast (ucast b :: u16) :: u32) = unat b"
    using b by (simp add: unat_ucast_mod)
  ultimately have "ucast (push_bit 8 (ucast b :: u16)) = (word_of_nat (256 * unat b) :: u32)"
      "ucast (ucast b :: u16) = (word_of_nat (unat b) :: u32)"
    by - (rule word_of_unatI, assumption)+
  then show ?thesis by (simp add: ck_step_def Let_def)
qed

lemma ck_add_sum: "ck_sum (ck_add c xs) = ck_sum c + word_of_nat (byte_sum (ck_parity c) xs)"
  by (induction xs arbitrary: c) (simp_all add: ck_add_def ck_step_sum ck_step_parity add.assoc)

lemma ck_add_parity: "ck_parity (ck_add c xs) = (ck_parity c \<noteq> odd (length xs))"
  by (induction xs arbitrary: c) (auto simp: ck_add_def ck_step_parity)

text \<open>Data may be added in pieces of any size.\<close>

lemma ck_add_append: "ck_add (ck_add c xs) ys = ck_add c (xs @ ys)"
  by (simp add: ck_add_def)

section \<open>Folding\<close>

lemma fold_carries_spec:
  "unat (fold_carries ret) \<le> 65535 \<and> unat (fold_carries ret) mod 65535 = unat ret mod 65535 \<and>
   (0 < unat ret \<longrightarrow> 0 < unat (fold_carries ret))"
proof (induction ret rule: fold_carries.induct)
  case (1 ret)
  show ?case
  proof (cases "0xffff < ret")
    case True
    let ?r = "drop_bit 16 ret + (ret AND 0xffff)"
    have r: "unat ?r = unat ret div 65536 + unat ret mod 65536" by (rule fold_carry_less(2) [OF True])
    have split: "unat ret = unat ?r + 65535 * (unat ret div 65536)"
      unfolding r using div_mult_mod_eq [of "unat ret" 65536] by linarith
    have "unat ?r mod 65535 = unat ret mod 65535" by (metis mod_mult_self2 split)
    moreover have "0 < unat ?r" unfolding r using True by (simp add: word_less_nat_alt div_greater_zero_iff)
    ultimately show ?thesis
      using 1 [OF True] True by (simp add: fold_carries.simps [of ret])
  next
    case False
    then show ?thesis by (simp add: fold_carries.simps [of ret] word_less_nat_alt)
  qed
qed

text \<open>The folded sum as a function of the number summed up.\<close>

definition ones_sum :: "nat \<Rightarrow> nat" where
  "ones_sum n = (if n = 0 then 0 else if n mod 65535 = 0 then 65535 else n mod 65535)"

lemma fold_carries_eq: "unat (fold_carries ret) = ones_sum (unat ret)"
proof -
  define f where "f = unat (fold_carries ret)"
  have f: "f \<le> 65535" "f mod 65535 = unat ret mod 65535" "0 < unat ret \<longrightarrow> 0 < f"
    using fold_carries_spec [of ret] by (simp_all add: f_def)
  have zero: "f = 0" if "unat ret = 0"
    using that by (simp add: f_def unat_eq_zero fold_carries.simps [of 0])
  consider "f = 65535" | "f < 65535" using f(1) by linarith
  then have "f = ones_sum (unat ret)"
  proof cases
    case 1
    then show ?thesis using f(2) zero by (auto simp: ones_sum_def)
  next
    case 2
    then show ?thesis using f(2,3) zero by (auto simp: ones_sum_def)
  qed
  then show ?thesis by (simp add: f_def)
qed

lemma unat_ck_value: "unat (ck_value c) = 65535 - ones_sum (unat (ck_sum c))"
proof -
  define r where "r = fold_carries (ck_sum c)"
  have r: "unat r \<le> 65535" using fold_carries_spec [of "ck_sum c"] by (simp add: r_def)
  have "NOT r = 4294967295 - r" by (simp add: not_eq_complement)
  then have "unat (NOT r) = 4294967295 - unat r"
    using r by (simp add: unat_sub word_le_nat_alt)
  also have "\<dots> = (65535 - unat r) + 65535 * 65536" using r by linarith
  finally have "unat (ucast (NOT r) :: u16) = ((65535 - unat r) + 65535 * 65536) mod 65536"
    by (simp add: unat_ucast_mod)
  then have "unat (ucast (NOT r) :: u16) = 65535 - unat r" unfolding mod_mult_self1 by simp
  then show ?thesis by (simp add: ck_value_def r_def fold_carries_eq)
qed

section \<open>Properties\<close>

lemma ones_sum_complement: "ones_sum (n + (65535 - ones_sum n)) = 65535"
proof (cases "n mod 65535 = 0")
  case True
  then show ?thesis by (auto simp: ones_sum_def)
next
  case False
  have "n mod 65535 < 65535" by simp
  then have "n + (65535 - n mod 65535) = 65535 * (n div 65535) + 65535"
    using div_mult_mod_eq [of n 65535] by linarith
  then have "(n + (65535 - n mod 65535)) mod 65535 = 0" by simp
  then show ?thesis using False by (auto simp: ones_sum_def)
qed

lemma ck_sum_small:
  assumes "unat init + 65535 * (length xs + 1) < 4294967296"
  shows "unat (ck_sum (ck_add (InternetChecksum_init init) xs)) = unat init + byte_sum False xs"
proof -
  have "byte_sum False xs \<le> 65535 * (length xs + 1)" using byte_sum_le [of False xs] by simp
  then show ?thesis
    using assms by (simp add: ck_add_sum InternetChecksum_init_def unat_word_ariths unat_of_nat)
qed

lemma byte_sum_word: "256 * (unat (v :: u16) div 256) + unat v mod 256 = unat v"
  using div_mult_mod_eq [of "unat v" 256] by simp

lemma checksum_in_place:
  assumes even: "even (length pre)"
    and small: "unat init + 65535 * (length pre + length post + 3) < 4294967296"
  defines "c \<equiv> ck_value (ck_add (InternetChecksum_init init) (pre @ [0, 0] @ post))"
  shows "ck_value (ck_add (InternetChecksum_init init)
    (pre @ [ucast (drop_bit 8 c), ucast c] @ post)) = 0"
proof -
  let ?n = "unat init + byte_sum False (pre @ [0, 0] @ post)"
  have hi: "unat (ucast (drop_bit 8 c) :: u8) = unat c div 256"
    using u16_bound [of c] by (simp add: unat_ucast_mod unat_drop_bit_eq) (simp add: drop_bit_eq_div)
  have lo: "unat (ucast c :: u8) = unat c mod 256" by (simp add: unat_ucast_mod)
  have n: "unat (ck_sum (ck_add (InternetChecksum_init init) (pre @ [0, 0] @ post))) = ?n"
    using small by (intro ck_sum_small) simp
  have c: "unat c = 65535 - ones_sum ?n" unfolding c_def unat_ck_value n ..
  have "byte_sum False (pre @ [ucast (drop_bit 8 c), ucast c] @ post) =
      byte_sum False (pre @ [0, 0] @ post) + unat c"
    using even byte_sum_word [of c] by (simp add: byte_sum_append hi lo)
  moreover have "unat (ck_sum (ck_add (InternetChecksum_init init)
      (pre @ [ucast (drop_bit 8 c), ucast c] @ post))) =
      unat init + byte_sum False (pre @ [ucast (drop_bit 8 c), ucast c] @ post)"
    using small by (intro ck_sum_small) simp
  ultimately have "unat (ck_value (ck_add (InternetChecksum_init init)
      (pre @ [ucast (drop_bit 8 c), ucast c] @ post))) = 65535 - ones_sum (?n + unat c)"
    by (simp add: unat_ck_value add.assoc)
  then show ?thesis unfolding c ones_sum_complement by (simp add: unat_eq_zero)
qed

text \<open>
  The contract of the checksum: fill in the value computed over data whose checksum
  field is zero, and the checksum of the result is zero. It holds for a field at any even
  position, any initial sum, and any data short enough for the 32-bit accumulator not to
  overflow, which 64 KiB packets are.
\<close>

theorem checksum_verifies:
  assumes "even (length pre)"
    and "unat init + 65535 * (length pre + length post + 3) < 4294967296"
    and "c = ck_value (ck_add (InternetChecksum_init init) (pre @ [0, 0] @ post))"
  shows "ck_value (ck_add (InternetChecksum_init init)
    (pre @ [ucast (drop_bit 8 c), ucast c] @ post)) = 0"
  unfolding assms(3) by (rule checksum_in_place [OF assms(1,2)])

theorem checksum_verifies_witness:
  "even (length [0x45, 0 :: u8]) \<and> unat (17 :: u32) + 65535 * (2 + 1 + 3) < 4294967296 \<and>
   (let c = ck_value (ck_add (InternetChecksum_init 17) ([0x45, 0] @ [0, 0] @ [0xff])) in
    ck_value (ck_add (InternetChecksum_init 17) ([0x45, 0] @ [ucast (drop_bit 8 c), ucast c] @ [0xff])) = 0)"
  using checksum_verifies [of "[0x45, 0]" 17 "[0xff]"] by (simp add: Let_def)

text \<open>
  The folding loop of \<open>value\<close> computes the ones' complement sum: zero for the sum zero,
  otherwise the representative between 1 and 65535 of the sum modulo 65535; it always ends.
\<close>

theorem checksum_value_spec: "unat (ck_value c) = 65535 - ones_sum (unat (ck_sum c))"
  by (rule unat_ck_value)

end
