(* ===== verification/Buffers.thy ===== *)
theory Buffers
  imports Prelude
begin

text \<open>
  \<open>Buffer\<close>, \<open>BufferList\<close> and \<open>BufferViewList\<close> (\<open>src/libsponge/util/buffer.hh\<close>,
  \<open>buffer.cc\<close>): strings in one or several shared pieces that can drop bytes from the front.

  All three promise the same: seen as one string, \<open>remove_prefix(n)\<close> drops the first \<open>n\<close>
  bytes and throws exactly when there are fewer. The locale \<open>prefix_view\<close> states that
  contract; each class is an interpretation of it. The other components only use a buffer
  through its contents, so their models hold the contents, a list of bytes.
\<close>

section \<open>State and operations\<close>

text \<open>\<open>_storage\<close> is a shared pointer to a string nobody writes, so the string itself.\<close>

record Buffer =
  buf_storage :: "bytes option"
  buf_starting_offset :: u64

definition Buffer_init :: "bytes \<Rightarrow> Buffer" where
  "Buffer_init str = \<lparr>buf_storage = Some str, buf_starting_offset = 0\<rparr>"

definition Buffer_none :: Buffer where
  "Buffer_none = \<lparr>buf_storage = None, buf_starting_offset = 0\<rparr>"

definition buf_str :: "Buffer \<Rightarrow> bytes" where
  "buf_str b = (case buf_storage b of None \<Rightarrow> []
     | Some st \<Rightarrow> drop (unat (buf_starting_offset b)) st)"

definition buf_at :: "Buffer \<Rightarrow> u64 \<Rightarrow> u8 res" where
  "buf_at b n = (if unat n < length (buf_str b) then Inr (buf_str b ! unat n) else Inl Out_Of_Range)"

definition buf_size :: "Buffer \<Rightarrow> u64" where
  "buf_size b = sz (buf_str b)"

definition buf_remove_prefix :: "Buffer \<Rightarrow> u64 \<Rightarrow> Buffer res" where
  "buf_remove_prefix b n =
     (if n > sz (buf_str b) then Inl Out_Of_Range
      else
        let b1 = b\<lparr>buf_starting_offset := buf_starting_offset b + n\<rparr> in
        Inr (case buf_storage b1 of None \<Rightarrow> b1
             | Some st \<Rightarrow> if buf_starting_offset b1 = sz st then b1\<lparr>buf_storage := None\<rparr> else b1))"

type_synonym BufferList = "Buffer list"

definition bl_append :: "BufferList \<Rightarrow> BufferList \<Rightarrow> BufferList" where
  "bl_append bs other = foldl (\<lambda>acc b. acc @ [b]) bs other"

definition bl_to_buffer :: "BufferList \<Rightarrow> Buffer res" where
  "bl_to_buffer bs = (case bs of
       [] \<Rightarrow> Inr Buffer_none
     | [b] \<Rightarrow> Inr b
     | _ \<Rightarrow> Inl (Runtime_Error ''BufferList: please use concatenate() to combine a multi-Buffer BufferList into one Buffer''))"

definition bl_concatenate :: "BufferList \<Rightarrow> bytes" where
  "bl_concatenate bs = foldl (\<lambda>ret b. ret @ buf_str b) [] bs"

definition bl_size :: "BufferList \<Rightarrow> u64" where
  "bl_size bs = foldl (\<lambda>ret b. ret + buf_size b) 0 bs"

fun bl_remove_prefix :: "BufferList \<Rightarrow> u64 \<Rightarrow> BufferList res" where
  "bl_remove_prefix [] n = (if n > 0 then Inl Out_Of_Range else Inr [])"
| "bl_remove_prefix (b # bs) n =
     (if n > 0 then
        if n < sz (buf_str b) then bindE (buf_remove_prefix b n) (\<lambda>b'. Inr (b' # bs))
        else bl_remove_prefix bs (n - sz (buf_str b))
      else Inr (b # bs))"

text \<open>The same conversion on the contents of the pieces, for the components that hold a
  \<open>BufferList\<close> through its contents.\<close>

definition pieces_to_buffer :: "bytes list \<Rightarrow> bytes res" where
  "pieces_to_buffer ps = (case ps of
       [] \<Rightarrow> Inr []
     | [p] \<Rightarrow> Inr p
     | _ \<Rightarrow> Inl (Runtime_Error ''BufferList: please use concatenate() to combine a multi-Buffer BufferList into one Buffer''))"

text \<open>A \<open>string_view\<close> is the list of the bytes it shows.\<close>

type_synonym BufferViewList = "bytes list"

definition bvl_of_list :: "BufferList \<Rightarrow> BufferViewList" where
  "bvl_of_list bs = foldl (\<lambda>vs b. vs @ [buf_str b]) [] bs"

definition bvl_of_string :: "bytes \<Rightarrow> BufferViewList" where
  "bvl_of_string str = [str]"

fun bvl_remove_prefix :: "BufferViewList \<Rightarrow> u64 \<Rightarrow> BufferViewList res" where
  "bvl_remove_prefix [] n = (if n > 0 then Inl Out_Of_Range else Inr [])"
| "bvl_remove_prefix (v # vs) n =
     (if n > 0 then
        if n < sz v then Inr (drop (unat n) v # vs)
        else bvl_remove_prefix vs (n - sz v)
      else Inr (v # vs))"

definition bvl_size :: "BufferViewList \<Rightarrow> u64" where
  "bvl_size vs = foldl (\<lambda>ret v. ret + sz v) 0 vs"

text \<open>An \<open>iovec\<close> is a base address, here the bytes that start there, and a length.\<close>

definition as_iovecs :: "BufferViewList \<Rightarrow> (bytes \<times> u64) list" where
  "as_iovecs vs = foldl (\<lambda>ret v. ret @ [(v, sz v)]) [] vs"

section \<open>The contract\<close>

locale prefix_view =
  fixes ok :: "'b \<Rightarrow> bool" and content :: "'b \<Rightarrow> bytes" and remove :: "'b \<Rightarrow> u64 \<Rightarrow> 'b res"
  assumes ok_fits: "ok b \<Longrightarrow> fits (content b)"
    and remove_ok: "ok b \<Longrightarrow> unat n \<le> length (content b) \<Longrightarrow>
      \<exists>b'. remove b n = Inr b' \<and> ok b' \<and> content b' = drop (unat n) (content b)"
    and remove_throws: "ok b \<Longrightarrow> length (content b) < unat n \<Longrightarrow> remove b n = Inl Out_Of_Range"
begin

lemma remove_InrD:
  assumes "ok b" "remove b n = Inr b'"
  shows "ok b'" "content b' = drop (unat n) (content b)" "unat n \<le> length (content b)"
proof -
  show le: "unat n \<le> length (content b)"
    using assms remove_throws by (metis Inl_Inr_False not_le)
  show "ok b'" "content b' = drop (unat n) (content b)"
    using remove_ok [OF assms(1) le] assms(2) by auto
qed

text \<open>A client that takes a string apart in pieces sees all of it, in order.\<close>

lemma remove_pieces:
  assumes "ok b" "remove b n = Inr b1" "remove b1 m = Inr b2"
  shows "content b = take (unat n) (content b) @ take (unat m) (content b1) @ content b2"
  using remove_InrD [OF assms(1,2)] remove_InrD [OF _ assms(3)] by (metis append_take_drop_id)

lemma remove_twice:
  assumes "ok b" "remove b n = Inr b1" "remove b1 m = Inr b2"
  shows "\<exists>b3. remove b (n + m) = Inr b3 \<and> content b3 = content b2"
proof -
  have len: "unat n + unat m \<le> length (content b)"
    using remove_InrD [OF assms(1,2)] remove_InrD [OF _ assms(3)] by simp
  then have "unat (n + m) = unat n + unat m"
    using ok_fits [OF assms(1)] by (simp add: fits_def unat_u64_add)
  then show ?thesis
    using remove_ok [OF assms(1), of "n + m"] len
      remove_InrD [OF assms(1,2)] remove_InrD [OF _ assms(3)] by (auto simp: add.commute)
qed

end

section \<open>The three classes keep it\<close>

definition buf_ok :: "Buffer \<Rightarrow> bool" where
  "buf_ok b \<longleftrightarrow> (case buf_storage b of None \<Rightarrow> True
     | Some st \<Rightarrow> fits st \<and> unat (buf_starting_offset b) \<le> length st)"

definition views_ok :: "bytes list \<Rightarrow> bool" where
  "views_ok vs \<longleftrightarrow> fits (concat vs)"

definition bl_ok :: "BufferList \<Rightarrow> bool" where
  "bl_ok bs \<longleftrightarrow> list_all buf_ok bs \<and> views_ok (map buf_str bs)"

lemma foldl_collect: "foldl (\<lambda>acc x. acc @ f x) acc xs = acc @ concat (map f xs)"
  by (induction xs arbitrary: acc) simp_all

lemma bl_append_eq: "bl_append bs other = bs @ other"
  using foldl_collect [of "\<lambda>b. [b]" bs other] by (simp add: bl_append_def)

lemma bl_concatenate_eq: "bl_concatenate bs = concat (map buf_str bs)"
  using foldl_collect [of buf_str "[]" bs] by (simp add: bl_concatenate_def)

lemma bvl_of_list_eq: "bvl_of_list bs = map buf_str bs"
  using foldl_collect [of "\<lambda>b. [buf_str b]" "[]" bs] by (simp add: bvl_of_list_def)

lemma as_iovecs_eq: "as_iovecs vs = map (\<lambda>v. (v, sz v)) vs"
  using foldl_collect [of "\<lambda>v. [(v, sz v)]" "[]" vs] by (simp add: as_iovecs_def)

lemma foldl_sz: "foldl (\<lambda>ret v. ret + sz v) acc vs = acc + sz (concat vs)"
  by (induction vs arbitrary: acc) (simp_all add: sz_append add.assoc)

lemma bvl_size_eq: "bvl_size vs = sz (concat vs)"
  by (simp add: bvl_size_def foldl_sz)

lemma bl_size_eq: "bl_size bs = sz (bl_concatenate bs)"
proof -
  have "bl_size bs = foldl (\<lambda>ret v. ret + sz v) 0 (map buf_str bs)"
    by (simp add: bl_size_def buf_size_def foldl_map)
  then show ?thesis by (simp add: foldl_sz bl_concatenate_eq)
qed

lemma buf_ok_fits: "buf_ok b \<Longrightarrow> fits (buf_str b)"
  by (auto simp: buf_ok_def buf_str_def fits_def split: option.splits)

lemma buf_remove_prefix_ok:
  assumes "buf_ok b" "unat n \<le> length (buf_str b)"
  shows "\<exists>b'. buf_remove_prefix b n = Inr b' \<and> buf_ok b' \<and> buf_str b' = drop (unat n) (buf_str b)"
proof (cases "buf_storage b")
  case None
  then show ?thesis using assms
    by (simp add: buf_remove_prefix_def buf_str_def buf_ok_def word_less_nat_alt Let_def)
next
  case (Some st)
  then have len: "unat (buf_starting_offset b) + unat n \<le> length st" and "fits st"
    using assms by (auto simp: buf_ok_def buf_str_def)
  then have off: "unat (buf_starting_offset b + n) = unat (buf_starting_offset b) + unat n"
    by (simp add: fits_def word_nat)
  have "(buf_starting_offset b + n = sz st) = (unat (buf_starting_offset b) + unat n = length st)"
    using \<open>fits st\<close> by (simp add: word_unat_eq_iff off word_nat)
  moreover have "\<not> sz (buf_str b) < n"
    using assms buf_ok_fits [OF assms(1)] by (simp add: word_less_nat_alt word_nat)
  ultimately show ?thesis
    using Some len \<open>fits st\<close> off
    by (simp add: buf_remove_prefix_def buf_str_def buf_ok_def Let_def add.commute)
qed

interpretation buffer: prefix_view buf_ok buf_str buf_remove_prefix
proof unfold_locales
  fix b and n :: u64 assume "buf_ok b" "length (buf_str b) < unat n"
  then show "buf_remove_prefix b n = Inl Out_Of_Range"
    by (simp add: buf_remove_prefix_def word_less_nat_alt buf_ok_fits word_nat)
qed (simp_all add: buf_ok_fits buf_remove_prefix_ok)

lemma views_ok_Cons: "views_ok (v # vs) \<Longrightarrow> fits v \<and> views_ok vs \<and> length v + length (concat vs) < 18446744073709551616"
  by (simp add: views_ok_def fits_def)

lemma bvl_remove_prefix_ok:
  "views_ok vs \<Longrightarrow> unat n \<le> length (concat vs) \<Longrightarrow>
   \<exists>vs'. bvl_remove_prefix vs n = Inr vs' \<and> concat vs' = drop (unat n) (concat vs)"
proof (induction vs arbitrary: n)
  case (Cons v vs)
  note ok = views_ok_Cons [OF Cons.prems(1)]
  show ?case
  proof (cases "unat n < length v")
    case True
    then show ?thesis using ok by (simp add: word_less_nat_alt word_nat)
  next
    case False
    then have "unat (n - sz v) = unat n - length v" using ok by (simp add: word_nat)
    moreover have "unat n - length v \<le> length (concat vs)" using Cons.prems(2) by simp
    ultimately show ?thesis
      using Cons.IH [of "n - sz v"] ok False by (auto simp: word_less_nat_alt word_nat)
  qed
qed (simp add: word_less_nat_alt)

lemma bvl_remove_prefix_throws:
  "views_ok vs \<Longrightarrow> length (concat vs) < unat n \<Longrightarrow> bvl_remove_prefix vs n = Inl Out_Of_Range"
proof (induction vs arbitrary: n)
  case (Cons v vs)
  note ok = views_ok_Cons [OF Cons.prems(1)]
  have le: "length v \<le> unat n" using Cons.prems(2) by simp
  then have "unat (n - sz v) = unat n - length v" using ok by (simp add: word_nat)
  then show ?case
    using Cons.IH [of "n - sz v"] Cons.prems ok le by (auto simp: word_less_nat_alt word_nat)
qed (simp add: word_less_nat_alt)

text \<open>A list of buffers loses its prefix as the list of its views does.\<close>

lemma bl_remove_prefix_views:
  "list_all buf_ok bs \<Longrightarrow> (case bl_remove_prefix bs n of
     Inl e \<Rightarrow> bvl_remove_prefix (map buf_str bs) n = Inl e
   | Inr bs' \<Rightarrow> list_all buf_ok bs' \<and> bvl_remove_prefix (map buf_str bs) n = Inr (map buf_str bs'))"
proof (induction bs arbitrary: n)
  case (Cons b bs)
  then have b: "buf_ok b" and bs: "list_all buf_ok bs" by simp_all
  show ?case
  proof (cases "0 < n \<and> n < sz (buf_str b)")
    case True
    then have "unat n \<le> length (buf_str b)"
      using buf_ok_fits [OF b] by (simp add: word_less_nat_alt word_nat)
    then obtain b' where "buf_remove_prefix b n = Inr b'" "buf_ok b'"
        "buf_str b' = drop (unat n) (buf_str b)"
      using buf_remove_prefix_ok [OF b] by blast
    then show ?thesis using True bs by simp
  next
    case False
    then show ?thesis using Cons.IH [OF bs, of "n - sz (buf_str b)"] b bs by (auto split: sum.splits)
  qed
qed (simp add: word_less_nat_alt)

interpretation views: prefix_view views_ok concat bvl_remove_prefix
proof unfold_locales
  fix vs and n :: u64 assume "views_ok vs" "unat n \<le> length (concat vs)"
  then show "\<exists>vs'. bvl_remove_prefix vs n = Inr vs' \<and> views_ok vs' \<and>
      concat vs' = drop (unat n) (concat vs)"
    using bvl_remove_prefix_ok [of vs n] by (auto simp: views_ok_def fits_def)
qed (simp_all add: views_ok_def bvl_remove_prefix_throws)

interpretation buffers: prefix_view bl_ok bl_concatenate bl_remove_prefix
proof unfold_locales
  fix bs n assume ok: "bl_ok bs"
  then have "list_all buf_ok bs" "views_ok (map buf_str bs)" by (simp_all add: bl_ok_def)
  note sim = bl_remove_prefix_views [OF this(1), of n] and views = this(2)
  show "fits (bl_concatenate bs)" using views by (simp add: views_ok_def bl_concatenate_eq)
  show "\<exists>bs'. bl_remove_prefix bs n = Inr bs' \<and> bl_ok bs' \<and>
      bl_concatenate bs' = drop (unat n) (bl_concatenate bs)"
    if le: "unat n \<le> length (bl_concatenate bs)"
  proof -
    obtain vs' where vs': "bvl_remove_prefix (map buf_str bs) n = Inr vs'"
        "concat vs' = drop (unat n) (bl_concatenate bs)"
      using bvl_remove_prefix_ok [OF views le [unfolded bl_concatenate_eq]]
      by (auto simp: bl_concatenate_eq)
    then obtain bs' where "bl_remove_prefix bs n = Inr bs'" "list_all buf_ok bs'" "map buf_str bs' = vs'"
      using sim by (auto split: sum.splits)
    then show ?thesis using vs' views by (auto simp: bl_ok_def views_ok_def bl_concatenate_eq fits_def)
  qed
  show "bl_remove_prefix bs n = Inl Out_Of_Range" if "length (bl_concatenate bs) < unat n"
    using sim bvl_remove_prefix_throws [OF views, of n] that
    by (auto simp: bl_concatenate_eq split: sum.splits)
qed

lemma pieces_to_buffer_bl:
  "pieces_to_buffer (map buf_str bs) = bindE (bl_to_buffer bs) (\<lambda>b. Inr (buf_str b))"
  by (auto simp: pieces_to_buffer_def bl_to_buffer_def Buffer_none_def buf_str_def split: list.splits)

section \<open>Properties\<close>

text \<open>
  Taking a discontiguous string apart piece by piece neither loses nor repeats a byte,
  wherever the pieces' edges fall relative to the buffers': after removing \<open>n\<close> bytes and then
  \<open>m\<close> bytes, the whole is the two removed pieces followed by what is left, and one removal
  of \<open>n + m\<close> bytes leaves the same.
\<close>

theorem buffer_list_pieces:
  assumes "bl_ok bs" and "bl_remove_prefix bs n = Inr bs1" and "bl_remove_prefix bs1 m = Inr bs2"
  shows "bl_concatenate bs = take (unat n) (bl_concatenate bs) @
      take (unat m) (bl_concatenate bs1) @ bl_concatenate bs2 \<and>
    (\<exists>bs3. bl_remove_prefix bs (n + m) = Inr bs3 \<and> bl_concatenate bs3 = bl_concatenate bs2)"
  using buffers.remove_pieces [OF assms] buffers.remove_twice [OF assms] by blast

theorem buffer_list_pieces_witness:
  "\<exists>bs1 bs2. bl_remove_prefix [Buffer_init [1, 2], Buffer_init [3, 4]] 1 = Inr bs1 \<and>
     bl_remove_prefix bs1 2 = Inr bs2 \<and>
     bl_concatenate [Buffer_init [1, 2], Buffer_init [3, 4]] =
       take 1 (bl_concatenate [Buffer_init [1, 2], Buffer_init [3, 4]]) @
       take 2 (bl_concatenate bs1) @ bl_concatenate bs2 \<and> bl_concatenate bs2 = [4]"
proof -
  let ?bs = "[Buffer_init [1, 2], Buffer_init [3, 4]]"
  have ok: "bl_ok ?bs"
    by (simp add: bl_ok_def buf_ok_def views_ok_def buf_str_def Buffer_init_def fits_def)
  obtain bs1 bs2 where "bl_remove_prefix ?bs 1 = Inr bs1" "bl_remove_prefix bs1 2 = Inr bs2"
      "bl_concatenate bs2 = [4]"
    by (simp add: Buffer_init_def buf_str_def sz_def buf_remove_prefix_def bl_concatenate_def)
  with buffer_list_pieces [OF ok this(1,2)] show ?thesis by auto
qed

text \<open>
  Removing a prefix throws exactly when the string is shorter than it, for a list of
  buffers as for a list of views, and then it throws \<open>out_of_range\<close>.
\<close>

lemma remove_prefix_throws_iff:
  assumes "bl_ok bs"
  shows "(bl_remove_prefix bs n = Inl Out_Of_Range) = (bl_size bs < n)"
    and "(bvl_remove_prefix (bvl_of_list bs) n = Inl Out_Of_Range) = (bvl_size (bvl_of_list bs) < n)"
proof -
  have views: "views_ok (bvl_of_list bs)" using assms by (simp add: bl_ok_def bvl_of_list_eq)
  have "(bl_remove_prefix bs n = Inl Out_Of_Range) = (length (bl_concatenate bs) < unat n)"
    using buffers.remove_throws [OF assms] buffers.remove_ok [OF assms]
    by (metis Inl_Inr_False not_le)
  then show "(bl_remove_prefix bs n = Inl Out_Of_Range) = (bl_size bs < n)"
    using buffers.ok_fits [OF assms] by (simp add: word_less_nat_alt bl_size_eq word_nat)
  have "(bvl_remove_prefix (bvl_of_list bs) n = Inl Out_Of_Range) =
      (length (concat (bvl_of_list bs)) < unat n)"
    using views.remove_throws [OF views] views.remove_ok [OF views]
    by (metis Inl_Inr_False not_le)
  then show "(bvl_remove_prefix (bvl_of_list bs) n = Inl Out_Of_Range) =
      (bvl_size (bvl_of_list bs) < n)"
    using views.ok_fits [OF views] by (simp add: word_less_nat_alt bvl_size_eq word_nat)
qed

end
