(* ===== verification/TCP_Segment.thy ===== *)
theory TCP_Segment
  imports Wrapping_Integers Net_Parser Internet_Checksum Buffers
begin

text \<open>
  \<open>TCPHeader\<close> and \<open>TCPSegment\<close> (\<open>src/libsponge/tcp_helpers/tcp_header.hh\<close>,
  \<open>tcp_header.cc\<close>, \<open>tcp_segment.hh\<close>, \<open>tcp_segment.cc\<close>): the wire format of TCP. A segment
  holds the contents of its payload buffer; the result of \<open>serialize\<close> is the list of the
  contents of the buffers it is made of.

  The locale \<open>wire_codec\<close> is the contract of every message type of the stack: what
  \<open>serialize\<close> writes, \<open>parse\<close> reads back, up to the fields \<open>serialize\<close> itself fills in.
\<close>

section \<open>State and operations\<close>

record TCPHeader =
  th_sport :: u16
  th_dport :: u16
  th_seqno :: WrappingInt32
  th_ackno :: WrappingInt32
  th_doff :: u8
  th_urg :: bool
  th_ack :: bool
  th_psh :: bool
  th_rst :: bool
  th_syn :: bool
  th_fin :: bool
  th_win :: u16
  th_cksum :: u16
  th_uptr :: u16

definition TCPHeader_init :: TCPHeader where
  "TCPHeader_init = \<lparr>th_sport = 0, th_dport = 0, th_seqno = WrappingInt32 0,
     th_ackno = WrappingInt32 0, th_doff = 5, th_urg = False, th_ack = False, th_psh = False,
     th_rst = False, th_syn = False, th_fin = False, th_win = 0, th_cksum = 0, th_uptr = 0\<rparr>"

definition tcp_header_parse :: "NetParser \<Rightarrow> ParseResult \<times> TCPHeader \<times> NetParser" where
  "tcp_header_parse p =
     (let (sport, p) = np_u16 p;
          (dport, p) = np_u16 p;
          (seqno, p) = np_u32 p;
          (ackno, p) = np_u32 p;
          (doff_b, p) = np_u8 p;
          doff = drop_bit 4 doff_b;
          (fl_b, p) = np_u8 p;
          (win, p) = np_u16 p;
          (cksum, p) = np_u16 p;
          (uptr, p) = np_u16 p;
          h = \<lparr>th_sport = sport, th_dport = dport, th_seqno = WrappingInt32 seqno,
               th_ackno = WrappingInt32 ackno, th_doff = doff,
               th_urg = (fl_b AND 0x20 \<noteq> 0), th_ack = (fl_b AND 0x10 \<noteq> 0),
               th_psh = (fl_b AND 0x08 \<noteq> 0), th_rst = (fl_b AND 0x04 \<noteq> 0),
               th_syn = (fl_b AND 0x02 \<noteq> 0), th_fin = (fl_b AND 0x01 \<noteq> 0),
               th_win = win, th_cksum = cksum, th_uptr = uptr\<rparr>
      in if doff < 5 then (HeaderTooShort, h, p)
         else
           let p = np_remove_prefix p (unat doff * 4 - 20) in
           if np_has_error p then (np_error p, h, p) else (NoError, h, p))"

definition tcp_header_serialize :: "TCPHeader \<Rightarrow> bytes res" where
  "tcp_header_serialize h =
     (if th_doff h < 5 then Inl (Runtime_Error ''TCP header too short'')
      else
        let ret = put_u16 [] (th_sport h);
            ret = put_u16 ret (th_dport h);
            ret = put_u32 ret (raw_value (th_seqno h));
            ret = put_u32 ret (raw_value (th_ackno h));
            ret = put_u8 ret (push_bit 4 (th_doff h));
            fl_b = (if th_urg h then 0x20 else 0) OR (if th_ack h then 0x10 else 0) OR
                   (if th_psh h then 0x08 else 0) OR (if th_rst h then 0x04 else 0) OR
                   (if th_syn h then 0x02 else 0) OR (if th_fin h then 0x01 else 0);
            ret = put_u8 ret fl_b;
            ret = put_u16 ret (th_win h);
            ret = put_u16 ret (th_cksum h);
            ret = put_u16 ret (th_uptr h)
        in Inr (str_resize ret (4 * unat (th_doff h))))"

text \<open>\<open>operator==\<close> compares all fields but the ports and the checksum.\<close>

definition tcp_header_eq :: "TCPHeader \<Rightarrow> TCPHeader \<Rightarrow> bool" where
  "tcp_header_eq h g \<longleftrightarrow> th_seqno h = th_seqno g \<and> th_ackno h = th_ackno g \<and>
     th_doff h = th_doff g \<and> th_urg h = th_urg g \<and> th_ack h = th_ack g \<and> th_psh h = th_psh g \<and>
     th_rst h = th_rst g \<and> th_syn h = th_syn g \<and> th_fin h = th_fin g \<and> th_win h = th_win g \<and>
     th_uptr h = th_uptr g"

record TCPSegment =
  ts_header :: TCPHeader
  ts_payload :: bytes

definition TCPSegment_init :: TCPSegment where
  "TCPSegment_init = \<lparr>ts_header = TCPHeader_init, ts_payload = []\<rparr>"

definition tcp_segment_parse :: "TCPSegment \<Rightarrow> bytes \<Rightarrow> u32 \<Rightarrow> ParseResult \<times> TCPSegment" where
  "tcp_segment_parse seg buffer datagram_layer_checksum =
     (let check = ck_add (InternetChecksum_init datagram_layer_checksum) buffer in
      if ck_value check \<noteq> 0 then (BadChecksum, seg)
      else
        let (_, h, p) = tcp_header_parse (NetParser_init buffer) in
        (np_error p, seg\<lparr>ts_header := h, ts_payload := np_buffer p\<rparr>))"

definition length_in_sequence_space :: "TCPSegment \<Rightarrow> u64" where
  "length_in_sequence_space seg = sz (ts_payload seg) +
     (if th_syn (ts_header seg) then 1 else 0) + (if th_fin (ts_header seg) then 1 else 0)"

definition tcp_segment_serialize :: "TCPSegment \<Rightarrow> u32 \<Rightarrow> bytes list res" where
  "tcp_segment_serialize seg datagram_layer_checksum =
     (let header_out = (ts_header seg)\<lparr>th_cksum := 0\<rparr> in
      bindE (tcp_header_serialize header_out) (\<lambda>hdr0.
        let check = ck_add (InternetChecksum_init datagram_layer_checksum) hdr0;
            check = ck_add check (ts_payload seg);
            header_out = header_out\<lparr>th_cksum := ck_value check\<rparr>
        in bindE (tcp_header_serialize header_out) (\<lambda>hdr.
           Inr [hdr, ts_payload seg])))"

section \<open>The contract of a message format\<close>

text \<open>\<open>filled m\<close> is the message with the fields that \<open>serialize\<close> computes.\<close>

locale wire_codec =
  fixes valid :: "'m \<Rightarrow> bool" and filled :: "'m \<Rightarrow> 'm"
    and ser :: "'m \<Rightarrow> bytes list res" and parse :: "bytes \<Rightarrow> ParseResult \<times> 'm"
  assumes ser_ok: "valid m \<Longrightarrow> \<exists>ps. ser m = Inr ps"
    and parse_ser: "valid m \<Longrightarrow> ser m = Inr ps \<Longrightarrow> parse (concat ps) = (NoError, filled m)"
begin

text \<open>Two messages with the same bytes on the wire are the same message.\<close>

lemma ser_inj:
  assumes "valid m" "valid m'" "ser m = Inr ps" "ser m' = Inr ps'" "concat ps = concat ps'"
  shows "filled m = filled m'"
  using parse_ser [OF assms(1,3)] parse_ser [OF assms(2,4)] assms(5) by simp

lemma parse_ser_ex: "valid m \<Longrightarrow> \<exists>ps. ser m = Inr ps \<and> parse (concat ps) = (NoError, filled m)"
  using ser_ok parse_ser by blast

end

section \<open>The header\<close>

definition tcp_flags :: "TCPHeader \<Rightarrow> u8" where
  "tcp_flags h = (if th_urg h then 0x20 else 0) OR (if th_ack h then 0x10 else 0) OR
     (if th_psh h then 0x08 else 0) OR (if th_rst h then 0x04 else 0) OR
     (if th_syn h then 0x02 else 0) OR (if th_fin h then 0x01 else 0)"

definition tcp_doff_ok :: "TCPHeader \<Rightarrow> bool" where
  "tcp_doff_ok h \<longleftrightarrow> 5 \<le> unat (th_doff h) \<and> unat (th_doff h) \<le> 15"

text \<open>The header bytes before and after the checksum field.\<close>

definition tcp_before :: "TCPHeader \<Rightarrow> bytes" where
  "tcp_before h = be16 (th_sport h) @ be16 (th_dport h) @ be32 (raw_value (th_seqno h)) @
     be32 (raw_value (th_ackno h)) @ [push_bit 4 (th_doff h), tcp_flags h] @ be16 (th_win h)"

definition tcp_after :: "TCPHeader \<Rightarrow> bytes" where
  "tcp_after h = be16 (th_uptr h) @ replicate (unat (th_doff h) * 4 - 20) 0"

lemma length_tcp_before [simp]: "length (tcp_before h) = 16"
  by (simp add: tcp_before_def)

lemma tcp_header_serialize_eq:
  assumes "5 \<le> unat (th_doff h)"
  shows "tcp_header_serialize h = Inr (tcp_before h @ be16 (th_cksum h) @ tcp_after h)"
  using assms
  by (simp add: tcp_header_serialize_def Let_def str_resize_def word_less_nat_alt tcp_before_def
      tcp_after_def tcp_flags_def mult.commute)

lemma tcp_flags_bits:
  "(tcp_flags h AND 0x20 \<noteq> 0) = th_urg h" "(tcp_flags h AND 0x10 \<noteq> 0) = th_ack h"
  "(tcp_flags h AND 0x08 \<noteq> 0) = th_psh h" "(tcp_flags h AND 0x04 \<noteq> 0) = th_rst h"
  "(tcp_flags h AND 0x02 \<noteq> 0) = th_syn h" "(tcp_flags h AND 0x01 \<noteq> 0) = th_fin h"
  by (simp_all add: tcp_flags_def)

lemma doff_nibble: "unat (d :: u8) \<le> 15 \<Longrightarrow> drop_bit 4 (push_bit 4 d) = d"
proof -
  assume "unat d \<le> 15"
  then have "unat (push_bit 4 d) = 16 * unat d"
    unfolding unsigned_push_bit_eq take_bit_eq_mod by (simp add: push_bit_eq_mult)
  then have "unat (drop_bit 4 (push_bit 4 d)) = unat d"
    unfolding unat_drop_bit_eq by (simp add: drop_bit_eq_div)
  then show ?thesis by (simp add: word_unat_eq_iff)
qed

lemma tcp_header_parse_serialize:
  assumes "tcp_doff_ok h"
  shows "tcp_header_parse (NetParser_init ((tcp_before h @ be16 (th_cksum h) @ tcp_after h) @ rest)) =
    (NoError, h, NetParser_init rest)"
proof -
  have "\<not> th_doff h < 5" using assms by (simp add: tcp_doff_ok_def word_less_nat_alt)
  moreover have "np_remove_prefix (NetParser_init (replicate n 0 @ rest)) n = NetParser_init rest" for n
    using np_remove_prefix_append [of "replicate n 0" rest] by simp
  ultimately show ?thesis
    using assms
    by (simp add: tcp_header_parse_def tcp_before_def tcp_after_def np_u16_be np_u32_be np_u8_be
        tcp_flags_bits doff_nibble tcp_doff_ok_def Let_def)
qed

section \<open>The segment\<close>

definition tcp_segment_valid :: "u32 \<Rightarrow> TCPSegment \<Rightarrow> bool" where
  "tcp_segment_valid ck seg \<longleftrightarrow> tcp_doff_ok (ts_header seg) \<and>
     unat ck + 65535 * (length (ts_payload seg) + 63) < 4294967296"

definition tcp_segment_cksum :: "u32 \<Rightarrow> TCPSegment \<Rightarrow> u16" where
  "tcp_segment_cksum ck seg = ck_value (ck_add (InternetChecksum_init ck)
     (tcp_before (ts_header seg) @ [0, 0] @ tcp_after (ts_header seg) @ ts_payload seg))"

definition tcp_segment_filled :: "u32 \<Rightarrow> TCPSegment \<Rightarrow> TCPSegment" where
  "tcp_segment_filled ck seg =
     seg\<lparr>ts_header := (ts_header seg)\<lparr>th_cksum := tcp_segment_cksum ck seg\<rparr>\<rparr>"

lemma tcp_parts_cksum [simp]:
  "tcp_before (h\<lparr>th_cksum := c\<rparr>) = tcp_before h" "tcp_after (h\<lparr>th_cksum := c\<rparr>) = tcp_after h"
  "tcp_doff_ok (h\<lparr>th_cksum := c\<rparr>) = tcp_doff_ok h"
  by (simp_all add: tcp_before_def tcp_after_def tcp_flags_def tcp_doff_ok_def)

lemma be16_0: "be16 0 = [0, 0]"
  by (simp add: be16_def)

lemma tcp_segment_serialize_eq:
  assumes "tcp_doff_ok (ts_header seg)"
  shows "tcp_segment_serialize seg ck =
    Inr [tcp_before (ts_header seg) @ be16 (tcp_segment_cksum ck seg) @ tcp_after (ts_header seg),
         ts_payload seg]"
  using assms
  by (simp add: tcp_segment_serialize_def Let_def tcp_header_serialize_eq tcp_doff_ok_def
      ck_add_append be16_0 tcp_segment_cksum_def)

lemma length_tcp_after: "tcp_doff_ok h \<Longrightarrow> length (tcp_after h) \<le> 42"
  by (auto simp: tcp_after_def tcp_doff_ok_def)

lemma tcp_segment_verifies:
  assumes "tcp_segment_valid ck seg"
  shows "ck_value (ck_add (InternetChecksum_init ck) (tcp_before (ts_header seg) @
    be16 (tcp_segment_cksum ck seg) @ tcp_after (ts_header seg) @ ts_payload seg)) = 0"
proof -
  have "length (tcp_after (ts_header seg)) \<le> 42"
    using assms length_tcp_after by (simp add: tcp_segment_valid_def)
  then have "unat ck + 65535 * (length (tcp_before (ts_header seg)) +
      length (tcp_after (ts_header seg) @ ts_payload seg) + 3) < 4294967296"
    using assms by (simp add: tcp_segment_valid_def)
  from checksum_in_place [OF _ this] show ?thesis by (simp add: tcp_segment_cksum_def be16_def)
qed

lemma tcp_segment_parse_bytes:
  assumes "tcp_segment_valid ck seg"
  shows "tcp_segment_parse old ((tcp_before (ts_header seg) @ be16 (tcp_segment_cksum ck seg) @
      tcp_after (ts_header seg)) @ ts_payload seg) ck = (NoError, tcp_segment_filled ck seg)"
proof -
  let ?h = "(ts_header seg)\<lparr>th_cksum := tcp_segment_cksum ck seg\<rparr>"
  have "tcp_doff_ok ?h" using assms by (simp add: tcp_segment_valid_def)
  from tcp_header_parse_serialize [OF this, of "ts_payload seg"] tcp_segment_verifies [OF assms]
  show ?thesis by (simp add: tcp_segment_parse_def tcp_segment_filled_def)
qed

interpretation tcp: wire_codec "tcp_segment_valid ck" "tcp_segment_filled ck"
  "\<lambda>seg. tcp_segment_serialize seg ck" "\<lambda>b. tcp_segment_parse TCPSegment_init b ck" for ck
proof unfold_locales
  fix seg assume v: "tcp_segment_valid ck seg"
  then have d: "tcp_doff_ok (ts_header seg)" by (simp add: tcp_segment_valid_def)
  show "\<exists>ps. tcp_segment_serialize seg ck = Inr ps" by (simp add: tcp_segment_serialize_eq [OF d])
  show "tcp_segment_parse TCPSegment_init (concat ps) ck = (NoError, tcp_segment_filled ck seg)"
    if "tcp_segment_serialize seg ck = Inr ps" for ps
    using that tcp_segment_parse_bytes [OF v, of TCPSegment_init]
    by (auto simp: tcp_segment_serialize_eq [OF d])
qed

section \<open>Properties\<close>

text \<open>
  C13. TCP segments survive the wire: a segment with a data offset between 5 and 15 words,
  whatever its flags, numbers and payload, is parsed back from its serialized bytes without
  error and with every field as it was, except for the checksum, which \<open>serialize\<close> fills in.
\<close>

theorem tcp_segment_roundtrip:
  assumes "5 \<le> unat (th_doff (ts_header seg))" and "unat (th_doff (ts_header seg)) \<le> 15"
    and "unat ck + 65535 * (length (ts_payload seg) + 63) < 4294967296"
  shows "\<exists>ps c. tcp_segment_serialize seg ck = Inr ps \<and>
    tcp_segment_parse TCPSegment_init (concat ps) ck =
      (NoError, seg\<lparr>ts_header := (ts_header seg)\<lparr>th_cksum := c\<rparr>\<rparr>)"
  using tcp.parse_ser_ex [of ck seg] assms
  by (auto simp: tcp_segment_valid_def tcp_doff_ok_def tcp_segment_filled_def)

theorem tcp_segment_roundtrip_witness:
  "\<exists>ps c. tcp_segment_serialize (TCPSegment_init\<lparr>ts_payload := [1, 2, 3]\<rparr>) 99 = Inr ps \<and>
    tcp_segment_parse TCPSegment_init (concat ps) 99 = (NoError,
      TCPSegment_init\<lparr>ts_header := TCPHeader_init\<lparr>th_cksum := c\<rparr>, ts_payload := [1, 2, 3]\<rparr>)"
  using tcp_segment_roundtrip [of "TCPSegment_init\<lparr>ts_payload := [1, 2, 3]\<rparr>" 99]
  by (simp add: TCPSegment_init_def TCPHeader_init_def)

text \<open>
  The segment parser makes no check of the header beyond the checksum and the length: a data
  offset below 5 words is accepted, although the header parser reports it
  (\<open>HeaderTooShort\<close>), because its result is dropped.
\<close>

theorem tcp_short_header_accepted:
  "let b = replicate 18 0 @ [0xff, 0xff] in
     fst (tcp_header_parse (NetParser_init b)) = HeaderTooShort \<and>
     fst (tcp_segment_parse seg b 0) = NoError"
proof -
  let ?b = "replicate 18 0 @ [0xff, 0xff] :: bytes"
  have sum: "ck_value (ck_add (InternetChecksum_init 0) ?b) = 0"
  proof -
    have "unat (ck_sum (ck_add (InternetChecksum_init 0) ?b)) = 65535"
      by (subst ck_sum_small) simp_all
    then have "unat (ck_value (ck_add (InternetChecksum_init 0) ?b)) = 0"
      by (simp only: unat_ck_value) (simp add: ones_sum_def)
    then show ?thesis by (simp only: unat_eq_zero)
  qed
  have hdr: "tcp_header_parse (NetParser_init ?b) = (HeaderTooShort,
      TCPHeader_init\<lparr>th_doff := 0, th_uptr := 0xffff\<rparr>, NetParser_init [])"
    by (simp add: tcp_header_parse_def np_u16_def np_u32_def np_u8_def parse_int_def check_size_def
        np_has_error_def NetParser_init_def upt_rec TCPHeader_init_def)
  show ?thesis using sum hdr by (simp add: tcp_segment_parse_def Let_def)
qed

end
