(* ===== verification/IPv4.thy ===== *)
theory IPv4
  imports TCP_Segment
begin

text \<open>
  \<open>IPv4Header\<close> and \<open>IPv4Datagram\<close> (\<open>src/libsponge/tcp_helpers/ipv4_header.hh\<close>,
  \<open>ipv4_header.cc\<close>, \<open>ipv4_datagram.hh\<close>, \<open>ipv4_datagram.cc\<close>): the wire format of IP version 4
  and the pseudo header that TCP checksums include. A datagram's payload is the list of
  the contents of its buffers. Some error returns of the header parser leave the rest of the
  header object as it was, so the parser takes the old header.
\<close>

section \<open>State and operations\<close>

record IPv4Header =
  ip_ver :: u8
  ip_hlen :: u8
  ip_tos :: u8
  ip_len :: u16
  ip_id :: u16
  ip_df :: bool
  ip_mf :: bool
  ip_offset :: u16
  ip_ttl :: u8
  ip_proto :: u8
  ip_cksum :: u16
  ip_src :: u32
  ip_dst :: u32

definition PROTO_TCP :: u8 where
  "PROTO_TCP = 6"

definition IPv4Header_init :: IPv4Header where
  "IPv4Header_init = \<lparr>ip_ver = 4, ip_hlen = 5, ip_tos = 0, ip_len = 0, ip_id = 0, ip_df = True,
     ip_mf = False, ip_offset = 0, ip_ttl = 128, ip_proto = PROTO_TCP, ip_cksum = 0,
     ip_src = 0, ip_dst = 0\<rparr>"

definition ipv4_header_parse ::
    "IPv4Header \<Rightarrow> NetParser \<Rightarrow> ParseResult \<times> IPv4Header \<times> NetParser" where
  "ipv4_header_parse old p =
     (let original_serialized_version = np_buffer p;
          data_size = length (np_buffer p)
      in
      if data_size < 20 then (PacketTooShort, old, p)
      else
        let (first_byte, p) = np_u8 p;
            ver = drop_bit 4 first_byte;
            hlen = first_byte AND 0x0f;
            (tos, p) = np_u8 p;
            (len, p) = np_u16 p;
            (id, p) = np_u16 p;
            (fo_val, p) = np_u16 p;
            (ttl, p) = np_u8 p;
            (proto, p) = np_u8 p;
            (cksum, p) = np_u16 p;
            (src, p) = np_u32 p;
            (dst, p) = np_u32 p;
            h = \<lparr>ip_ver = ver, ip_hlen = hlen, ip_tos = tos, ip_len = len, ip_id = id,
                 ip_df = (fo_val AND 0x4000 \<noteq> 0), ip_mf = (fo_val AND 0x2000 \<noteq> 0),
                 ip_offset = fo_val AND 0x1fff, ip_ttl = ttl, ip_proto = proto,
                 ip_cksum = cksum, ip_src = src, ip_dst = dst\<rparr>
        in
        if data_size < 4 * unat hlen then (PacketTooShort, h, p)
        else if ver \<noteq> 4 then (WrongIPVersion, h, p)
        else if hlen < 5 then (HeaderTooShort, h, p)
        else if data_size \<noteq> unat len then (TruncatedPacket, h, p)
        else
          let p = np_remove_prefix p (unat hlen * 4 - 20) in
          if np_has_error p then (np_error p, h, p)
          else
            let check = ck_add (InternetChecksum_init 0)
                          (take (4 * unat hlen) original_serialized_version) in
            if ck_value check \<noteq> 0 then (BadChecksum, h, p) else (NoError, h, p))"

definition ipv4_header_serialize :: "IPv4Header \<Rightarrow> bytes res" where
  "ipv4_header_serialize h =
     (if ip_ver h \<noteq> 4 then Inl (Runtime_Error ''wrong IP version'')
      else if 4 * unat (ip_hlen h) < 20 then Inl (Runtime_Error ''IP header too short'')
      else
        let first_byte = push_bit 4 (ip_ver h) OR (ip_hlen h AND 0xf);
            ret = put_u8 [] first_byte;
            ret = put_u8 ret (ip_tos h);
            ret = put_u16 ret (ip_len h);
            ret = put_u16 ret (ip_id h);
            fo_val = (if ip_df h then 0x4000 else 0) OR (if ip_mf h then 0x2000 else 0) OR
                     (ip_offset h AND 0x1fff);
            ret = put_u16 ret fo_val;
            ret = put_u8 ret (ip_ttl h);
            ret = put_u8 ret (ip_proto h);
            ret = put_u16 ret (ip_cksum h);
            ret = put_u32 ret (ip_src h);
            ret = put_u32 ret (ip_dst h)
        in Inr (str_resize ret (4 * unat (ip_hlen h))))"

definition payload_length :: "IPv4Header \<Rightarrow> u16" where
  "payload_length h = ip_len h - 4 * ucast (ip_hlen h)"

definition pseudo_cksum :: "IPv4Header \<Rightarrow> u32" where
  "pseudo_cksum h =
     (let pcksum = drop_bit 16 (ip_src h) + (ip_src h AND 0xffff);
          pcksum = pcksum + (drop_bit 16 (ip_dst h) + (ip_dst h AND 0xffff));
          pcksum = pcksum + ucast (ip_proto h)
      in pcksum + ucast (payload_length h))"

record IPv4Datagram =
  dg_header :: IPv4Header
  dg_payload :: "bytes list"

definition IPv4Datagram_init :: IPv4Datagram where
  "IPv4Datagram_init = \<lparr>dg_header = IPv4Header_init, dg_payload = []\<rparr>"

definition ipv4_datagram_parse :: "IPv4Datagram \<Rightarrow> bytes \<Rightarrow> ParseResult \<times> IPv4Datagram" where
  "ipv4_datagram_parse d buffer =
     (let (_, h, p) = ipv4_header_parse (dg_header d) (NetParser_init buffer);
          d' = d\<lparr>dg_header := h, dg_payload := [np_buffer p]\<rparr>
      in if bvl_size (dg_payload d') \<noteq> ucast (payload_length h) then (PacketTooShort, d')
         else (np_error p, d'))"

definition ipv4_datagram_serialize :: "IPv4Datagram \<Rightarrow> bytes list res" where
  "ipv4_datagram_serialize d =
     (if bvl_size (dg_payload d) \<noteq> ucast (payload_length (dg_header d))
      then Inl (Runtime_Error ''IPv4Datagram::serialize: payload is wrong size'')
      else
        let header_out = (dg_header d)\<lparr>ip_cksum := 0\<rparr> in
        bindE (ipv4_header_serialize header_out) (\<lambda>header_zero_checksum.
          let check = ck_add (InternetChecksum_init 0) header_zero_checksum;
              header_out = header_out\<lparr>ip_cksum := ck_value check\<rparr>
          in bindE (ipv4_header_serialize header_out) (\<lambda>hdr. Inr (hdr # dg_payload d))))"

section \<open>The header\<close>

definition ipv4_header_ok :: "IPv4Header \<Rightarrow> bool" where
  "ipv4_header_ok h \<longleftrightarrow> ip_ver h = 4 \<and> 5 \<le> unat (ip_hlen h) \<and> unat (ip_hlen h) \<le> 15 \<and>
     unat (ip_offset h) < 8192"

definition ip_fo_val :: "IPv4Header \<Rightarrow> u16" where
  "ip_fo_val h = (if ip_df h then 0x4000 else 0) OR (if ip_mf h then 0x2000 else 0) OR
     (ip_offset h AND 0x1fff)"

definition ip_first_byte :: "IPv4Header \<Rightarrow> u8" where
  "ip_first_byte h = push_bit 4 (ip_ver h) OR (ip_hlen h AND 0xf)"

definition ip_before :: "IPv4Header \<Rightarrow> bytes" where
  "ip_before h = [ip_first_byte h, ip_tos h] @ be16 (ip_len h) @
     be16 (ip_id h) @ be16 (ip_fo_val h) @ [ip_ttl h, ip_proto h]"

definition ip_after :: "IPv4Header \<Rightarrow> bytes" where
  "ip_after h = be32 (ip_src h) @ be32 (ip_dst h) @ replicate (unat (ip_hlen h) * 4 - 20) 0"

lemma length_ip_before [simp]: "length (ip_before h) = 10"
  by (simp add: ip_before_def)

lemma str_resize_longer: "length s \<le> n \<Longrightarrow> str_resize s n = s @ replicate (n - length s) 0"
  by (simp add: str_resize_def)

lemma ipv4_header_serialize_eq:
  assumes "ipv4_header_ok h"
  shows "ipv4_header_serialize h = Inr (ip_before h @ be16 (ip_cksum h) @ ip_after h)"
  using assms
  by (simp add: ipv4_header_serialize_def ipv4_header_ok_def Let_def str_resize_longer ip_before_def
      ip_after_def ip_first_byte_def mult.commute flip: ip_fo_val_def)

lemma u8_nibble: "unat (d :: u8) \<le> 15 \<Longrightarrow> d AND 0xf = d"
proof -
  assume "unat d \<le> 15"
  then have "unat (take_bit 4 d) = unat d"
    unfolding unsigned_take_bit_eq by (simp add: take_bit_eq_mod)
  then have "take_bit 4 d = d" by (simp add: word_unat_eq_iff)
  then show ?thesis by (simp add: take_bit_eq_mask mask_eq_exp_minus_1)
qed

lemma first_byte_parts:
  assumes "unat (d :: u8) \<le> 15"
  shows "drop_bit 4 (push_bit 4 4 OR (d AND 0xf)) = 4" "(push_bit 4 4 OR (d AND 0xf)) AND 0xf = d"
proof -
  have "unat d < 16" using assms by simp
  then have "\<exists>k < 16. d = word_of_nat k" by (intro exI [of _ "unat d"]) simp
  then obtain k where k: "k < 16" "d = word_of_nat k" by blast
  have "k = 0 \<or> k = 1 \<or> k = 2 \<or> k = 3 \<or> k = 4 \<or> k = 5 \<or> k = 6 \<or> k = 7 \<or> k = 8 \<or> k = 9 \<or>
      k = 10 \<or> k = 11 \<or> k = 12 \<or> k = 13 \<or> k = 14 \<or> k = 15" using k(1) by arith
  then show "drop_bit 4 (push_bit 4 4 OR (d AND 0xf)) = 4" "(push_bit 4 4 OR (d AND 0xf)) AND 0xf = d"
    unfolding k(2) by (elim disjE; simp)+
qed

lemma ip_first_byte_parts:
  assumes "ipv4_header_ok h"
  shows "drop_bit 4 (ip_first_byte h) = 4" "ip_first_byte h AND 0xf = ip_hlen h"
  using assms first_byte_parts [of "ip_hlen h"] by (simp_all add: ip_first_byte_def ipv4_header_ok_def)

lemma u16_low13: "unat (x :: u16) < 8192 \<Longrightarrow> x AND 0x1fff = x"
proof -
  assume "unat x < 8192"
  then have "unat (take_bit 13 x) = unat x"
    unfolding unsigned_take_bit_eq by (simp add: take_bit_eq_mod)
  then have "take_bit 13 x = x" by (simp add: word_unat_eq_iff)
  then show ?thesis by (simp add: take_bit_eq_mask mask_eq_exp_minus_1)
qed

lemma fo_val_parts:
  assumes "unat (ip_offset h) < 8192"
  shows "(ip_fo_val h AND 0x4000 \<noteq> 0) = ip_df h" "(ip_fo_val h AND 0x2000 \<noteq> 0) = ip_mf h"
    "ip_fo_val h AND 0x1fff = ip_offset h"
proof -
  have z: "(x AND 0x1fff) AND 0x4000 = 0" "(x AND 0x1fff) AND 0x2000 = 0"
      "(x AND 0x1fff) AND 0x1fff = x AND 0x1fff" for x :: u16
    by (simp_all add: and.assoc)
  show "(ip_fo_val h AND 0x4000 \<noteq> 0) = ip_df h" "(ip_fo_val h AND 0x2000 \<noteq> 0) = ip_mf h"
    by (simp_all add: ip_fo_val_def bit.conj_disj_distrib2 z)
  show "ip_fo_val h AND 0x1fff = ip_offset h"
    by (simp add: ip_fo_val_def bit.conj_disj_distrib2 z u16_low13 [OF assms])
qed

lemma length_ip_header:
  "ipv4_header_ok h \<Longrightarrow> length (ip_before h @ be16 c @ ip_after h) = 4 * unat (ip_hlen h)"
  by (auto simp: ipv4_header_ok_def ip_after_def)

lemma ipv4_header_parse_serialize:
  assumes ok: "ipv4_header_ok h" and len: "unat (ip_len h) = 4 * unat (ip_hlen h) + length rest"
    and sum: "ck_value (ck_add (InternetChecksum_init 0)
      (ip_before h @ be16 (ip_cksum h) @ ip_after h)) = 0"
  shows "ipv4_header_parse old (NetParser_init
      ((ip_before h @ be16 (ip_cksum h) @ ip_after h) @ rest)) = (NoError, h, NetParser_init rest)"
proof -
  let ?hdr = "ip_before h @ be16 (ip_cksum h) @ ip_after h"
  have h: "ip_ver h = 4" "unat (ip_hlen h) \<le> 15" "5 \<le> unat (ip_hlen h)" "unat (ip_offset h) < 8192"
    using ok by (simp_all add: ipv4_header_ok_def)
  have size: "length (?hdr @ rest) = unat (ip_len h)"
    using length_ip_header [OF ok, of "ip_cksum h"] len by simp
  have skip: "np_remove_prefix (NetParser_init (replicate n 0 @ rest)) n = NetParser_init rest" for n
    using np_remove_prefix_append [of "replicate n 0" rest] by simp
  have "take (4 * unat (ip_hlen h)) (?hdr @ rest) = ?hdr"
    using length_ip_header [OF ok, of "ip_cksum h"] by simp
  then have sum': "ck_value (ck_add (InternetChecksum_init 0)
      (take (4 * unat (ip_hlen h)) (?hdr @ rest))) = 0" using sum by simp
  have conds: "\<not> unat (ip_len h) < 20" "\<not> unat (ip_len h) < 4 * unat (ip_hlen h)" "\<not> ip_hlen h < 5"
    using len h by (auto simp: word_less_nat_alt)
  show ?thesis
    unfolding ipv4_header_parse_def np_buffer_init size
    using conds sum' h
    by (simp add: ip_before_def ip_after_def np_u16_be np_u32_be np_u8_be ip_first_byte_parts [OF ok]
        fo_val_parts Let_def skip del: take_Suc_Cons)
qed

section \<open>The datagram\<close>

definition ipv4_datagram_valid :: "IPv4Datagram \<Rightarrow> bool" where
  "ipv4_datagram_valid d \<longleftrightarrow> ipv4_header_ok (dg_header d) \<and>
     unat (ip_len (dg_header d)) = 4 * unat (ip_hlen (dg_header d)) + length (concat (dg_payload d))"

definition ipv4_header_cksum :: "IPv4Header \<Rightarrow> u16" where
  "ipv4_header_cksum h =
     ck_value (ck_add (InternetChecksum_init 0) (ip_before h @ [0, 0] @ ip_after h))"

definition ipv4_datagram_filled :: "IPv4Datagram \<Rightarrow> IPv4Datagram" where
  "ipv4_datagram_filled d =
     \<lparr>dg_header = (dg_header d)\<lparr>ip_cksum := ipv4_header_cksum (dg_header d)\<rparr>,
      dg_payload = [concat (dg_payload d)]\<rparr>"

lemma ip_parts_cksum [simp]:
  "ip_before (h\<lparr>ip_cksum := c\<rparr>) = ip_before h" "ip_after (h\<lparr>ip_cksum := c\<rparr>) = ip_after h"
  "ipv4_header_ok (h\<lparr>ip_cksum := c\<rparr>) = ipv4_header_ok h"
  "payload_length (h\<lparr>ip_cksum := c\<rparr>) = payload_length h"
  by (simp_all add: ip_before_def ip_after_def ip_fo_val_def ip_first_byte_def ipv4_header_ok_def
      payload_length_def)

lemma unat_payload_length:
  assumes "unat (ip_len h) = 4 * unat (ip_hlen h) + n"
  shows "unat (payload_length h) = n"
proof -
  have "4 * ucast (ip_hlen h) = (word_of_nat (4 * unat (ip_hlen h)) :: u16)" by simp
  moreover have "unat (word_of_nat (4 * unat (ip_hlen h)) :: u16) = 4 * unat (ip_hlen h)"
    using u8_bound [of "ip_hlen h"] unfolding unat_of_nat by simp
  ultimately have "unat (4 * ucast (ip_hlen h) :: u16) = 4 * unat (ip_hlen h)" by simp
  then show ?thesis using assms by (simp add: payload_length_def unat_sub word_le_nat_alt)
qed

lemma payload_size_ok:
  assumes "unat (ip_len h) = 4 * unat (ip_hlen h) + length (concat ps)"
  shows "bvl_size ps = ucast (payload_length h)"
proof -
  have "length (concat ps) < 65536" using assms u16_bound [of "ip_len h"] by linarith
  then show ?thesis
    using unat_payload_length [OF assms]
    by (simp add: bvl_size_eq word_unat_eq_iff unat_sz fits_def unat_ucast_mod)
qed

lemma ipv4_header_verifies:
  assumes "ipv4_header_ok h"
  shows "ck_value (ck_add (InternetChecksum_init 0)
    (ip_before h @ be16 (ipv4_header_cksum h) @ ip_after h)) = 0"
proof -
  have "length (ip_after h) \<le> 48" using assms by (auto simp: ip_after_def ipv4_header_ok_def)
  then have "unat (0 :: u32) + 65535 * (length (ip_before h) + length (ip_after h) + 3) < 4294967296"
    by simp
  from checksum_in_place [OF _ this] show ?thesis by (simp add: ipv4_header_cksum_def be16_def)
qed

lemma ipv4_datagram_serialize_eq:
  assumes "ipv4_datagram_valid d"
  shows "ipv4_datagram_serialize d = Inr ((ip_before (dg_header d) @
    be16 (ipv4_header_cksum (dg_header d)) @ ip_after (dg_header d)) # dg_payload d)"
  using assms payload_size_ok [of "dg_header d" "dg_payload d"]
  by (simp add: ipv4_datagram_serialize_def ipv4_datagram_valid_def ipv4_header_serialize_eq
      ipv4_header_cksum_def be16_0 Let_def)

lemma ipv4_datagram_parse_bytes:
  assumes "ipv4_datagram_valid d"
  shows "ipv4_datagram_parse old ((ip_before (dg_header d) @
      be16 (ipv4_header_cksum (dg_header d)) @ ip_after (dg_header d)) @ concat (dg_payload d)) =
    (NoError, ipv4_datagram_filled d)"
proof -
  let ?h = "(dg_header d)\<lparr>ip_cksum := ipv4_header_cksum (dg_header d)\<rparr>"
  have ok: "ipv4_header_ok ?h"
      and len: "unat (ip_len ?h) = 4 * unat (ip_hlen ?h) + length (concat (dg_payload d))"
    using assms by (simp_all add: ipv4_datagram_valid_def)
  have sum: "ck_value (ck_add (InternetChecksum_init 0) (ip_before ?h @ be16 (ip_cksum ?h) @ ip_after ?h)) = 0"
    using ok ipv4_header_verifies [of "dg_header d"] by simp
  note parse = ipv4_header_parse_serialize [OF ok len sum, of "dg_header old"]
  have "bvl_size [concat (dg_payload d)] = ucast (payload_length ?h)"
    using len by (intro payload_size_ok) simp
  then show ?thesis
    using parse by (simp add: ipv4_datagram_parse_def ipv4_datagram_filled_def)
qed

interpretation ip: wire_codec ipv4_datagram_valid ipv4_datagram_filled ipv4_datagram_serialize
  "ipv4_datagram_parse IPv4Datagram_init"
proof unfold_locales
  fix d assume v: "ipv4_datagram_valid d"
  show "\<exists>ps. ipv4_datagram_serialize d = Inr ps" by (simp add: ipv4_datagram_serialize_eq [OF v])
  show "ipv4_datagram_parse IPv4Datagram_init (concat ps) = (NoError, ipv4_datagram_filled d)"
    if "ipv4_datagram_serialize d = Inr ps" for ps
    using that ipv4_datagram_parse_bytes [OF v, of IPv4Datagram_init]
    by (auto simp: ipv4_datagram_serialize_eq [OF v])
qed

section \<open>Properties\<close>

text \<open>
  C14. IPv4 datagrams survive the wire: a version 4 datagram whose length field is right is
  parsed back from its serialized bytes without error, its payload in one piece and every
  header field as it was, except for the checksum, which \<open>serialize\<close> fills in.
\<close>

theorem ipv4_datagram_roundtrip:
  assumes "ipv4_datagram_valid d"
  shows "\<exists>ps c. ipv4_datagram_serialize d = Inr ps \<and>
    ipv4_datagram_parse IPv4Datagram_init (concat ps) =
      (NoError, \<lparr>dg_header = (dg_header d)\<lparr>ip_cksum := c\<rparr>, dg_payload = [concat (dg_payload d)]\<rparr>)"
  using ip.parse_ser_ex [OF assms] by (auto simp: ipv4_datagram_filled_def)

theorem ipv4_datagram_roundtrip_witness:
  "let h = IPv4Header_init\<lparr>ip_len := 23, ip_src := 0x0a000001, ip_dst := 0x0a000002\<rparr>;
       d = \<lparr>dg_header = h, dg_payload = [[1], [2, 3]]\<rparr>
   in ipv4_datagram_valid d \<and>
      (\<exists>ps c. ipv4_datagram_serialize d = Inr ps \<and>
        ipv4_datagram_parse IPv4Datagram_init (concat ps) =
          (NoError, \<lparr>dg_header = h\<lparr>ip_cksum := c\<rparr>, dg_payload = [[1, 2, 3]]\<rparr>))"
  using ipv4_datagram_roundtrip [of "\<lparr>dg_header = IPv4Header_init\<lparr>ip_len := 23,
      ip_src := 0x0a000001, ip_dst := 0x0a000002\<rparr>, dg_payload = [[1], [2, 3]]\<rparr>"]
  by (simp add: ipv4_datagram_valid_def ipv4_header_ok_def IPv4Header_init_def Let_def)

text \<open>
  The datagram parser drops the result of the header parser: a datagram of IP version 6 is
  accepted as valid, and serializing it again, as a router does to forward it, throws.
\<close>

theorem ipv4_wrong_version_accepted:
  "let b = [0x65, 0, 0, 20] @ replicate 16 0 in
     fst (ipv4_header_parse IPv4Header_init (NetParser_init b)) = WrongIPVersion \<and>
     fst (ipv4_datagram_parse IPv4Datagram_init b) = NoError \<and>
     ipv4_datagram_serialize (snd (ipv4_datagram_parse IPv4Datagram_init b)) =
       Inl (Runtime_Error ''wrong IP version'')"
proof -
  let ?b = "[0x65, 0, 0, 20] @ replicate 16 0 :: bytes"
  have "ipv4_header_parse old (NetParser_init ?b) = (WrongIPVersion,
      \<lparr>ip_ver = 6, ip_hlen = 5, ip_tos = 0, ip_len = 20, ip_id = 0, ip_df = False, ip_mf = False,
       ip_offset = 0, ip_ttl = 0, ip_proto = 0, ip_cksum = 0, ip_src = 0, ip_dst = 0\<rparr>,
      NetParser_init [])" for old
    by (simp add: ipv4_header_parse_def np_u16_def np_u32_def np_u8_def parse_int_def check_size_def
        np_has_error_def NetParser_init_def upt_rec Let_def)
  then show ?thesis
    by (simp add: ipv4_datagram_parse_def bvl_size_def payload_length_def sz_def Let_def
        ipv4_datagram_serialize_def ipv4_header_serialize_def)
qed

text \<open>A wrong header checksum goes unnoticed for the same reason.\<close>

theorem ipv4_bad_checksum_accepted:
  "let b = [0x45, 0, 0, 20] @ replicate 16 0 in
     fst (ipv4_header_parse IPv4Header_init (NetParser_init b)) = BadChecksum \<and>
     fst (ipv4_datagram_parse IPv4Datagram_init b) = NoError"
proof -
  let ?b = "[0x45, 0, 0, 20] @ replicate 16 0 :: bytes"
  have "unat (ck_sum (ck_add (InternetChecksum_init 0) ?b)) = 17684"
    by (subst ck_sum_small) simp_all
  then have "unat (ck_value (ck_add (InternetChecksum_init 0) ?b)) = 47851"
    by (simp only: unat_ck_value) (simp add: ones_sum_def)
  then have sum: "ck_value (ck_add (InternetChecksum_init 0) ?b) \<noteq> 0" by (metis unat_0 zero_neq_numeral)
  have "ipv4_header_parse old (NetParser_init ?b) = (BadChecksum,
      \<lparr>ip_ver = 4, ip_hlen = 5, ip_tos = 0, ip_len = 20, ip_id = 0, ip_df = False, ip_mf = False,
       ip_offset = 0, ip_ttl = 0, ip_proto = 0, ip_cksum = 0, ip_src = 0, ip_dst = 0\<rparr>,
      NetParser_init [])" for old
    using sum
    by (simp add: ipv4_header_parse_def np_u16_def np_u32_def np_u8_def parse_int_def check_size_def
        np_remove_prefix_def np_has_error_def NetParser_init_def upt_rec Let_def)
  then show ?thesis
    by (simp add: ipv4_datagram_parse_def bvl_size_def payload_length_def sz_def Let_def)
qed

end
