(* ===== verification/Ethernet.thy ===== *)
theory Ethernet
  imports IPv4
begin

text \<open>
  \<open>EthernetHeader\<close>, \<open>EthernetFrame\<close> and \<open>ARPMessage\<close>
  (\<open>src/libsponge/tcp_helpers/ethernet_header.hh\<close>, \<open>ethernet_header.cc\<close>,
  \<open>ethernet_frame.hh\<close>, \<open>ethernet_frame.cc\<close>, \<open>arp_message.hh\<close>, \<open>arp_message.cc\<close>): the wire
  formats of the link layer. An Ethernet address, an array of six bytes, is a list of them;
  that it has six is part of a message's validity.
\<close>

section \<open>Frames\<close>

type_synonym EthernetAddress = bytes

definition ETHERNET_BROADCAST :: EthernetAddress where
  "ETHERNET_BROADCAST = [0xff, 0xff, 0xff, 0xff, 0xff, 0xff]"

definition TYPE_IPv4 :: u16 where
  "TYPE_IPv4 = 0x800"

definition TYPE_ARP :: u16 where
  "TYPE_ARP = 0x806"

record EthernetHeader =
  eth_dst :: EthernetAddress
  eth_src :: EthernetAddress
  eth_type :: u16

definition EthernetHeader_init :: EthernetHeader where
  "EthernetHeader_init = \<lparr>eth_dst = replicate 6 0, eth_src = replicate 6 0, eth_type = 0\<rparr>"

text \<open>The loop \<open>for (auto &byte : address) byte = p.u8()\<close>, over the bytes still to be read.\<close>

fun np_bytes :: "nat \<Rightarrow> NetParser \<Rightarrow> bytes \<times> NetParser" where
  "np_bytes 0 p = ([], p)"
| "np_bytes (Suc n) p = (let (b, p1) = np_u8 p; (bs, p2) = np_bytes n p1 in (b # bs, p2))"

definition ethernet_header_parse ::
    "EthernetHeader \<Rightarrow> NetParser \<Rightarrow> ParseResult \<times> EthernetHeader \<times> NetParser" where
  "ethernet_header_parse old p =
     (if length (np_buffer p) < 14 then (PacketTooShort, old, p)
      else
        let (dst, p) = np_bytes 6 p;
            (src, p) = np_bytes 6 p;
            (ty, p) = np_u16 p
        in (np_error p, \<lparr>eth_dst = dst, eth_src = src, eth_type = ty\<rparr>, p))"

text \<open>The loop \<open>for (auto &byte : address) NetUnparser::u8(ret, byte)\<close>.\<close>

definition put_bytes :: "bytes \<Rightarrow> bytes \<Rightarrow> bytes" where
  "put_bytes ret address = foldl put_u8 ret address"

definition ethernet_header_serialize :: "EthernetHeader \<Rightarrow> bytes" where
  "ethernet_header_serialize h =
     put_u16 (put_bytes (put_bytes [] (eth_dst h)) (eth_src h)) (eth_type h)"

record EthernetFrame =
  ef_header :: EthernetHeader
  ef_payload :: "bytes list"

definition EthernetFrame_init :: EthernetFrame where
  "EthernetFrame_init = \<lparr>ef_header = EthernetHeader_init, ef_payload = []\<rparr>"

definition ethernet_frame_parse :: "EthernetFrame \<Rightarrow> bytes \<Rightarrow> ParseResult \<times> EthernetFrame" where
  "ethernet_frame_parse f buffer =
     (let (_, h, p) = ethernet_header_parse (ef_header f) (NetParser_init buffer)
      in (np_error p, f\<lparr>ef_header := h, ef_payload := [np_buffer p]\<rparr>))"

definition ethernet_frame_serialize :: "EthernetFrame \<Rightarrow> bytes list" where
  "ethernet_frame_serialize f = ethernet_header_serialize (ef_header f) # ef_payload f"

section \<open>ARP messages\<close>

definition TYPE_ETHERNET :: u16 where
  "TYPE_ETHERNET = 1"

definition OPCODE_REQUEST :: u16 where
  "OPCODE_REQUEST = 1"

definition OPCODE_REPLY :: u16 where
  "OPCODE_REPLY = 2"

record ARPMessage =
  arp_hardware_type :: u16
  arp_protocol_type :: u16
  arp_hardware_address_size :: u8
  arp_protocol_address_size :: u8
  arp_opcode :: u16
  arp_sender_ethernet_address :: EthernetAddress
  arp_sender_ip_address :: u32
  arp_target_ethernet_address :: EthernetAddress
  arp_target_ip_address :: u32

definition ARPMessage_init :: ARPMessage where
  "ARPMessage_init = \<lparr>arp_hardware_type = TYPE_ETHERNET, arp_protocol_type = TYPE_IPv4,
     arp_hardware_address_size = 6, arp_protocol_address_size = 4, arp_opcode = 0,
     arp_sender_ethernet_address = replicate 6 0, arp_sender_ip_address = 0,
     arp_target_ethernet_address = replicate 6 0, arp_target_ip_address = 0\<rparr>"

definition arp_supported :: "ARPMessage \<Rightarrow> bool" where
  "arp_supported m \<longleftrightarrow> arp_hardware_type m = TYPE_ETHERNET \<and> arp_protocol_type m = TYPE_IPv4 \<and>
     arp_hardware_address_size m = 6 \<and> arp_protocol_address_size m = 4 \<and>
     (arp_opcode m = OPCODE_REQUEST \<or> arp_opcode m = OPCODE_REPLY)"

definition arp_parse :: "ARPMessage \<Rightarrow> bytes \<Rightarrow> ParseResult \<times> ARPMessage" where
  "arp_parse old buffer =
     (let p = NetParser_init buffer in
      if length (np_buffer p) < 28 then (PacketTooShort, old)
      else
        let (hardware_type, p) = np_u16 p;
            (protocol_type, p) = np_u16 p;
            (hardware_address_size, p) = np_u8 p;
            (protocol_address_size, p) = np_u8 p;
            (opcode, p) = np_u16 p;
            m = old\<lparr>arp_hardware_type := hardware_type, arp_protocol_type := protocol_type,
                    arp_hardware_address_size := hardware_address_size,
                    arp_protocol_address_size := protocol_address_size, arp_opcode := opcode\<rparr>
        in
        if \<not> arp_supported m then (Unsupported, m)
        else
          let (sender_eth, p) = np_bytes 6 p;
              (sender_ip, p) = np_u32 p;
              (target_eth, p) = np_bytes 6 p;
              (target_ip, p) = np_u32 p
          in (np_error p, m\<lparr>arp_sender_ethernet_address := sender_eth,
                arp_sender_ip_address := sender_ip, arp_target_ethernet_address := target_eth,
                arp_target_ip_address := target_ip\<rparr>))"

definition arp_serialize :: "ARPMessage \<Rightarrow> bytes res" where
  "arp_serialize m =
     (if \<not> arp_supported m
      then Inl (Runtime_Error ''ARPMessage::serialize(): unsupported field combination (must be Ethernet/IP, and request or reply)'')
      else
        let ret = put_u16 [] (arp_hardware_type m);
            ret = put_u16 ret (arp_protocol_type m);
            ret = put_u8 ret (arp_hardware_address_size m);
            ret = put_u8 ret (arp_protocol_address_size m);
            ret = put_u16 ret (arp_opcode m);
            ret = put_bytes ret (arp_sender_ethernet_address m);
            ret = put_u32 ret (arp_sender_ip_address m);
            ret = put_bytes ret (arp_target_ethernet_address m);
            ret = put_u32 ret (arp_target_ip_address m)
        in Inr ret)"

section \<open>Round trips\<close>

lemma np_bytes_append: "np_bytes (length a) (NetParser_init (a @ rest)) = (a, NetParser_init rest)"
  by (induction a) (simp_all add: np_u8_be)

lemma np_address: "length a = 6 \<Longrightarrow> np_bytes 6 (NetParser_init (a @ rest)) = (a, NetParser_init rest)"
  using np_bytes_append [of a rest] by simp

lemma put_bytes_eq [simp]: "put_bytes ret a = ret @ a"
  by (induction a arbitrary: ret) (simp_all add: put_bytes_def)

lemmas put_simps = put_bytes_eq put_u8_eq put_u16_eq put_u32_eq
lemma np_u32_last: "np_u32 (NetParser_init (be32 v)) = (v, NetParser_init [])"
  using np_u32_be [of v "[]"] by simp

lemmas np_reads = np_u32_last np_address np_u8_be np_u16_be np_u32_be

definition ethernet_frame_valid :: "EthernetFrame \<Rightarrow> bool" where
  "ethernet_frame_valid f \<longleftrightarrow> length (eth_dst (ef_header f)) = 6 \<and> length (eth_src (ef_header f)) = 6"

definition ethernet_frame_filled :: "EthernetFrame \<Rightarrow> EthernetFrame" where
  "ethernet_frame_filled f = f\<lparr>ef_payload := [concat (ef_payload f)]\<rparr>"

lemma ethernet_frame_parse_serialize:
  "ethernet_frame_valid f \<Longrightarrow>
   ethernet_frame_parse old (concat (ethernet_frame_serialize f)) = (NoError, ethernet_frame_filled f)"
  by (simp add: ethernet_frame_parse_def ethernet_frame_serialize_def ethernet_header_parse_def
      ethernet_header_serialize_def ethernet_frame_valid_def ethernet_frame_filled_def np_reads Let_def)

interpretation ethernet: wire_codec ethernet_frame_valid ethernet_frame_filled
  "\<lambda>f. Inr (ethernet_frame_serialize f)" "ethernet_frame_parse EthernetFrame_init"
  by unfold_locales (auto simp: ethernet_frame_parse_serialize)

definition arp_valid :: "ARPMessage \<Rightarrow> bool" where
  "arp_valid m \<longleftrightarrow> arp_supported m \<and> length (arp_sender_ethernet_address m) = 6 \<and>
     length (arp_target_ethernet_address m) = 6"

lemma arp_parse_serialize:
  assumes "arp_valid m"
  shows "\<exists>b. arp_serialize m = Inr b \<and> arp_parse old b = (NoError, m)"
  using assms
  by (cases m, cases old) (simp add: arp_serialize_def arp_parse_def arp_valid_def arp_supported_def
      np_reads Let_def)

interpretation arp: wire_codec arp_valid "\<lambda>m. m"
  "\<lambda>m. bindE (arp_serialize m) (\<lambda>b. Inr [b])" "arp_parse ARPMessage_init"
proof unfold_locales
  fix m ps assume "arp_valid m" "bindE (arp_serialize m) (\<lambda>b. Inr [b]) = Inr ps"
  then show "arp_parse ARPMessage_init (concat ps) = (NoError, m)"
    using arp_parse_serialize [of m ARPMessage_init] by auto
qed (use arp_parse_serialize in fastforce)

section \<open>Properties\<close>

text \<open>
  C15. Ethernet frames and ARP messages survive the wire: a frame with six-byte addresses is
  parsed back with its header unchanged and its payload in one piece, and a supported ARP
  message is parsed back unchanged.
\<close>

theorem link_layer_roundtrip:
  "(ethernet_frame_valid f \<longrightarrow>
      ethernet_frame_parse EthernetFrame_init (concat (ethernet_frame_serialize f)) =
        (NoError, f\<lparr>ef_payload := [concat (ef_payload f)]\<rparr>)) \<and>
   (arp_valid m \<longrightarrow> (\<exists>b. arp_serialize m = Inr b \<and> arp_parse ARPMessage_init b = (NoError, m)))"
  using ethernet.parse_ser_ex [of f] arp_parse_serialize [of m ARPMessage_init]
  by (auto simp: ethernet_frame_filled_def)

theorem link_layer_roundtrip_witness:
  "let f = \<lparr>ef_header = \<lparr>eth_dst = ETHERNET_BROADCAST, eth_src = [2, 0, 0, 0, 0, 1], eth_type = TYPE_ARP\<rparr>,
             ef_payload = [[1], [2]]\<rparr>;
       m = ARPMessage_init\<lparr>arp_opcode := OPCODE_REPLY, arp_sender_ip_address := 0x0a000001\<rparr>
   in ethernet_frame_valid f \<and> arp_valid m \<and>
      ethernet_frame_parse EthernetFrame_init (concat (ethernet_frame_serialize f)) =
        (NoError, f\<lparr>ef_payload := [[1, 2]]\<rparr>) \<and>
      (\<exists>b. arp_serialize m = Inr b \<and> arp_parse ARPMessage_init b = (NoError, m))"
  using link_layer_roundtrip [of "\<lparr>ef_header = \<lparr>eth_dst = ETHERNET_BROADCAST,
      eth_src = [2, 0, 0, 0, 0, 1], eth_type = TYPE_ARP\<rparr>, ef_payload = [[1], [2]]\<rparr>"
      "ARPMessage_init\<lparr>arp_opcode := OPCODE_REPLY, arp_sender_ip_address := 0x0a000001\<rparr>"]
  by (simp add: ethernet_frame_valid_def arp_valid_def arp_supported_def ARPMessage_init_def
      ETHERNET_BROADCAST_def Let_def)

end
