(* ===== verification/Text.thy ===== *)
theory Text
  imports Prelude
begin

text \<open>
  The parts of the C++ standard library that turn numbers into text and back:
  \<open>std::to_string\<close> on unsigned numbers, the hexadecimal output of \<open>std::hex\<close> with
  \<open>setw\<close> and \<open>setfill('0')\<close>, and \<open>std::stoi\<close>.
\<close>

section \<open>Numbers as text\<close>

definition digit_char :: "nat \<Rightarrow> char" where
  "digit_char n = (if n < 10 then char_of (48 + n) else char_of (87 + n))"

fun show_base :: "nat \<Rightarrow> nat \<Rightarrow> string" where
  "show_base b n =
     (if n < b \<or> b < 2 then [digit_char n] else show_base b (n div b) @ [digit_char (n mod b)])"

declare show_base.simps [simp del]

definition to_string_nat :: "nat \<Rightarrow> string" where
  "to_string_nat n = show_base 10 n"

definition hex_string :: "nat \<Rightarrow> string" where
  "hex_string n = show_base 16 n"

text \<open>\<open>setw(w)\<close> with a fill character: padded on the left, never cut off.\<close>

definition setw :: "nat \<Rightarrow> char \<Rightarrow> string \<Rightarrow> string" where
  "setw w fill s = replicate (w - length s) fill @ s"

definition digit_val :: "char \<Rightarrow> nat" where
  "digit_val c = (let k = of_char c in if k < 58 then k - 48 else k - 87)"

definition is_digit :: "char \<Rightarrow> bool" where
  "is_digit c \<longleftrightarrow> 48 \<le> (of_char c :: nat) \<and> (of_char c :: nat) < 58"

definition read_base :: "nat \<Rightarrow> string \<Rightarrow> nat" where
  "read_base b s = foldl (\<lambda>v c. b * v + digit_val c) 0 s"

text \<open>\<open>isspace\<close> in the C locale.\<close>

definition is_space :: "char \<Rightarrow> bool" where
  "is_space c \<longleftrightarrow> (of_char c :: nat) \<in> {9, 10, 11, 12, 13, 32}"

text \<open>\<open>std::stoi\<close>: white space, an optional sign, then as many digits as there are; it throws
  when there is no digit and when the number does not fit an \<open>int\<close>.\<close>

definition stoi :: "string \<Rightarrow> int res" where
  "stoi s =
     (let s = dropWhile is_space s;
          neg = (s \<noteq> [] \<and> hd s = CHR ''-'');
          s = (if s \<noteq> [] \<and> (hd s = CHR ''-'' \<or> hd s = CHR ''+'') then tl s else s);
          ds = takeWhile is_digit s;
          v = (if neg then - int (read_base 10 ds) else int (read_base 10 ds))
      in if ds = [] then Inl Invalid_Argument
         else if v < - 2147483648 \<or> 2147483647 < v then Inl Out_Of_Range
         else Inr v)"

section \<open>Reading back\<close>

lemma digit_val_char: "n < 16 \<Longrightarrow> digit_val (digit_char n) = n"
  by (auto simp: digit_val_def digit_char_def Let_def)

lemma digit_char_digit: "n < 10 \<Longrightarrow> is_digit (digit_char n)"
  by (auto simp: is_digit_def digit_char_def)

lemma read_base_snoc: "read_base b (s @ [c]) = b * read_base b s + digit_val c"
  by (simp add: read_base_def)

lemma read_show_base: "2 \<le> b \<Longrightarrow> b \<le> 16 \<Longrightarrow> read_base b (show_base b n) = n"
proof (induction n rule: less_induct)
  case (less n)
  show ?case
  proof (cases "n < b")
    case True
    then show ?thesis using less.prems
      by (simp add: show_base.simps [of b n] read_base_def digit_val_char)
  next
    case False
    then have "read_base b (show_base b (n div b)) = n div b" using less by (intro less.IH) auto
    moreover have "n mod b < 16" using less.prems by (intro order.strict_trans2 [OF mod_less_divisor]) auto
    ultimately show ?thesis using less.prems False
      by (simp add: show_base.simps [of b n] read_base_snoc digit_val_char)
  qed
qed

lemma show_base_not_Nil [simp]: "show_base b n \<noteq> []"
  by (subst show_base.simps) simp

lemma decimal_digits: "list_all is_digit (show_base 10 n)"
proof (induction n rule: less_induct)
  case (less n)
  then show ?case by (simp add: show_base.simps [of 10 n] digit_char_digit)
qed

lemma to_string_nat_inj: "to_string_nat m = to_string_nat n \<longleftrightarrow> m = n"
proof
  assume "to_string_nat m = to_string_nat n"
  then have "read_base 10 (show_base 10 m) = read_base 10 (show_base 10 n)"
    by (simp add: to_string_nat_def)
  then show "m = n" by (simp add: read_show_base)
qed simp

lemma stoi_to_string:
  assumes "n \<le> 2147483647"
  shows "stoi (to_string_nat n) = Inr (int n)"
proof -
  let ?s = "show_base 10 n"
  have all: "list_all is_digit ?s" by (rule decimal_digits)
  then have hd: "is_digit (hd ?s)" by (cases ?s) (use show_base_not_Nil [of 10 n] in auto)
  have "\<not> is_space c \<and> c \<noteq> CHR ''-'' \<and> c \<noteq> CHR ''+''" if "is_digit c" for c
    using that by (auto simp: is_digit_def is_space_def)
  from this [OF hd] have "\<not> is_space (hd ?s)" "hd ?s \<noteq> CHR ''-''" "hd ?s \<noteq> CHR ''+''" by simp_all
  moreover have "dropWhile is_space ?s = ?s"
    using calculation(1) by (cases ?s) auto
  moreover have tw: "takeWhile is_digit ?s = ?s" using all by (simp add: takeWhile_eq_all_conv list_all_iff)
  ultimately show ?thesis
    using assms by (simp add: stoi_def to_string_nat_def Let_def tw read_show_base)
qed

text \<open>Text between separators.\<close>

fun split_on :: "char \<Rightarrow> string \<Rightarrow> string list" where
  "split_on c [] = [[]]"
| "split_on c (x # s) =
     (if x = c then [] # split_on c s
      else case split_on c s of [] \<Rightarrow> [[x]] | w # ws \<Rightarrow> (x # w) # ws)"

lemma split_on_none: "c \<notin> set a \<Longrightarrow> split_on c a = [a]"
  by (induction a) auto

lemma split_on_append: "c \<notin> set a \<Longrightarrow> split_on c (a @ c # b) = a # split_on c b"
  by (induction a) auto

lemma decimal_no_sep: "\<not> is_digit c \<Longrightarrow> c \<notin> set (to_string_nat n)"
  using decimal_digits [of n] by (auto simp: to_string_nat_def list_all_iff)

lemma read_to_string [simp]: "read_base 10 (to_string_nat n) = n"
  by (simp add: to_string_nat_def read_show_base)

end
