(* ===== verification/Socket_Address.thy ===== *)
theory Socket_Address
  imports Text Net_Parser
begin

text \<open>
  \<open>Address\<close> (\<open>src/libsponge/util/address.hh\<close>, \<open>address.cc\<close>): a socket address as the bytes of
  a \<open>sockaddr_storage\<close> with the number of them in use, on a little-endian 64-bit Linux host.
  The resolver calls \<open>getaddrinfo\<close> and \<open>getnameinfo\<close> of the operating system are arguments:
  they return an error code or their result.
\<close>

section \<open>Layout\<close>

definition sizeof_sockaddr_storage :: nat where
  "sizeof_sockaddr_storage = 128"

definition sizeof_sockaddr_in :: nat where
  "sizeof_sockaddr_in = 16"

definition AF_INET :: u16 where
  "AF_INET = 2"

text \<open>A \<open>sockaddr_in\<close>: the family in host byte order, port and address in network byte order,
  and eight bytes of padding.\<close>

definition sockaddr_in :: "u16 \<Rightarrow> u16 \<Rightarrow> u32 \<Rightarrow> bytes" where
  "sockaddr_in family port addr = rev (be16 family) @ be16 port @ be32 addr @ replicate 8 0"

record Address =
  ad_size :: u32
  ad_storage :: bytes

definition ss_family :: "bytes \<Rightarrow> u16" where
  "ss_family storage = push_bit 8 (ucast (storage ! 1)) + ucast (storage ! 0)"

section \<open>Operations\<close>

text \<open>The constructor from a \<open>sockaddr\<close>; reading past the end of the source is undefined.\<close>

definition Address_of_sockaddr :: "bytes \<Rightarrow> u64 \<Rightarrow> Address res" where
  "Address_of_sockaddr addr sze =
     (if unat sze > sizeof_sockaddr_storage then Inl (Runtime_Error ''invalid sockaddr size'')
      else if length addr < unat sze then Inl Undefined_Behaviour
      else Inr \<lparr>ad_size = ucast sze,
                ad_storage = take (unat sze) addr @ replicate (sizeof_sockaddr_storage - unat sze) 0\<rparr>)"

definition AI_NUMERICHOST :: u32 where "AI_NUMERICHOST = 4"
definition AI_ALL :: u32 where "AI_ALL = 16"
definition AI_NUMERICSERV :: u32 where "AI_NUMERICSERV = 1024"

record addrinfo =
  ai_flags :: u32
  ai_family :: u16

definition make_hints :: "u32 \<Rightarrow> u16 \<Rightarrow> addrinfo" where
  "make_hints flags family = \<lparr>ai_flags = flags, ai_family = family\<rparr>"

text \<open>The results of \<open>getaddrinfo\<close> are a list of addresses with their lengths.\<close>

type_synonym getaddrinfo = "string \<Rightarrow> string \<Rightarrow> addrinfo \<Rightarrow> int + (bytes \<times> u64) list"

definition Address_resolve :: "getaddrinfo \<Rightarrow> string \<Rightarrow> string \<Rightarrow> addrinfo \<Rightarrow> Address res" where
  "Address_resolve gai node service hints =
     (case gai node service hints of
        Inl gai_ret \<Rightarrow> Inl (Tagged_Error (''getaddrinfo('' @ node @ '', '' @ service @ '')'') gai_ret)
      | Inr [] \<Rightarrow> Inl (Runtime_Error ''getaddrinfo returned successfully but with no results'')
      | Inr ((ai_addr, ai_addrlen) # _) \<Rightarrow> Address_of_sockaddr ai_addr ai_addrlen)"

definition Address_of_host :: "getaddrinfo \<Rightarrow> string \<Rightarrow> string \<Rightarrow> Address res" where
  "Address_of_host gai hostname service =
     Address_resolve gai hostname service (make_hints AI_ALL AF_INET)"

definition Address_of_ip :: "getaddrinfo \<Rightarrow> string \<Rightarrow> u16 \<Rightarrow> Address res" where
  "Address_of_ip gai ip port =
     Address_resolve gai ip (to_string_nat (unat port))
       (make_hints (AI_NUMERICHOST OR AI_NUMERICSERV) AF_INET)"

text \<open>\<open>getnameinfo\<close> with numeric host and service returns the two strings.\<close>

type_synonym getnameinfo = "bytes \<Rightarrow> u32 \<Rightarrow> int + (string \<times> string)"

definition ip_port :: "getnameinfo \<Rightarrow> Address \<Rightarrow> (string \<times> u16) res" where
  "ip_port gni a =
     (case gni (ad_storage a) (ad_size a) of
        Inl gni_ret \<Rightarrow> Inl (Tagged_Error ''getnameinfo'' gni_ret)
      | Inr (ip, port) \<Rightarrow> bindE (stoi port) (\<lambda>p. Inr (ip, word_of_int p)))"

definition address_to_string :: "getnameinfo \<Rightarrow> Address \<Rightarrow> string res" where
  "address_to_string gni a =
     bindE (ip_port gni a) (\<lambda>(ip, port). Inr (ip @ '':'' @ to_string_nat (unat port)))"

definition ipv4_numeric :: "Address \<Rightarrow> u32 res" where
  "ipv4_numeric a =
     (if ss_family (ad_storage a) \<noteq> AF_INET \<or> unat (ad_size a) \<noteq> sizeof_sockaddr_in
      then Inl (Runtime_Error ''ipv4_numeric called on non-IPV4 address'')
      else Inr (fst (np_u32 (NetParser_init (drop 4 (take (unat (ad_size a)) (ad_storage a)))))))"

definition from_ipv4_numeric :: "u32 \<Rightarrow> Address res" where
  "from_ipv4_numeric ip_address =
     Address_of_sockaddr (sockaddr_in AF_INET 0 ip_address) (word_of_nat sizeof_sockaddr_in)"

definition address_eq :: "Address \<Rightarrow> Address \<Rightarrow> bool" where
  "address_eq a b \<longleftrightarrow> ad_size a = ad_size b \<and>
     take (unat (ad_size a)) (ad_storage a) = take (unat (ad_size a)) (ad_storage b)"

section \<open>Properties\<close>

text \<open>An IPv4 address with a port, as \<open>getaddrinfo\<close> and the socket calls return it.\<close>

definition ipv4_address :: "u32 \<Rightarrow> u16 \<Rightarrow> Address" where
  "ipv4_address ip port =
     \<lparr>ad_size = 16, ad_storage = sockaddr_in AF_INET port ip @ replicate 112 0\<rparr>"

lemma length_sockaddr_in [simp]: "length (sockaddr_in f p a) = 16"
  by (simp add: sockaddr_in_def)

lemma ss_family_sockaddr: "ss_family (sockaddr_in AF_INET p a @ rest) = AF_INET"
  by (simp add: ss_family_def sockaddr_in_def be16_def AF_INET_def)

lemma Address_of_sockaddr_in:
  "Address_of_sockaddr (sockaddr_in AF_INET p a) 16 = Inr (ipv4_address a p)"
  by (simp add: Address_of_sockaddr_def ipv4_address_def sizeof_sockaddr_storage_def del: replicate_numeral)

lemma from_ipv4_numeric_eq [simp]: "from_ipv4_numeric ip = Inr (ipv4_address ip 0)"
  using Address_of_sockaddr_in [of 0 ip]
  by (simp add: from_ipv4_numeric_def sizeof_sockaddr_in_def)

lemma ipv4_numeric_address [simp]: "ipv4_numeric (ipv4_address ip port) = Inr ip"
proof -
  have "drop 4 (sockaddr_in AF_INET port ip) = be32 ip @ replicate 8 0"
    by (simp add: sockaddr_in_def be16_def AF_INET_def del: replicate_numeral)
  then show ?thesis
    by (simp add: ipv4_numeric_def ipv4_address_def ss_family_sockaddr sizeof_sockaddr_in_def np_u32_be
        del: replicate_numeral)
qed

lemma be16_inj: "be16 a = be16 b \<longleftrightarrow> a = b"
  using np_u16_be [of a "[]"] np_u16_be [of b "[]"] by (metis prod.inject)

lemma be32_inj: "be32 a = be32 b \<longleftrightarrow> a = b"
  using np_u32_be [of a "[]"] np_u32_be [of b "[]"] by (metis prod.inject)

lemma sockaddr_in_inj: "sockaddr_in f p a = sockaddr_in f q b \<longleftrightarrow> p = q \<and> a = b"
  by (auto simp: sockaddr_in_def be16_inj be32_inj)

text \<open>The dotted quad of an address.\<close>

definition dotted_quad :: "u32 \<Rightarrow> string" where
  "dotted_quad ip = (let byte = (\<lambda>n. to_string_nat (unat (be32 ip ! n)))
     in byte 0 @ ''.'' @ byte 1 @ ''.'' @ byte 2 @ ''.'' @ byte 3)"

text \<open>
  What the manual pages of the resolver promise for numeric hosts and services: a dotted quad
  and a decimal port are turned into one socket address, and that address back into them.
\<close>

definition numeric_resolver :: "getaddrinfo \<Rightarrow> getnameinfo \<Rightarrow> bool" where
  "numeric_resolver gai gni \<longleftrightarrow>
     (\<forall>ip port. gai (dotted_quad ip) (to_string_nat (unat port))
        (make_hints (AI_NUMERICHOST OR AI_NUMERICSERV) AF_INET) = Inr [(sockaddr_in AF_INET port ip, 16)]) \<and>
     (\<forall>ip port rest. gni (sockaddr_in AF_INET port ip @ rest) 16 =
        Inr (dotted_quad ip, to_string_nat (unat port)))"


text \<open>A resolver for numeric names.\<close>

definition quad_value :: "string \<Rightarrow> u32" where
  "quad_value s = fst (np_u32 (NetParser_init (map (word_of_nat \<circ> read_base 10) (split_on CHR ''.'' s))))"

definition numeric_getaddrinfo :: getaddrinfo where
  "numeric_getaddrinfo node service hints =
     Inr [(sockaddr_in AF_INET (word_of_nat (read_base 10 service)) (quad_value node), 16)]"

definition numeric_getnameinfo :: getnameinfo where
  "numeric_getnameinfo storage sze =
     Inr (dotted_quad (fst (np_u32 (NetParser_init (drop 4 storage)))),
          to_string_nat (unat (fst (np_u16 (NetParser_init (drop 2 storage))))))"

lemma quad_value_dotted [simp]: "quad_value (dotted_quad ip) = ip"
proof -
  have dot: "CHR ''.'' \<notin> set (to_string_nat n)" for n
    by (rule decimal_no_sep) (simp add: is_digit_def)
  obtain a b c d where be: "be32 ip = [a, b, c, d]" by (auto simp: be32_def)
  then have "split_on CHR ''.'' (dotted_quad ip) = map (to_string_nat \<circ> unat) (be32 ip)"
    by (simp add: dotted_quad_def Let_def dot split_on_append split_on_none)
  then have "map (word_of_nat \<circ> read_base 10) (split_on CHR ''.'' (dotted_quad ip)) = be32 ip"
    by (simp add: be)
  then show ?thesis using np_u32_be [of ip "[]"] by (simp add: quad_value_def)
qed

lemma numeric_resolver_exists: "numeric_resolver numeric_getaddrinfo numeric_getnameinfo"
proof -
  have "drop 2 (sockaddr_in AF_INET port ip @ rest) = be16 port @ be32 ip @ replicate 8 0 @ rest"
      "drop 4 (sockaddr_in AF_INET port ip @ rest) = be32 ip @ replicate 8 0 @ rest" for port ip rest
    by (simp_all add: sockaddr_in_def be16_def)
  then show ?thesis
    by (simp add: numeric_resolver_def numeric_getaddrinfo_def numeric_getnameinfo_def
        np_u16_be np_u32_be del: drop_append)
qed


end
