(* ===== verification/Network_Interface.thy ===== *)
theory Network_Interface
  imports Ethernet Transition Socket_Address
begin

text \<open>
  \<open>NetworkInterface\<close> (\<open>src/libsponge/network_interface.hh\<close>, \<open>network_interface.cc\<close>): datagrams
  become Ethernet frames, the Ethernet address of the next hop is learned with ARP and forgotten
  after 30 seconds, and datagrams wait while a request is pending. The maps are partial
  functions. An exception aborts the call. The diagnostic output of the constructor is left out.
\<close>

section \<open>State and operations\<close>

record NetworkInterface =
  ni_ip2eth :: "u32 \<Rightarrow> EthernetAddress option"
  ni_ip2dgrams :: "u32 \<Rightarrow> IPv4Datagram list option"
  ni_timestamps_arp :: "u32 \<Rightarrow> u64 option"
  ni_timestamps_pair :: "((u32 \<times> EthernetAddress) \<times> u64) list"
  ni_time :: u64
  ni_ethernet_address :: EthernetAddress
  ni_ip_address :: Address
  ni_frames_out :: "EthernetFrame list"

definition NetworkInterface_init :: "EthernetAddress \<Rightarrow> Address \<Rightarrow> NetworkInterface" where
  "NetworkInterface_init ethernet_address ip_address =
     \<lparr>ni_ip2eth = Map.empty, ni_ip2dgrams = Map.empty, ni_timestamps_arp = Map.empty,
      ni_timestamps_pair = [], ni_time = 0, ni_ethernet_address = ethernet_address,
      ni_ip_address = ip_address, ni_frames_out = []\<rparr>"

definition ADDR_BROADCAST :: EthernetAddress where
  "ADDR_BROADCAST = replicate 6 0"

definition send_arp :: "NetworkInterface \<Rightarrow> u16 \<Rightarrow> u32 \<Rightarrow> EthernetAddress \<Rightarrow> NetworkInterface res" where
  "send_arp i opcode target_ip target_eth =
     bindE (ipv4_numeric (ni_ip_address i)) (\<lambda>our_ip.
       let msg = ARPMessage_init\<lparr>arp_opcode := opcode, arp_sender_ip_address := our_ip,
                   arp_sender_ethernet_address := ni_ethernet_address i,
                   arp_target_ip_address := target_ip, arp_target_ethernet_address := target_eth\<rparr>;
           header = \<lparr>eth_dst = (if opcode = OPCODE_REPLY then target_eth else ETHERNET_BROADCAST),
                     eth_src = ni_ethernet_address i, eth_type = TYPE_ARP\<rparr>
       in bindE (arp_serialize msg) (\<lambda>payload.
          Inr (i\<lparr>ni_frames_out := ni_frames_out i @ [\<lparr>ef_header = header, ef_payload = [payload]\<rparr>]\<rparr>)))"

text \<open>A datagram in a frame to a known address.\<close>

definition send_frame :: "NetworkInterface \<Rightarrow> IPv4Datagram \<Rightarrow> EthernetAddress \<Rightarrow> NetworkInterface res" where
  "send_frame i dgram dst =
     bindE (ipv4_datagram_serialize dgram) (\<lambda>payload.
       let header = \<lparr>eth_dst = dst, eth_src = ni_ethernet_address i, eth_type = TYPE_IPv4\<rparr>
       in Inr (i\<lparr>ni_frames_out := ni_frames_out i @ [\<lparr>ef_header = header, ef_payload = payload\<rparr>]\<rparr>))"

text \<open>The queue \<open>ip2dgrams[ip]\<close>, empty where the map has no entry.\<close>

definition waiting :: "NetworkInterface \<Rightarrow> u32 \<Rightarrow> IPv4Datagram list" where
  "waiting i ip = (case ni_ip2dgrams i ip of None \<Rightarrow> [] | Some q \<Rightarrow> q)"

definition send_datagram :: "NetworkInterface \<Rightarrow> IPv4Datagram \<Rightarrow> Address \<Rightarrow> NetworkInterface res" where
  "send_datagram i dgram next_hop =
     bindE (ipv4_numeric next_hop) (\<lambda>next_hop_ip.
       case ni_ip2eth i next_hop_ip of
         Some eth \<Rightarrow> send_frame i dgram eth
       | None \<Rightarrow>
         let i = i\<lparr>ni_ip2dgrams := (ni_ip2dgrams i)(next_hop_ip \<mapsto> waiting i next_hop_ip @ [dgram])\<rparr> in
         if (case ni_timestamps_arp i next_hop_ip of None \<Rightarrow> False | Some t \<Rightarrow> ni_time i - t < 5000)
         then Inr i
         else send_arp (i\<lparr>ni_timestamps_arp := (ni_timestamps_arp i)(next_hop_ip \<mapsto> ni_time i)\<rparr>)
                OPCODE_REQUEST next_hop_ip ADDR_BROADCAST)"

text \<open>The loop of \<open>recv_frame\<close> that sends what was waiting for an address.\<close>

fun send_waiting :: "IPv4Datagram list \<Rightarrow> NetworkInterface \<Rightarrow> u32 \<Rightarrow> EthernetAddress \<Rightarrow> NetworkInterface res" where
  "send_waiting [] i ip eth = Inr (i\<lparr>ni_ip2dgrams := (ni_ip2dgrams i)(ip \<mapsto> [])\<rparr>)"
| "send_waiting (d # q) i ip eth =
     bindE (send_frame i d eth) (\<lambda>i. send_waiting q (i\<lparr>ni_ip2dgrams := (ni_ip2dgrams i)(ip \<mapsto> q)\<rparr>) ip eth)"

definition recv_arp :: "NetworkInterface \<Rightarrow> ARPMessage \<Rightarrow> NetworkInterface res" where
  "recv_arp i msg =
     (let ip = arp_sender_ip_address msg;
          eth = arp_sender_ethernet_address msg;
          i = (if ni_ip2eth i ip = None
               then i\<lparr>ni_timestamps_pair := ni_timestamps_pair i @ [((ip, eth), ni_time i)],
                      ni_ip2eth := (ni_ip2eth i)(ip \<mapsto> eth)\<rparr>
               else i)
      in
      bindE (if ni_timestamps_arp i ip \<noteq> None
             then send_waiting (waiting i ip)
                    (i\<lparr>ni_timestamps_arp := (ni_timestamps_arp i)(ip := None)\<rparr>) ip
                    (the (ni_ip2eth i ip))
             else Inr i) (\<lambda>i.
        if arp_opcode msg = OPCODE_REQUEST then
          bindE (ipv4_numeric (ni_ip_address i)) (\<lambda>our_ip.
            if arp_target_ip_address msg = our_ip
            then send_arp i OPCODE_REPLY (arp_sender_ip_address msg) (arp_sender_ethernet_address msg)
            else Inr i)
        else Inr i))"

definition ni_recv_frame ::
    "NetworkInterface \<Rightarrow> EthernetFrame \<Rightarrow> (NetworkInterface \<times> IPv4Datagram option) res" where
  "ni_recv_frame i frame =
     (if eth_type (ef_header frame) = TYPE_IPv4 \<and> eth_dst (ef_header frame) = ni_ethernet_address i then
        let (result, dgram) = ipv4_datagram_parse IPv4Datagram_init (concat (ef_payload frame))
        in Inr (i, if result = NoError then Some dgram else None)
      else
        let (result, msg) = arp_parse ARPMessage_init (concat (ef_payload frame)) in
        if result \<noteq> NoError then Inr (i, None)
        else bindE (recv_arp i msg) (\<lambda>i. Inr (i, None)))"

text \<open>The loop of \<open>tick\<close> that forgets old mappings.\<close>

fun expire :: "u64 \<Rightarrow> ((u32 \<times> EthernetAddress) \<times> u64) list \<Rightarrow> (u32 \<Rightarrow> EthernetAddress option) \<Rightarrow>
    ((u32 \<times> EthernetAddress) \<times> u64) list \<times> (u32 \<Rightarrow> EthernetAddress option)" where
  "expire now [] m = ([], m)"
| "expire now (((ip, eth), t) # q) m =
     (if now - t > 30000 then expire now q (m(ip := None)) else (((ip, eth), t) # q, m))"

definition ni_tick :: "NetworkInterface \<Rightarrow> u64 \<Rightarrow> NetworkInterface" where
  "ni_tick i ms_since_last_tick =
     (let i = i\<lparr>ni_time := ni_time i + ms_since_last_tick\<rparr>;
          (q, m) = expire (ni_time i) (ni_timestamps_pair i) (ni_ip2eth i)
      in i\<lparr>ni_timestamps_pair := q, ni_ip2eth := m\<rparr>)"

section \<open>Invariant\<close>

text \<open>
  The cache is what the queue of learned pairs says, each address once, oldest first. Datagrams
  wait only for addresses with a pending request, requests are pending only for unknown
  addresses, and no recorded time is in the future.
\<close>

definition pair_ages :: "((u32 \<times> EthernetAddress) \<times> u64) list \<Rightarrow> nat list" where
  "pair_ages q = map (unat \<circ> snd) q"

definition cache_ok :: "u64 \<Rightarrow> ((u32 \<times> EthernetAddress) \<times> u64) list \<Rightarrow> (u32 \<Rightarrow> EthernetAddress option) \<Rightarrow> bool" where
  "cache_ok now q m \<longleftrightarrow> m = map_of (map fst q) \<and> distinct (map (fst \<circ> fst) q) \<and>
     sorted (pair_ages q) \<and> (\<forall>t \<in> set (pair_ages q). t \<le> unat now)"

definition ni_wf :: "NetworkInterface \<Rightarrow> bool" where
  "ni_wf i \<longleftrightarrow> cache_ok (ni_time i) (ni_timestamps_pair i) (ni_ip2eth i) \<and>
     (\<forall>ip. waiting i ip \<noteq> [] \<longrightarrow> ni_timestamps_arp i ip \<noteq> None) \<and>
     (\<forall>ip. ni_timestamps_arp i ip \<noteq> None \<longrightarrow> ni_ip2eth i ip = None) \<and>
     (\<forall>ip t. ni_timestamps_arp i ip = Some t \<longrightarrow> unat t \<le> unat (ni_time i))"

lemma expire_eq:
  assumes "distinct (map (fst \<circ> fst) q)"
  shows "expire now q (map_of (map fst q)) =
    (let q' = dropWhile (\<lambda>p. now - snd p > 30000) q in (q', map_of (map fst q')))"
  using assms
proof (induction q)
  case (Cons p q)
  obtain ip eth t where p: "p = ((ip, eth), t)" by (metis prod.collapse)
  have "ip \<notin> fst ` set (map fst q)" using Cons.prems by (force simp: p)
  then have "map_of (map fst q) ip = None" by (simp add: map_of_eq_None_iff)
  then have m: "(map_of (map fst (p # q)))(ip := None) = map_of (map fst q)"
    by (simp add: p fun_upd_idem)
  have "expire now (p # q) M = (if now - t > 30000 then expire now q (M(ip := None)) else (p # q, M))" for M
    by (simp add: p)
  then have eq: "expire now (p # q) (map_of (map fst (p # q))) =
      (if now - t > 30000 then expire now q (map_of (map fst q)) else (p # q, map_of (map fst (p # q))))"
    by (simp only: m)
  show ?case unfolding eq using Cons by (auto simp: p)
qed simp

lemma sorted_dropWhile_filter:
  assumes "sorted (map f xs)" "\<And>x y. f x \<le> f y \<Longrightarrow> P y \<Longrightarrow> P x"
  shows "dropWhile P xs = filter (\<lambda>x. \<not> P x) xs"
  using assms(1)
proof (induction xs)
  case (Cons x xs)
  show ?case
  proof (cases "P x")
    case False
    then have "\<forall>y \<in> set xs. \<not> P y" using Cons.prems assms(2) by auto
    then show ?thesis using False by (simp add: filter_id_conv)
  qed (use Cons in simp)
qed simp

lemma expire_young:
  assumes "cache_ok now q m"
  shows "dropWhile (\<lambda>p. now - snd p > 30000) q = filter (\<lambda>p. unat now \<le> unat (snd p) + 30000) q"
proof -
  have age: "now - snd p > 30000 \<longleftrightarrow> unat (snd p) + 30000 < unat now" if "p \<in> set q" for p
    using that assms by (auto simp: cache_ok_def pair_ages_def word_less_nat_alt unat_u64_sub)
  then have "dropWhile (\<lambda>p. now - snd p > 30000) q = dropWhile (\<lambda>p. unat (snd p) + 30000 < unat now) q"
    by (intro dropWhile_cong) simp_all
  also have "\<dots> = filter (\<lambda>p. \<not> unat (snd p) + 30000 < unat now) q"
    using assms by (intro sorted_dropWhile_filter [of "unat \<circ> snd"])
      (auto simp: cache_ok_def pair_ages_def)
  finally show ?thesis by (simp add: not_less)
qed

lemma cache_ok_filter:
  assumes "cache_ok now q m"
  shows "cache_ok now (filter P q) (map_of (map fst (filter P q)))"
proof -
  have "distinct (map (fst \<circ> fst) (filter P q))"
    using assms by (simp add: cache_ok_def distinct_map_filter)
  moreover have "sorted (pair_ages (filter P q))"
    using assms by (simp add: cache_ok_def pair_ages_def sorted_map sorted_wrt_filter)
  moreover have "set (pair_ages (filter P q)) \<subseteq> set (pair_ages q)" by (auto simp: pair_ages_def)
  ultimately show ?thesis using assms by (auto simp: cache_ok_def)
qed

lemma ni_tick_eq:
  assumes "cache_ok (ni_time i) (ni_timestamps_pair i) (ni_ip2eth i)"
    "unat (ni_time i) + unat ms < 18446744073709551616"
  defines "q \<equiv> filter (\<lambda>p. unat (ni_time i) + unat ms \<le> unat (snd p) + 30000) (ni_timestamps_pair i)"
  shows "ni_tick i ms = i\<lparr>ni_time := ni_time i + ms, ni_timestamps_pair := q, ni_ip2eth := map_of (map fst q)\<rparr>"
    and "cache_ok (ni_time i + ms) q (map_of (map fst q))"
proof -
  have t: "unat (ni_time i + ms) = unat (ni_time i) + unat ms" using assms(2) by (simp add: word_nat)
  have ok: "cache_ok (ni_time i + ms) (ni_timestamps_pair i) (ni_ip2eth i)"
    using assms(1) t by (auto simp: cache_ok_def)
  have m: "ni_ip2eth i = map_of (map fst (ni_timestamps_pair i))"
      "distinct (map (fst \<circ> fst) (ni_timestamps_pair i))"
    using assms(1) by (simp_all add: cache_ok_def)
  have q: "dropWhile (\<lambda>p. ni_time i + ms - snd p > 30000) (ni_timestamps_pair i) = q"
    using expire_young [OF ok] by (simp add: q_def t)
  show "ni_tick i ms = i\<lparr>ni_time := ni_time i + ms, ni_timestamps_pair := q, ni_ip2eth := map_of (map fst q)\<rparr>"
    using expire_eq [OF m(2), of "ni_time i + ms"] by (simp add: ni_tick_def Let_def m(1) [symmetric] q)
  show "cache_ok (ni_time i + ms) q (map_of (map fst q))"
    unfolding q_def by (rule cache_ok_filter [OF ok])
qed

text \<open>What the calls leave alone.\<close>

lemma send_arp_frame:
  "send_arp i op ip eth = Inr i' \<Longrightarrow> \<exists>f. i' = i\<lparr>ni_frames_out := ni_frames_out i @ [f]\<rparr>"
  by (auto simp: send_arp_def bindE_eq_Inr Let_def)

lemma send_frame_frame:
  "send_frame i d eth = Inr i' \<Longrightarrow> \<exists>f. i' = i\<lparr>ni_frames_out := ni_frames_out i @ [f]\<rparr>"
  by (auto simp: send_frame_def bindE_eq_Inr Let_def)

lemma waiting_frames [simp]: "waiting (i\<lparr>ni_frames_out := fs\<rparr>) = waiting i"
  by (simp add: fun_eq_iff waiting_def)

lemma ni_wf_frames [simp]: "ni_wf (i\<lparr>ni_frames_out := fs\<rparr>) = ni_wf i"
  by (simp add: ni_wf_def)

lemma send_waiting_result:
  "send_waiting q i ip eth = Inr i' \<Longrightarrow>
   \<exists>fs. i' = i\<lparr>ni_ip2dgrams := (ni_ip2dgrams i)(ip \<mapsto> []), ni_frames_out := ni_frames_out i @ fs\<rparr>"
proof (induction q arbitrary: i)
  case (Cons d q)
  then obtain i1 where i1: "send_frame i d eth = Inr i1"
      "send_waiting q (i1\<lparr>ni_ip2dgrams := (ni_ip2dgrams i1)(ip \<mapsto> q)\<rparr>) ip eth = Inr i'"
    by (auto simp: bindE_eq_Inr)
  obtain f where "i1 = i\<lparr>ni_frames_out := ni_frames_out i @ [f]\<rparr>"
    using send_frame_frame [OF i1(1)] by blast
  moreover obtain fs where "i' = i1\<lparr>ni_ip2dgrams := (ni_ip2dgrams i1)(ip \<mapsto> []),
      ni_frames_out := ni_frames_out i1 @ fs\<rparr>"
    using Cons.IH [OF i1(2)] by (auto simp: fun_upd_def cong: if_cong)
  ultimately show ?case by (intro exI [of _ "f # fs"]) (simp add: fun_upd_def)
qed (auto intro: exI [of _ "[]"])

lemma waiting_upd:
  "waiting (i\<lparr>ni_ip2dgrams := m(ip \<mapsto> q)\<rparr>) = (waiting (i\<lparr>ni_ip2dgrams := m\<rparr>))(ip := q)"
  by (simp add: fun_eq_iff waiting_def)

lemma waiting_other [simp]:
  "waiting (i\<lparr>ni_timestamps_arp := a\<rparr>) = waiting i" "waiting (i\<lparr>ni_ip2eth := m\<rparr>) = waiting i"
  "waiting (i\<lparr>ni_timestamps_pair := ps\<rparr>) = waiting i" "waiting (i\<lparr>ni_time := t\<rparr>) = waiting i"
  by (simp_all add: fun_eq_iff waiting_def)

lemma send_datagram_wf:
  assumes wf: "ni_wf i" and s: "send_datagram i d hop = Inr i'"
  shows "ni_wf i'"
proof -
  obtain ip where ip: "ipv4_numeric hop = Inr ip"
    using s by (auto simp: send_datagram_def bindE_eq_Inr)
  show ?thesis
  proof (cases "ni_ip2eth i ip")
    case (Some eth)
    then have "send_frame i d eth = Inr i'" using s ip by (simp add: send_datagram_def)
    then show ?thesis using wf send_frame_frame by fastforce
  next
    case None
    let ?i1 = "i\<lparr>ni_ip2dgrams := (ni_ip2dgrams i)(ip \<mapsto> waiting i ip @ [d])\<rparr>"
    let ?i2 = "?i1\<lparr>ni_timestamps_arp := (ni_timestamps_arp i)(ip \<mapsto> ni_time i)\<rparr>"
    have 1: "ni_wf ?i1" if "ni_timestamps_arp i ip \<noteq> None"
      using wf that None by (auto simp: ni_wf_def waiting_upd)
    have 2: "ni_wf ?i2" using wf None by (auto simp: ni_wf_def waiting_upd)
    have "i' = ?i1 \<and> ni_timestamps_arp i ip \<noteq> None \<or>
        send_arp ?i2 OPCODE_REQUEST ip ADDR_BROADCAST = Inr i'"
      using s ip None by (auto simp: send_datagram_def Let_def split: if_splits option.splits)
    then show ?thesis using 1 2 send_arp_frame by fastforce
  qed
qed

lemma recv_arp_wf:
  assumes wf: "ni_wf i" and r: "recv_arp i msg = Inr i'"
  shows "ni_wf i'"
proof -
  let ?ip = "arp_sender_ip_address msg" and ?eth = "arp_sender_ethernet_address msg"
  let ?i1 = "if ni_ip2eth i ?ip = None
    then i\<lparr>ni_timestamps_pair := ni_timestamps_pair i @ [((?ip, ?eth), ni_time i)],
           ni_ip2eth := (ni_ip2eth i)(?ip \<mapsto> ?eth)\<rparr> else i"
  have cache: "cache_ok (ni_time i) (ni_timestamps_pair ?i1) (ni_ip2eth ?i1)"
  proof (cases "ni_ip2eth i ?ip")
    case None
    have ok: "cache_ok (ni_time i) (ni_timestamps_pair i) (ni_ip2eth i)" using wf by (simp add: ni_wf_def)
    then have "?ip \<notin> fst ` set (map fst (ni_timestamps_pair i))"
      using None by (simp add: cache_ok_def map_of_eq_None_iff)
    then have fresh: "?ip \<notin> (fst \<circ> fst) ` set (ni_timestamps_pair i)"
        "map_of (map fst (ni_timestamps_pair i)) ?ip = None"
      by (auto simp: image_image map_of_eq_None_iff)
    then have "(map_of (map fst (ni_timestamps_pair i)))(?ip \<mapsto> ?eth) =
        map_of (map fst (ni_timestamps_pair i) @ [(?ip, ?eth)])"
      by (auto simp: fun_eq_iff map_add_def split: option.splits)
    then show ?thesis
      using ok None fresh by (auto simp: cache_ok_def pair_ages_def sorted_append)
  qed (use wf in \<open>simp add: ni_wf_def\<close>)
  obtain i2 where i2: "(if ni_timestamps_arp ?i1 ?ip \<noteq> None
      then send_waiting (waiting ?i1 ?ip) (?i1\<lparr>ni_timestamps_arp := (ni_timestamps_arp ?i1)(?ip := None)\<rparr>)
        ?ip (the (ni_ip2eth ?i1 ?ip)) else Inr ?i1) = Inr i2"
      "i' = i2 \<or> (\<exists>op ip eth. send_arp i2 op ip eth = Inr i')"
    using r unfolding recv_arp_def Let_def
    by (auto simp: bindE_eq_Inr split: if_splits)
  have "ni_wf i2"
  proof (cases "ni_timestamps_arp i ?ip = None")
    case True
    then have "i2 = ?i1" using i2(1) by (auto split: if_splits)
    then show ?thesis using wf cache True by (auto simp: ni_wf_def split: if_splits)
  next
    case False
    then obtain fs where i2_eq: "i2 = ?i1\<lparr>ni_timestamps_arp := (ni_timestamps_arp ?i1)(?ip := None),
        ni_ip2dgrams := (ni_ip2dgrams ?i1)(?ip \<mapsto> []), ni_frames_out := ni_frames_out ?i1 @ fs\<rparr>"
      using i2(1) send_waiting_result by (fastforce split: if_splits)
    have "ni_ip2eth i ?ip = None" using wf False by (auto simp: ni_wf_def)
    then show ?thesis
      using wf cache unfolding i2_eq by (auto simp: ni_wf_def waiting_def split: if_splits)
  qed
  then show ?thesis using i2(2) send_arp_frame by fastforce
qed

lemma ni_recv_frame_wf:
  assumes "ni_wf i" "ni_recv_frame i f = Inr (i', r)" shows "ni_wf i'"
  using assms
  by (auto simp: ni_recv_frame_def Let_def bindE_eq_Inr intro: recv_arp_wf split: if_splits prod.splits)

lemma ni_tick_wf:
  assumes wf: "ni_wf i" and time: "unat (ni_time i) + unat ms < 18446744073709551616"
  shows "ni_wf (ni_tick i ms)"
proof -
  have ok: "cache_ok (ni_time i) (ni_timestamps_pair i) (ni_ip2eth i)" using wf by (simp add: ni_wf_def)
  have t: "unat (ni_time i + ms) = unat (ni_time i) + unat ms" using time by (simp add: word_nat)
  have sub: "map_of (map fst (filter P q)) ip = None"
    if "map_of (map fst q) ip = None" for P ip and q :: "((u32 \<times> EthernetAddress) \<times> u64) list"
    using that by (auto simp: map_of_eq_None_iff)
  have m: "ni_ip2eth i = map_of (map fst (ni_timestamps_pair i))" using ok by (simp add: cache_ok_def)
  show ?thesis
    using wf ni_tick_eq(2) [OF ok time] t unfolding ni_tick_eq(1) [OF ok time]
    by (auto simp: ni_wf_def m intro!: sub intro: trans_le_add1)
qed

section \<open>The life of an interface\<close>

inductive ni_step :: "NetworkInterface \<Rightarrow> NetworkInterface \<Rightarrow> bool" where
  ni_send: "send_datagram i dgram next_hop = Inr i' \<Longrightarrow> ni_step i i'"
| ni_recv: "ni_recv_frame i frame = Inr (i', r) \<Longrightarrow> ni_step i i'"
| ni_ticks: "unat (ni_time i) + unat ms < 18446744073709551616 \<Longrightarrow> ni_step i (ni_tick i ms)"
| ni_pop: "ni_frames_out i = f # fs \<Longrightarrow> ni_step i (i\<lparr>ni_frames_out := fs\<rparr>)"

definition ni_start :: "NetworkInterface \<Rightarrow> bool" where
  "ni_start i \<longleftrightarrow> (\<exists>eth ip. i = NetworkInterface_init eth ip)"

lemma NetworkInterface_init_wf: "ni_wf (NetworkInterface_init eth ip)"
  by (simp add: ni_wf_def NetworkInterface_init_def cache_ok_def pair_ages_def waiting_def)

interpretation interface: machine_invariant ni_start ni_step ni_wf
proof unfold_locales
  fix i i' assume "ni_wf i" "ni_step i i'"
  from this(2,1) show "ni_wf i'"
    by cases (auto intro: send_datagram_wf ni_recv_frame_wf ni_tick_wf)
qed (auto simp: ni_start_def NetworkInterface_init_wf)

lemma cache_lookup:
  assumes "cache_ok now q m"
  shows "m ip = Some eth \<longleftrightarrow> (\<exists>t. ((ip, eth), t) \<in> set q)"
proof -
  have "distinct (map fst (map fst q))" "m = map_of (map fst q)" using assms by (simp_all add: cache_ok_def)
  then have "m ip = Some eth \<longleftrightarrow> (ip, eth) \<in> set (map fst q)" by simp
  then show ?thesis by force
qed

section \<open>Frames on the wire\<close>

text \<open>The frames an interface sends: a datagram for a known address, and an ARP message.\<close>

definition ipv4_frame :: "EthernetAddress \<Rightarrow> EthernetAddress \<Rightarrow> bytes list \<Rightarrow> EthernetFrame" where
  "ipv4_frame src dst payload =
     \<lparr>ef_header = \<lparr>eth_dst = dst, eth_src = src, eth_type = TYPE_IPv4\<rparr>, ef_payload = payload\<rparr>"

definition arp_frame :: "EthernetAddress \<Rightarrow> EthernetAddress \<Rightarrow> bytes \<Rightarrow> EthernetFrame" where
  "arp_frame src dst payload =
     \<lparr>ef_header = \<lparr>eth_dst = dst, eth_src = src, eth_type = TYPE_ARP\<rparr>, ef_payload = [payload]\<rparr>"

definition arp_message :: "u16 \<Rightarrow> EthernetAddress \<Rightarrow> u32 \<Rightarrow> EthernetAddress \<Rightarrow> u32 \<Rightarrow> ARPMessage" where
  "arp_message opcode sender_eth sender_ip target_eth target_ip =
     ARPMessage_init\<lparr>arp_opcode := opcode, arp_sender_ip_address := sender_ip,
       arp_sender_ethernet_address := sender_eth, arp_target_ip_address := target_ip,
       arp_target_ethernet_address := target_eth\<rparr>"

definition arp_bytes :: "ARPMessage \<Rightarrow> bytes" where
  "arp_bytes m = (case arp_serialize m of Inl _ \<Rightarrow> [] | Inr b \<Rightarrow> b)"

lemma opcodes: "OPCODE_REQUEST \<noteq> OPCODE_REPLY" "TYPE_ARP \<noteq> TYPE_IPv4"
  by (simp_all add: OPCODE_REQUEST_def OPCODE_REPLY_def TYPE_ARP_def TYPE_IPv4_def)

lemma arp_message_fields [simp]:
  "arp_opcode (arp_message op se si te ti) = op"
  "arp_sender_ethernet_address (arp_message op se si te ti) = se"
  "arp_sender_ip_address (arp_message op se si te ti) = si"
  "arp_target_ip_address (arp_message op se si te ti) = ti"
  by (simp_all add: arp_message_def)

lemma arp_serialize_message:
  "op = OPCODE_REQUEST \<or> op = OPCODE_REPLY \<Longrightarrow>
   arp_serialize (arp_message op se si te ti) = Inr (arp_bytes (arp_message op se si te ti))"
  by (auto simp: arp_serialize_def arp_supported_def arp_message_def ARPMessage_init_def Let_def arp_bytes_def)

lemma arp_message_valid:
  "op = OPCODE_REQUEST \<or> op = OPCODE_REPLY \<Longrightarrow> length se = 6 \<Longrightarrow> length te = 6 \<Longrightarrow>
   arp_valid (arp_message op se si te ti)"
  by (auto simp: arp_valid_def arp_supported_def arp_message_def ARPMessage_init_def)

lemma send_arp_eq:
  assumes "ipv4_numeric (ni_ip_address i) = Inr our" "op = OPCODE_REQUEST \<or> op = OPCODE_REPLY"
  shows "send_arp i op ip eth = Inr (i\<lparr>ni_frames_out := ni_frames_out i @ [arp_frame (ni_ethernet_address i)
    (if op = OPCODE_REPLY then eth else ETHERNET_BROADCAST)
    (arp_bytes (arp_message op (ni_ethernet_address i) our eth ip))]\<rparr>)"
  using arp_serialize_message [OF assms(2)] assms(1)
  by (simp add: send_arp_def arp_message_def arp_frame_def Let_def)

lemma send_frame_eq:
  "ipv4_datagram_serialize d = Inr ps \<Longrightarrow>
   send_frame i d eth = Inr (i\<lparr>ni_frames_out := ni_frames_out i @ [ipv4_frame (ni_ethernet_address i) eth ps]\<rparr>)"
  by (simp add: send_frame_def ipv4_frame_def Let_def)

lemma recv_arp_frame:
  assumes "arp_valid m"
  shows "ni_recv_frame i (arp_frame src dst (arp_bytes m)) = bindE (recv_arp i m) (\<lambda>i. Inr (i, None))"
proof -
  obtain b where b: "arp_serialize m = Inr b" "arp_parse ARPMessage_init b = (NoError, m)"
    using arp_parse_serialize [OF assms] by blast
  then have "arp_bytes m = b" by (simp add: arp_bytes_def)
  then show ?thesis using b(2) opcodes by (simp add: ni_recv_frame_def arp_frame_def)
qed

lemma recv_ipv4_frame:
  assumes "ipv4_datagram_valid d" "ipv4_datagram_serialize d = Inr ps"
  shows "ni_recv_frame i (ipv4_frame src (ni_ethernet_address i) ps) = Inr (i, Some (ipv4_datagram_filled d))"
  using ip.parse_ser [OF assms] by (simp add: ni_recv_frame_def ipv4_frame_def)

text \<open>A datagram for an address that is not known.\<close>

definition recently_asked :: "NetworkInterface \<Rightarrow> u32 \<Rightarrow> bool" where
  "recently_asked i ip \<longleftrightarrow>
     (\<exists>t. ni_timestamps_arp i ip = Some t \<and> unat (ni_time i) < unat t + 5000)"

lemma send_datagram_known:
  assumes "ipv4_numeric hop = Inr ip" "ni_ip2eth i ip = Some eth"
  shows "send_datagram i d hop = send_frame i d eth"
  using assms by (simp add: send_datagram_def)

lemma send_datagram_unknown:
  fixes d
  assumes wf: "ni_wf i" and hop: "ipv4_numeric hop = Inr ip"
    and our: "ipv4_numeric (ni_ip_address i) = Inr our" and None: "ni_ip2eth i ip = None"
  defines "i1 \<equiv> i\<lparr>ni_ip2dgrams := (ni_ip2dgrams i)(ip \<mapsto> waiting i ip @ [d])\<rparr>"
  shows "send_datagram i d hop = Inr (if recently_asked i ip then i1
    else i1\<lparr>ni_timestamps_arp := (ni_timestamps_arp i)(ip \<mapsto> ni_time i),
            ni_frames_out := ni_frames_out i @ [arp_frame (ni_ethernet_address i) ETHERNET_BROADCAST
              (arp_bytes (arp_message OPCODE_REQUEST (ni_ethernet_address i) our ADDR_BROADCAST ip))]\<rparr>)"
proof -
  have "(case ni_timestamps_arp i ip of None \<Rightarrow> False | Some t \<Rightarrow> ni_time i - t < 5000) = recently_asked i ip"
  proof (cases "ni_timestamps_arp i ip")
    case (Some t)
    then have t: "unat t \<le> unat (ni_time i)" using wf by (simp add: ni_wf_def)
    then have "unat (ni_time i - t) = unat (ni_time i) - unat t" by (rule unat_u64_sub)
    then show ?thesis using Some t by (auto simp: recently_asked_def word_less_nat_alt)
  qed (simp add: recently_asked_def)
  then show ?thesis
    using hop our None opcodes by (simp add: send_datagram_def Let_def i1_def send_arp_eq cong: option.case_cong)
qed

text \<open>The datagrams that were waiting, sent in order.\<close>

definition datagram_bytes :: "IPv4Datagram \<Rightarrow> bytes list" where
  "datagram_bytes d = (case ipv4_datagram_serialize d of Inl _ \<Rightarrow> [] | Inr ps \<Rightarrow> ps)"

lemma datagram_bytes_valid: "ipv4_datagram_valid d \<Longrightarrow> ipv4_datagram_serialize d = Inr (datagram_bytes d)"
  using ip.ser_ok [of d] by (auto simp: datagram_bytes_def)

lemma send_waiting_eq:
  "\<forall>d \<in> set q. ipv4_datagram_valid d \<Longrightarrow>
   send_waiting q i ip eth = Inr (i\<lparr>ni_ip2dgrams := (ni_ip2dgrams i)(ip \<mapsto> []), ni_frames_out :=
     ni_frames_out i @ map (\<lambda>d. ipv4_frame (ni_ethernet_address i) eth (datagram_bytes d)) q\<rparr>)"
proof (induction q arbitrary: i)
  case (Cons d q)
  let ?i = "i\<lparr>ni_frames_out := ni_frames_out i @ [ipv4_frame (ni_ethernet_address i) eth (datagram_bytes d)],
    ni_ip2dgrams := (ni_ip2dgrams i)(ip \<mapsto> q)\<rparr>"
  have "send_waiting (d # q) i ip eth = send_waiting q ?i ip eth"
    using Cons.prems by (simp add: send_frame_eq [OF datagram_bytes_valid])
  also have "\<dots> = Inr (?i\<lparr>ni_ip2dgrams := (ni_ip2dgrams ?i)(ip \<mapsto> []), ni_frames_out :=
     ni_frames_out ?i @ map (\<lambda>d. ipv4_frame (ni_ethernet_address ?i) eth (datagram_bytes d)) q\<rparr>)"
    using Cons.prems by (intro Cons.IH) simp
  finally show ?case by (simp add: fun_upd_def cong: if_cong)
qed simp

text \<open>An ARP message from an address that is not known.\<close>

lemma recv_arp_learns:
  assumes "ni_ip2eth i ip = None" "\<forall>d \<in> set (waiting i ip). ipv4_datagram_valid d"
    and "op = OPCODE_REPLY" and pending: "ni_timestamps_arp i ip \<noteq> None"
  shows "recv_arp i (arp_message op eth ip te ti) =
    Inr (i\<lparr>ni_timestamps_pair := ni_timestamps_pair i @ [((ip, eth), ni_time i)],
      ni_ip2eth := (ni_ip2eth i)(ip \<mapsto> eth), ni_timestamps_arp := (ni_timestamps_arp i)(ip := None),
      ni_ip2dgrams := (ni_ip2dgrams i)(ip \<mapsto> []), ni_frames_out := ni_frames_out i @
        map (\<lambda>d. ipv4_frame (ni_ethernet_address i) eth (datagram_bytes d)) (waiting i ip)\<rparr>)"
proof -
  have "waiting (i\<lparr>ni_timestamps_pair := ps, ni_ip2eth := m\<rparr>) = waiting i" for ps m by simp
  then show ?thesis
    using assms opcodes(1) by (simp add: recv_arp_def Let_def send_waiting_eq)
qed

lemma recv_arp_request:
  assumes "ni_timestamps_arp i ip = None" "ipv4_numeric (ni_ip_address i) = Inr our"
  shows "\<exists>i'. recv_arp i (arp_message OPCODE_REQUEST eth ip te our) = Inr i' \<and>
    ni_ethernet_address i' = ni_ethernet_address i \<and> ni_ip_address i' = ni_ip_address i \<and>
    ni_frames_out i' = ni_frames_out i @ [arp_frame (ni_ethernet_address i) eth
      (arp_bytes (arp_message OPCODE_REPLY (ni_ethernet_address i) our eth ip))]"
  using assms by (auto simp: recv_arp_def Let_def send_arp_eq)

text \<open>Two neighbours and a datagram, for the examples.\<close>

definition host_a :: NetworkInterface where
  "host_a = NetworkInterface_init [2, 0, 0, 0, 0, 1] (ipv4_address 0x0a000001 0)"

definition host_b :: NetworkInterface where
  "host_b = NetworkInterface_init [2, 0, 0, 0, 0, 2] (ipv4_address 0x0a000002 0)"

definition small_datagram :: IPv4Datagram where
  "small_datagram = \<lparr>dg_header = IPv4Header_init\<lparr>ip_len := 23, ip_src := 0x0a000001, ip_dst := 0x0a000002\<rparr>,
     dg_payload = [[1], [2, 3]]\<rparr>"

lemma hosts_reachable: "reachable ni_start ni_step host_a" "reachable ni_start ni_step host_b"
proof -
  have "reachable ni_start ni_step (NetworkInterface_init eth ip)" for eth ip
    by (rule reachable_start) (use ni_start_def in blast)
  then show "reachable ni_start ni_step host_a" "reachable ni_start ni_step host_b"
    by (simp_all only: host_a_def host_b_def)
qed

lemma small_datagram_valid: "ipv4_datagram_valid small_datagram"
  by (simp add: ipv4_datagram_valid_def ipv4_header_ok_def IPv4Header_init_def small_datagram_def)

lemmas host_eval = host_a_def host_b_def NetworkInterface_init_def waiting_def

lemma host_a_fields:
  "ni_ip2eth host_a = Map.empty" "ni_timestamps_arp host_a = Map.empty" "waiting host_a ip = []"
  "ni_frames_out host_a = []" "ni_ethernet_address host_a = [2, 0, 0, 0, 0, 1]"
  "ni_ip_address host_a = ipv4_address 0x0a000001 0" "ni_ip2dgrams host_a = Map.empty"
  by (simp_all add: host_eval)

section \<open>Properties\<close>

text \<open>
  C20. In every state an interface can reach, datagrams wait only for addresses that are not
  known and for which a request is pending, the cache holds exactly the pairs in the queue of
  learned pairs, and neither a learned pair nor a request carries a time in the future.
\<close>

theorem interface_invariant:
  assumes "reachable ni_start ni_step i"
  shows "(waiting i ip \<noteq> [] \<longrightarrow> (\<exists>t. ni_timestamps_arp i ip = Some t) \<and> ni_ip2eth i ip = None) \<and>
    (ni_ip2eth i ip = Some eth \<longleftrightarrow> (\<exists>t. ((ip, eth), t) \<in> set (ni_timestamps_pair i))) \<and>
    (((ip, eth), t) \<in> set (ni_timestamps_pair i) \<longrightarrow> t \<le> ni_time i) \<and>
    (ni_timestamps_arp i ip = Some t \<longrightarrow> t \<le> ni_time i)"
proof -
  have wf: "ni_wf i" using interface.reachable_inv [OF assms] .
  then have "cache_ok (ni_time i) (ni_timestamps_pair i) (ni_ip2eth i)" by (simp add: ni_wf_def)
  moreover from this have "((ip, eth), t) \<in> set (ni_timestamps_pair i) \<longrightarrow> unat t \<le> unat (ni_time i)"
    by (force simp: cache_ok_def pair_ages_def)
  ultimately show ?thesis
    using wf cache_lookup by (auto simp: ni_wf_def word_le_nat_alt)
qed

theorem interface_invariant_witness:
  "reachable ni_start ni_step host_a \<and> waiting host_a 0x0a000002 = [] \<and>
   (ni_ip2eth host_a 0x0a000002 = Some [2, 0, 0, 0, 0, 2] \<longleftrightarrow>
     (\<exists>t. ((0x0a000002, [2, 0, 0, 0, 0, 2]), t) \<in> set (ni_timestamps_pair host_a)))"
  using interface_invariant [OF hosts_reachable(1), of "0x0a000002" "[2, 0, 0, 0, 0, 2]"] hosts_reachable(1)
  by (auto simp: host_eval)

text \<open>
  C21. Mappings live for 30 seconds: a tick keeps exactly those learned at most 30000
  milliseconds before the new time, and learns none.
\<close>

theorem tick_forgets_old:
  assumes "reachable ni_start ni_step i"
    and "unat (ni_time i) + unat ms < 18446744073709551616"
  shows "ni_ip2eth (ni_tick i ms) ip = Some eth \<longleftrightarrow>
    (\<exists>t. ((ip, eth), t) \<in> set (ni_timestamps_pair i) \<and> unat (ni_time i) + unat ms \<le> unat t + 30000)"
proof -
  have ok: "cache_ok (ni_time i) (ni_timestamps_pair i) (ni_ip2eth i)"
    using interface.reachable_inv [OF assms(1)] by (simp add: ni_wf_def)
  show ?thesis
    using cache_lookup [OF ni_tick_eq(2) [OF ok assms(2)]] by (simp add: ni_tick_eq(1) [OF ok assms(2)])
qed

text \<open>\<open>host_a\<close> after it has received an ARP reply from its neighbour.\<close>

definition host_a_taught :: NetworkInterface where
  "host_a_taught = host_a\<lparr>ni_timestamps_pair := [((0x0a000002, [2, 0, 0, 0, 0, 2]), 0)],
     ni_ip2eth := [0x0a000002 \<mapsto> [2, 0, 0, 0, 0, 2]]\<rparr>"

lemma host_a_taught_reachable: "reachable ni_start ni_step host_a_taught"
proof (rule reachable_step [OF hosts_reachable(1)], rule ni_recv)
  show "ni_recv_frame host_a (arp_frame [2, 0, 0, 0, 0, 2] [2, 0, 0, 0, 0, 1]
      (arp_bytes (arp_message OPCODE_REPLY [2, 0, 0, 0, 0, 2] 0x0a000002 [2, 0, 0, 0, 0, 1] 0x0a000001))) =
    Inr (host_a_taught, None)"
    by (subst recv_arp_frame) (use opcodes(1) in
        \<open>simp_all add: arp_message_valid recv_arp_def host_eval host_a_taught_def Let_def fun_upd_def\<close>)
qed

theorem tick_forgets_old_witness:
  "reachable ni_start ni_step host_a_taught \<and>
   unat (ni_time host_a_taught) + unat (30000 :: u64) < 18446744073709551616 \<and>
   ni_ip2eth (ni_tick host_a_taught 30000) 0x0a000002 = Some [2, 0, 0, 0, 0, 2] \<and>
   ni_ip2eth (ni_tick host_a_taught 30001) 0x0a000002 \<noteq> Some [2, 0, 0, 0, 0, 2]"
  using tick_forgets_old [OF host_a_taught_reachable, of 30000 "0x0a000002" "[2, 0, 0, 0, 0, 2]"]
    tick_forgets_old [OF host_a_taught_reachable, of 30001 "0x0a000002" "[2, 0, 0, 0, 0, 2]"]
    host_a_taught_reachable
  by (simp add: host_a_taught_def host_eval)

text \<open>
  C22. What \<open>send_datagram\<close> does for a next hop with an IPv4 address, on every branch: for a
  known address it sends one IPv4 frame to it and changes nothing else. Otherwise the datagram
  is queued behind those that wait for the same address, and a broadcast ARP request goes out,
  unless one for the address was sent less than five seconds ago.
\<close>

theorem send_datagram_behaviour:
  assumes "reachable ni_start ni_step i" and "ipv4_datagram_valid d"
    and "ipv4_numeric hop = Inr ip" and "ipv4_numeric (ni_ip_address i) = Inr our"
  shows "\<exists>i'. send_datagram i d hop = Inr i' \<and> ni_ip2eth i' = ni_ip2eth i \<and> ni_time i' = ni_time i \<and>
    (case ni_ip2eth i ip of
       Some eth \<Rightarrow> waiting i' = waiting i \<and> ni_timestamps_arp i' = ni_timestamps_arp i \<and>
         ni_frames_out i' = ni_frames_out i @ [ipv4_frame (ni_ethernet_address i) eth (datagram_bytes d)]
     | None \<Rightarrow> waiting i' = (waiting i)(ip := waiting i ip @ [d]) \<and>
         (if recently_asked i ip
          then ni_timestamps_arp i' = ni_timestamps_arp i \<and> ni_frames_out i' = ni_frames_out i
          else ni_timestamps_arp i' = (ni_timestamps_arp i)(ip \<mapsto> ni_time i) \<and>
            ni_frames_out i' = ni_frames_out i @ [arp_frame (ni_ethernet_address i) ETHERNET_BROADCAST
              (arp_bytes (arp_message OPCODE_REQUEST (ni_ethernet_address i) our ADDR_BROADCAST ip))]))"
proof (cases "ni_ip2eth i ip")
  case None
  have "waiting (i\<lparr>ni_ip2dgrams := (ni_ip2dgrams i)(ip \<mapsto> q)\<rparr>) = (waiting i)(ip := q)" for q
    by (simp add: waiting_upd)
  then show ?thesis
    using send_datagram_unknown [OF interface.reachable_inv [OF assms(1)] assms(3,4) None, of d] None
    by (cases "recently_asked i ip") simp_all
next
  case (Some eth)
  then show ?thesis
    using send_frame_eq [OF datagram_bytes_valid [OF assms(2)]] send_datagram_known [OF assms(3) Some]
    by simp
qed

theorem send_datagram_behaviour_witness:
  "reachable ni_start ni_step host_a \<and> ipv4_datagram_valid small_datagram \<and>
   (\<exists>i'. send_datagram host_a small_datagram (ipv4_address 0x0a000002 0) = Inr i' \<and>
      waiting i' 0x0a000002 = [small_datagram] \<and> length (ni_frames_out i') = 1)"
proof -
  have "ipv4_numeric (ni_ip_address host_a) = Inr 0x0a000001" by (simp add: host_eval)
  from send_datagram_behaviour [OF hosts_reachable(1) small_datagram_valid ipv4_numeric_address this,
      of "0x0a000002" 0]
  show ?thesis
    using hosts_reachable(1) small_datagram_valid by (auto simp: host_a_fields recently_asked_def)
qed

text \<open>
  An ARP reply for a pending request teaches the interface the address and releases the
  datagrams that waited for it, in the order they were sent, each in a frame to that address;
  nothing is left waiting and the request is no longer pending.
\<close>

theorem arp_reply_flushes:
  assumes "reachable ni_start ni_step i" and "ni_timestamps_arp i ip \<noteq> None"
    and "\<forall>d \<in> set (waiting i ip). ipv4_datagram_valid d" and "length eth = 6" and "length te = 6"
  shows "\<exists>i'. ni_recv_frame i (arp_frame src dst (arp_bytes (arp_message OPCODE_REPLY eth ip te ti))) =
      Inr (i', None) \<and>
    ni_ip2eth i' = (ni_ip2eth i)(ip \<mapsto> eth) \<and>
    waiting i' = (waiting i)(ip := []) \<and> ni_timestamps_arp i' ip = None \<and>
    ni_frames_out i' = ni_frames_out i @
      map (\<lambda>d. ipv4_frame (ni_ethernet_address i) eth (datagram_bytes d)) (waiting i ip)"
proof -
  have "ni_ip2eth i ip = None"
    using interface.reachable_inv [OF assms(1)] assms(2) by (auto simp: ni_wf_def)
  note learn = recv_arp_learns [OF this assms(3) refl assms(2)]
  show ?thesis
    unfolding recv_arp_frame [OF arp_message_valid [OF disjI2 [OF refl] assms(4,5)]] learn
    by (auto simp: waiting_def fun_eq_iff)
qed

theorem arp_reply_flushes_witness:
  "\<exists>i i'. reachable ni_start ni_step i \<and> waiting i 0x0a000002 = [small_datagram] \<and>
     ni_recv_frame i (arp_frame [2, 0, 0, 0, 0, 2] [2, 0, 0, 0, 0, 1] (arp_bytes
       (arp_message OPCODE_REPLY [2, 0, 0, 0, 0, 2] 0x0a000002 [2, 0, 0, 0, 0, 1] 0x0a000001))) = Inr (i', None) \<and>
     ni_ip2eth i' 0x0a000002 = Some [2, 0, 0, 0, 0, 2] \<and>
     ni_frames_out i' = ni_frames_out i @
       [ipv4_frame [2, 0, 0, 0, 0, 1] [2, 0, 0, 0, 0, 2] (datagram_bytes small_datagram)]"
proof -
  have our: "ipv4_numeric (ni_ip_address host_a) = Inr 0x0a000001" "ni_ip2eth host_a 0x0a000002 = None"
    by (simp_all add: host_eval)
  note send = send_datagram_unknown [OF interface.reachable_inv [OF hosts_reachable(1)]
      ipv4_numeric_address [of "0x0a000002" 0] our, of small_datagram]
  define i where "i = (case send_datagram host_a small_datagram (ipv4_address 0x0a000002 0) of
    Inl _ \<Rightarrow> host_a | Inr i \<Rightarrow> i)"
  have "send_datagram host_a small_datagram (ipv4_address 0x0a000002 0) = Inr i"
    by (simp add: i_def send)
  then have reach: "reachable ni_start ni_step i"
    using hosts_reachable(1) reachable_step ni_send by metis
  have i: "ni_timestamps_arp i 0x0a000002 \<noteq> None" "waiting i 0x0a000002 = [small_datagram]"
      "ni_ethernet_address i = [2, 0, 0, 0, 0, 1]"
    by (simp_all add: i_def send recently_asked_def host_a_fields waiting_upd)
  have "\<forall>d \<in> set (waiting i 0x0a000002). ipv4_datagram_valid d"
    using small_datagram_valid by (simp add: i(2))
  from arp_reply_flushes [OF reach i(1) this, of "[2, 0, 0, 0, 0, 2]" "[2, 0, 0, 0, 0, 1]"
      "[2, 0, 0, 0, 0, 2]" "[2, 0, 0, 0, 0, 1]" "0x0a000001"]
  obtain i' where "ni_recv_frame i (arp_frame [2, 0, 0, 0, 0, 2] [2, 0, 0, 0, 0, 1] (arp_bytes
      (arp_message OPCODE_REPLY [2, 0, 0, 0, 0, 2] 0x0a000002 [2, 0, 0, 0, 0, 1] 0x0a000001))) = Inr (i', None)"
      "ni_ip2eth i' = (ni_ip2eth i)(0x0a000002 \<mapsto> [2, 0, 0, 0, 0, 2])"
      "ni_frames_out i' = ni_frames_out i @
        [ipv4_frame [2, 0, 0, 0, 0, 1] [2, 0, 0, 0, 0, 2] (datagram_bytes small_datagram)]"
    by (auto simp: i)
  then show ?thesis using reach i by (intro exI [of _ i] exI [of _ i'] conjI) simp_all
qed

text \<open>
  C23. Address resolution works end to end: when an interface sends a datagram to a neighbour it
  knows nothing about, its request makes the neighbour reply, the reply makes it send the
  datagram, and the neighbour receives that datagram, with its checksum filled in and its
  payload in one piece.
\<close>

theorem arp_resolution_delivers:
  assumes a: "reachable ni_start ni_step a" "ni_frames_out a = []"
      "ipv4_numeric (ni_ip_address a) = Inr ip_a" "length (ni_ethernet_address a) = 6"
      "ni_ip2eth a ip_b = None" "ni_timestamps_arp a ip_b = None"
    and b: "ni_frames_out b = []" "ipv4_numeric (ni_ip_address b) = Inr ip_b"
      "length (ni_ethernet_address b) = 6" "ni_timestamps_arp b ip_a = None"
    and d: "ipv4_datagram_valid d" "ipv4_numeric hop = Inr ip_b"
  shows "\<exists>a1 request b1 reply a2 frame b2 c.
    send_datagram a d hop = Inr a1 \<and> ni_frames_out a1 = [request] \<and>
    ni_recv_frame b request = Inr (b1, None) \<and> ni_frames_out b1 = [reply] \<and>
    ni_recv_frame (a1\<lparr>ni_frames_out := []\<rparr>) reply = Inr (a2, None) \<and> ni_frames_out a2 = [frame] \<and>
    ni_recv_frame (b1\<lparr>ni_frames_out := []\<rparr>) frame =
      Inr (b2, Some \<lparr>dg_header = (dg_header d)\<lparr>ip_cksum := c\<rparr>, dg_payload = [concat (dg_payload d)]\<rparr>)"
proof -
  let ?req = "arp_message OPCODE_REQUEST (ni_ethernet_address a) ip_a ADDR_BROADCAST ip_b"
    and ?rep = "arp_message OPCODE_REPLY (ni_ethernet_address b) ip_b (ni_ethernet_address a) ip_a"
  have wf: "ni_wf a" using interface.reachable_inv [OF a(1)] .
  then have no_wait: "waiting a ip_b = []" using a(6) by (auto simp: ni_wf_def)
  have six: "length ADDR_BROADCAST = 6" by (simp add: ADDR_BROADCAST_def)
  define a1 where "a1 = a\<lparr>ni_ip2dgrams := (ni_ip2dgrams a)(ip_b \<mapsto> [d]),
    ni_timestamps_arp := (ni_timestamps_arp a)(ip_b \<mapsto> ni_time a)\<rparr>"
  have s: "send_datagram a d hop = Inr (a1\<lparr>ni_frames_out :=
      [arp_frame (ni_ethernet_address a) ETHERNET_BROADCAST (arp_bytes ?req)]\<rparr>)"
    using send_datagram_unknown [OF wf d(2) a(3,5), of d] a(2,6) no_wait
    by (simp add: a1_def recently_asked_def)
  obtain b1 where b1: "recv_arp b ?req = Inr b1" "ni_ethernet_address b1 = ni_ethernet_address b"
      "ni_frames_out b1 = [arp_frame (ni_ethernet_address b) (ni_ethernet_address a) (arp_bytes ?rep)]"
    using recv_arp_request [OF b(4,2)] b(1) by fastforce
  note req = recv_arp_frame [OF arp_message_valid [OF disjI1 [OF refl] a(4) six]]
  have a1: "ni_ip2eth (a1\<lparr>ni_frames_out := []\<rparr>) ip_b = None"
      "\<forall>d \<in> set (waiting (a1\<lparr>ni_frames_out := []\<rparr>) ip_b). ipv4_datagram_valid d"
      "ni_timestamps_arp (a1\<lparr>ni_frames_out := []\<rparr>) ip_b \<noteq> None" "waiting a1 ip_b = [d]"
      "ni_ethernet_address a1 = ni_ethernet_address a"
    using a(5) d(1) by (simp_all add: a1_def waiting_def)
  note rep = recv_arp_frame [OF arp_message_valid [OF disjI2 [OF refl] b(3) a(4)]]
    recv_arp_learns [OF a1(1,2) refl a1(3)]
  have frame: "ni_recv_frame (b1\<lparr>ni_frames_out := []\<rparr>) (ipv4_frame src (ni_ethernet_address b) (datagram_bytes d)) =
      Inr (b1\<lparr>ni_frames_out := []\<rparr>, Some (ipv4_datagram_filled d))" for src
    using recv_ipv4_frame [OF d(1) datagram_bytes_valid [OF d(1)], of "b1\<lparr>ni_frames_out := []\<rparr>"] b1(2) by simp
  show ?thesis
    using s b1 frame [unfolded ipv4_datagram_filled_def] by (simp add: req rep a1(4,5)) blast
qed

theorem arp_resolution_delivers_witness:
  "\<exists>a1 request b1 reply a2 frame b2 c.
     send_datagram host_a small_datagram (ipv4_address 0x0a000002 0) = Inr a1 \<and>
     ni_frames_out a1 = [request] \<and>
     ni_recv_frame host_b request = Inr (b1, None) \<and> ni_frames_out b1 = [reply] \<and>
     ni_recv_frame (a1\<lparr>ni_frames_out := []\<rparr>) reply = Inr (a2, None) \<and> ni_frames_out a2 = [frame] \<and>
     ni_recv_frame (b1\<lparr>ni_frames_out := []\<rparr>) frame =
       Inr (b2, Some \<lparr>dg_header = (dg_header small_datagram)\<lparr>ip_cksum := c\<rparr>, dg_payload = [[1, 2, 3]]\<rparr>)"
  using arp_resolution_delivers [OF hosts_reachable(1), of "0x0a000001" "0x0a000002" host_b small_datagram
      "ipv4_address 0x0a000002 0"] small_datagram_valid
  by (simp add: host_eval small_datagram_def [THEN arg_cong [of _ _ dg_payload]])

text \<open>
  Frames are not filtered: every frame that is not an IPv4 frame for the interface is taken for
  an ARP message, whatever its type and its destination. An IPv4 frame for another host whose
  payload happens to be an ARP message changes the cache.
\<close>

theorem foreign_frame_learned:
  "\<exists>f i'. eth_type (ef_header f) = TYPE_IPv4 \<and> eth_dst (ef_header f) \<noteq> ni_ethernet_address host_a \<and>
     eth_dst (ef_header f) \<noteq> ETHERNET_BROADCAST \<and> ni_recv_frame host_a f = Inr (i', None) \<and>
     ni_ip2eth host_a 0x0a000003 = None \<and> ni_ip2eth i' 0x0a000003 = Some [2, 0, 0, 0, 0, 3]"
proof -
  let ?m = "arp_message OPCODE_REPLY [2, 0, 0, 0, 0, 3] 0x0a000003 [2, 0, 0, 0, 0, 9] 0x0a000009"
  have "arp_valid ?m" by (rule arp_message_valid) simp_all
  then obtain b where "arp_parse ARPMessage_init b = (NoError, ?m)" using arp_parse_serialize by blast
  then show ?thesis
    using opcodes(1)
    by (intro exI [of _ "ipv4_frame [2, 0, 0, 0, 0, 3] [2, 0, 0, 0, 0, 9] [b]"])
      (simp add: ni_recv_frame_def ipv4_frame_def recv_arp_def host_eval Let_def ETHERNET_BROADCAST_def)
qed

end
