(* ===== verification/Router.thy ===== *)
theory Router
  imports Network_Interface
begin

text \<open>
  \<open>AsyncNetworkInterface\<close>, the routing trie \<open>BST\<close> and \<open>Router\<close>
  (\<open>src/libsponge/router.hh\<close>, \<open>router.cc\<close>): datagrams received on any interface are forwarded to
  the interface and next hop of the longest matching prefix. Nodes of the trie are owned by
  their parents, so the pointers are a tree; the diagnostic output of \<open>add_route\<close> is left out.
\<close>

section \<open>State and operations\<close>

record AsyncNetworkInterface =
  ai_interface :: NetworkInterface
  ai_datagrams_out :: "IPv4Datagram list"

definition async_of_interface :: "NetworkInterface \<Rightarrow> AsyncNetworkInterface" where
  "async_of_interface i = \<lparr>ai_interface = i, ai_datagrams_out = []\<rparr>"

definition async_recv_frame :: "AsyncNetworkInterface \<Rightarrow> EthernetFrame \<Rightarrow> AsyncNetworkInterface res" where
  "async_recv_frame ai frame =
     bindE (ni_recv_frame (ai_interface ai) frame) (\<lambda>(i, optional_dgram).
       let ai = ai\<lparr>ai_interface := i\<rparr> in
       case optional_dgram of
         None \<Rightarrow> Inr ai
       | Some dgram \<Rightarrow> Inr (ai\<lparr>ai_datagrams_out := ai_datagrams_out ai @ [dgram]\<rparr>))"

text \<open>A null pointer is \<open>Null\<close>.\<close>

datatype Node = Null
  | Node (num_interface: u64) (node_data: "Address option") (has_data: bool) (left_node: Node) (right_node: Node)

definition new_Node :: Node where
  "new_Node = Node 0 None False Null Null"

text \<open>The remaining length is counted down to 0; it is never decremented below.\<close>

fun bst_Insert :: "Node \<Rightarrow> u32 \<Rightarrow> nat \<Rightarrow> u64 \<Rightarrow> Address option \<Rightarrow> Node" where
  "bst_Insert Null prefix len num addr = Null"
| "bst_Insert (Node n d h l r) prefix 0 num addr = Node num addr True l r"
| "bst_Insert (Node n d h l r) prefix (Suc len) num addr =
     (if drop_bit 31 prefix = 0
      then Node n d h (bst_Insert (if l = Null then new_Node else l) (push_bit 1 prefix) len num addr) r
      else Node n d h l (bst_Insert (if r = Null then new_Node else r) (push_bit 1 prefix) len num addr))"

text \<open>The loop of \<open>route_one_datagram\<close>, with \<open>Suc i\<close> for the loop variable \<open>i\<close> and \<open>0\<close> once it has
  become negative.\<close>

fun bst_walk :: "u32 \<Rightarrow> nat \<Rightarrow> Node \<Rightarrow> Node \<Rightarrow> Node" where
  "bst_walk ip 0 cur valid_parent = cur"
| "bst_walk ip (Suc i) cur valid_parent =
     (if ip AND push_bit i 1 = 0 then
        if left_node cur = Null then (if right_node cur \<noteq> Null then valid_parent else cur)
        else
          let cur = left_node cur in
          bst_walk ip i cur (if has_data cur then cur else valid_parent)
      else
        if right_node cur = Null then (if left_node cur \<noteq> Null then valid_parent else cur)
        else
          let cur = right_node cur in
          bst_walk ip i cur (if has_data cur then cur else valid_parent))"

record Router =
  rt_bst :: Node
  rt_interfaces :: "AsyncNetworkInterface list"

definition Router_init :: Router where
  "Router_init = \<lparr>rt_bst = new_Node, rt_interfaces = []\<rparr>"

definition add_interface :: "Router \<Rightarrow> AsyncNetworkInterface \<Rightarrow> Router \<times> u64" where
  "add_interface r ai =
     (let r = r\<lparr>rt_interfaces := rt_interfaces r @ [ai]\<rparr> in (r, sz (rt_interfaces r) - 1))"

definition rt_interface :: "Router \<Rightarrow> u64 \<Rightarrow> AsyncNetworkInterface res" where
  "rt_interface r N =
     (if unat N < length (rt_interfaces r) then Inr (rt_interfaces r ! unat N) else Inl Out_Of_Range)"

definition add_route :: "Router \<Rightarrow> u32 \<Rightarrow> u8 \<Rightarrow> Address option \<Rightarrow> u64 \<Rightarrow> Router" where
  "add_route r route_prefix prefix_length next_hop interface_num =
     r\<lparr>rt_bst := bst_Insert (rt_bst r) route_prefix (unat prefix_length) interface_num next_hop\<rparr>"

text \<open>A datagram sent on one of the interfaces.\<close>

definition rt_send :: "Router \<Rightarrow> u64 \<Rightarrow> IPv4Datagram \<Rightarrow> Address \<Rightarrow> Router res" where
  "rt_send r N dgram next_hop =
     bindE (rt_interface r N) (\<lambda>ai.
       bindE (send_datagram (ai_interface ai) dgram next_hop) (\<lambda>i.
         Inr (r\<lparr>rt_interfaces := (rt_interfaces r)[unat N := ai\<lparr>ai_interface := i\<rparr>]\<rparr>)))"

definition route_one_datagram :: "Router \<Rightarrow> IPv4Datagram \<Rightarrow> Router res" where
  "route_one_datagram r dgram =
     (let ip = ip_dst (dg_header dgram);
          cur = bst_walk ip 32 (rt_bst r) (rt_bst r)
      in
      if ip_ttl (dg_header dgram) < 2 then Inr r
      else
        let dgram = dgram\<lparr>dg_header := (dg_header dgram)\<lparr>ip_ttl := ip_ttl (dg_header dgram) - 1\<rparr>\<rparr> in
        case node_data cur of
          Some next_hop \<Rightarrow> rt_send r (num_interface cur) dgram next_hop
        | None \<Rightarrow> bindE (from_ipv4_numeric ip) (\<lambda>next_hop. rt_send r (num_interface cur) dgram next_hop))"

definition rt_queue :: "Router \<Rightarrow> nat \<Rightarrow> IPv4Datagram list" where
  "rt_queue r k = ai_datagrams_out (rt_interfaces r ! k)"

definition rt_pop :: "Router \<Rightarrow> nat \<Rightarrow> Router" where
  "rt_pop r k = r\<lparr>rt_interfaces :=
     (rt_interfaces r)[k := (rt_interfaces r ! k)\<lparr>ai_datagrams_out := tl (rt_queue r k)\<rparr>]\<rparr>"

lemma rt_send_queues:
  assumes "rt_send r N d hop = Inr r'"
  shows "length (rt_interfaces r') = length (rt_interfaces r)" "rt_queue r' k = rt_queue r k" "rt_bst r' = rt_bst r"
  using assms
  by (auto simp: rt_send_def rt_interface_def bindE_eq_Inr rt_queue_def nth_list_update split: if_splits)

lemma route_one_queues:
  assumes "route_one_datagram r d = Inr r'"
  shows "length (rt_interfaces r') = length (rt_interfaces r)" "rt_queue r' k = rt_queue r k" "rt_bst r' = rt_bst r"
  using assms
  by (auto simp: route_one_datagram_def Let_def bindE_eq_Inr dest: rt_send_queues split: if_splits option.splits)

lemma rt_pop_queue:
  "k < length (rt_interfaces r) \<Longrightarrow> rt_queue (rt_pop r k) k' = (if k' = k then tl (rt_queue r k) else rt_queue r k')"
  by (auto simp: rt_pop_def rt_queue_def nth_list_update)

text \<open>The inner loop of \<open>route\<close>, which ends because the queue gets shorter.\<close>

function route_queue :: "Router \<Rightarrow> nat \<Rightarrow> Router res" where
  "route_queue r k =
     (if k < length (rt_interfaces r) \<and> rt_queue r k \<noteq> []
      then bindE (route_one_datagram r (hd (rt_queue r k))) (\<lambda>r. route_queue (rt_pop r k) k)
      else Inr r)"
  by pat_completeness auto
termination
  by (relation "measure (\<lambda>(r, k). length (rt_queue r k))")
    (simp_all add: route_one_queues rt_pop_queue)

declare route_queue.simps [simp del]

fun route_from :: "nat list \<Rightarrow> Router \<Rightarrow> Router res" where
  "route_from [] r = Inr r"
| "route_from (k # ks) r = bindE (route_queue r k) (\<lambda>r. route_from ks r)"

definition route :: "Router \<Rightarrow> Router res" where
  "route r = route_from [0 ..< length (rt_interfaces r)] r"

section \<open>The trie as a map from prefixes\<close>

text \<open>The first \<open>n\<close> bits of an address, the most significant first.\<close>

definition prefix_bits :: "u32 \<Rightarrow> nat \<Rightarrow> bool list" where
  "prefix_bits p n = map (\<lambda>i. i \<le> 31 \<and> bit p (31 - i)) [0 ..< n]"

lemma length_prefix_bits [simp]: "length (prefix_bits p n) = n"
  by (simp add: prefix_bits_def)

lemma top_bit: "drop_bit 31 (p :: u32) = 0 \<longleftrightarrow> \<not> bit p 31"
proof -
  have z: "bit p (31 + n) \<Longrightarrow> n = 0" for n using bit_imp_le_length [of p "31 + n"] by simp
  then have "(\<forall>n. \<not> bit p (31 + n)) \<longleftrightarrow> \<not> bit p 31" by (metis add.right_neutral)
  moreover have "drop_bit 31 p = 0 \<longleftrightarrow> (\<forall>n. \<not> bit p (31 + n))"
    unfolding bit_eq_iff [of "drop_bit 31 p"] bit_drop_bit_eq
    by (auto dest: z) (metis z zero_less_numeral)
  ultimately show ?thesis by simp
qed

lemma shifted_bit: "i \<le> 31 \<Longrightarrow> bit (push_bit 1 (p :: u32)) (31 - i) \<longleftrightarrow> Suc i \<le> 31 \<and> bit p (31 - Suc i)"
  unfolding bit_push_bit_iff by auto

lemma prefix_bits_Suc: "prefix_bits p (Suc n) = bit p 31 # prefix_bits (push_bit 1 p) n"
proof -
  have "(Suc i \<le> 31 \<and> bit p (31 - Suc i)) = (i \<le> 31 \<and> bit (push_bit 1 p) (31 - i))" for i
    using shifted_bit [of i p] by auto
  then show ?thesis
    unfolding prefix_bits_def upt_conv_Cons [OF zero_less_Suc] map_Suc_upt [symmetric]
    by (simp only: list.map map_map comp_def) simp
qed

definition child :: "bool \<Rightarrow> Node \<Rightarrow> Node" where
  "child b t = (if b then right_node t else left_node t)"

fun node_at :: "Node \<Rightarrow> bool list \<Rightarrow> Node" where
  "node_at t [] = t"
| "node_at t (b # bs) = (if t = Null then Null else node_at (child b t) bs)"

definition entry :: "Node \<Rightarrow> bool list \<Rightarrow> (u64 \<times> Address option) option" where
  "entry t bs = (let v = node_at t bs in
     if v \<noteq> Null \<and> has_data v then Some (num_interface v, node_data v) else None)"

lemma node_at_Null [simp]: "node_at Null bs = Null"
  by (cases bs) simp_all

lemma entry_Null [simp]: "entry Null bs = None"
  by (simp add: entry_def)

lemma entry_Cons [simp]: "entry (Node n d h l r) (b # bs) = entry (if b then r else l) bs"
  by (simp add: entry_def child_def)

lemma entry_Nil [simp]: "entry (Node n d h l r) [] = (if h then Some (n, d) else None)"
  by (simp add: entry_def)

lemma entry_new [simp]: "entry new_Node bs = None"
  by (cases bs) (simp_all add: new_Node_def)

lemma bst_Insert_Null [simp]: "bst_Insert t p len n a = Null \<longleftrightarrow> t = Null"
  by (cases t; cases len) auto

lemma entry_Insert:
  "t \<noteq> Null \<Longrightarrow> entry (bst_Insert t p len n a) bs =
     (if bs = prefix_bits p len then Some (n, a) else entry t bs)"
proof (induction t p len n a arbitrary: bs rule: bst_Insert.induct)
  case (2 n d h l r p num addr)
  then show ?case by (cases bs) (auto simp: prefix_bits_def)
next
  case (3 n d h l r p len num addr)
  have "new_Node \<noteq> Null" by (simp add: new_Node_def)
  then show ?case
    using 3 by (cases bs) (auto simp: prefix_bits_Suc top_bit)
qed simp

section \<open>The walk finds the longest prefix\<close>

text \<open>A node without children has data, except for the root of an empty trie.\<close>

fun leaves_ok :: "Node \<Rightarrow> bool" where
  "leaves_ok Null = True"
| "leaves_ok (Node n d h l r) \<longleftrightarrow> (l = Null \<and> r = Null \<longrightarrow> h) \<and> leaves_ok l \<and> leaves_ok r"

fun depth :: "Node \<Rightarrow> nat" where
  "depth Null = 0"
| "depth (Node n d h l r) = (if l = Null \<and> r = Null then 0 else Suc (max (depth l) (depth r)))"

definition trie_ok :: "Node \<Rightarrow> bool" where
  "trie_ok t \<longleftrightarrow> t \<noteq> Null \<and> leaves_ok (left_node t) \<and> leaves_ok (right_node t) \<and> depth t \<le> 32"

lemma leaves_ok_new: "leaves_ok (left_node new_Node)" "leaves_ok (right_node new_Node)" "new_Node \<noteq> Null"
  by (simp_all add: new_Node_def)

lemma leaves_ok_Insert:
  "t \<noteq> Null \<Longrightarrow> leaves_ok (left_node t) \<Longrightarrow> leaves_ok (right_node t) \<Longrightarrow> leaves_ok (bst_Insert t p len n a)"
proof (induction t p len n a rule: bst_Insert.induct)
  case (3 n d h l r p len num addr)
  have "leaves_ok (left_node c) \<and> leaves_ok (right_node c)" if "leaves_ok c" "c \<noteq> Null" for c
    using that by (cases c) auto
  then show ?case
    using 3 leaves_ok_new by auto
qed simp_all

lemma depth_Insert:
  "t \<noteq> Null \<Longrightarrow> depth (bst_Insert t p len n a) \<le> max (depth t) len"
proof (induction t p len n a rule: bst_Insert.induct)
  case (3 n d h l r p len num addr)
  have "depth new_Node = 0" by (simp add: new_Node_def)
  then show ?case
    using 3 leaves_ok_new(3) by (cases "drop_bit 31 p = 0") auto
qed simp_all

lemma trie_ok_Insert: "trie_ok t \<Longrightarrow> len \<le> 32 \<Longrightarrow> trie_ok (bst_Insert t p len n a)"
proof -
  assume t: "trie_ok t" "len \<le> 32"
  then have "leaves_ok (bst_Insert t p len n a)" by (auto simp: trie_ok_def intro: leaves_ok_Insert)
  moreover have "depth (bst_Insert t p len n a) \<le> 32"
    using t depth_Insert [of t p len n a] by (auto simp: trie_ok_def)
  ultimately show ?thesis
    using t by (cases "bst_Insert t p len n a") (auto simp: trie_ok_def)
qed

text \<open>The last node with data on the path of an address, or the given default.\<close>

fun last_data :: "bool list \<Rightarrow> Node \<Rightarrow> Node \<Rightarrow> Node" where
  "last_data [] t v = v"
| "last_data (b # bs) t v =
     (let c = child b t in if c = Null then v else last_data bs c (if has_data c then c else v))"

lemma bst_walk_Suc:
  "bst_walk ip (Suc i) t v =
     (let c = child (bit ip i) t in
      if c = Null then (if child (\<not> bit ip i) t \<noteq> Null then v else t)
      else bst_walk ip i c (if has_data c then c else v))"
proof -
  have "ip AND push_bit i 1 = 0 \<longleftrightarrow> \<not> bit ip i"
    by (simp add: bit_iff_and_push_bit_not_eq_0)
  then show ?thesis by (simp add: child_def Let_def)
qed

lemma bst_walk_last_data:
  assumes "t \<noteq> Null" "leaves_ok (left_node t)" "leaves_ok (right_node t)" "depth t \<le> i"
    and "has_data t \<longrightarrow> v = t" "child True t = Null \<and> child False t = Null \<longrightarrow> v = t"
  shows "bst_walk ip i t v = last_data (map (bit ip) (rev [0 ..< i])) t v"
  using assms
proof (induction i arbitrary: t v)
  case 0
  then have "child True t = Null" "child False t = Null"
    by (cases t; simp add: child_def split: if_splits)+
  then show ?case using 0 by simp
next
  case (Suc i)
  let ?c = "child (bit ip i) t"
  show ?case
  proof (cases "?c = Null")
    case True
    then have "child (\<not> bit ip i) t = Null \<longrightarrow> v = t" using Suc.prems(6) by (cases "bit ip i") auto
    then show ?thesis using True by (simp only: bst_walk_Suc) (simp add: Let_def)
  next
    case False
    have c: "leaves_ok ?c" "depth ?c \<le> i" using Suc.prems False
      by (cases t; auto simp: child_def split: if_splits)+
    have "bst_walk ip i ?c (if has_data ?c then ?c else v) =
        last_data (map (bit ip) (rev [0 ..< i])) ?c (if has_data ?c then ?c else v)"
      using c False by (intro Suc.IH) (cases ?c; auto simp: child_def)+
    then show ?thesis using False by (simp only: bst_walk_Suc) (simp add: Let_def)
  qed
qed

text \<open>The longest entry on the path decides.\<close>

lemma entry_child: "t \<noteq> Null \<Longrightarrow> entry t (b # bs) = entry (child b t) bs"
  by (simp add: entry_def)

lemma last_data_none:
  "t \<noteq> Null \<Longrightarrow> (\<And>k. 0 < k \<Longrightarrow> k \<le> length bs \<Longrightarrow> entry t (take k bs) = None) \<Longrightarrow> last_data bs t v = v"
proof (induction bs arbitrary: t)
  case (Cons b bs)
  let ?c = "child b t"
  have sub: "entry ?c (take k bs) = None" if "k \<le> length bs" for k
    using Cons.prems(2) [of "Suc k"] that by (simp add: entry_child [OF Cons.prems(1)])
  show ?case
  proof (cases "?c = Null")
    case False
    then have "\<not> has_data ?c" using sub [of 0] by (auto simp: entry_def Let_def split: if_splits)
    then show ?thesis using Cons.IH [of ?c] False sub by (simp add: Let_def)
  qed simp
qed simp

lemma last_data_longest:
  assumes "t \<noteq> Null" "0 < k" "k \<le> length bs" "entry t (take k bs) = Some e"
    and "\<And>j. k < j \<Longrightarrow> j \<le> length bs \<Longrightarrow> entry t (take j bs) = None"
  shows "(num_interface (last_data bs t v), node_data (last_data bs t v)) = e"
  using assms
proof (induction bs arbitrary: t k v)
  case (Cons b bs)
  let ?c = "child b t"
  obtain k' where k: "k = Suc k'" using Cons.prems(2) by (cases k) auto
  have e: "entry ?c (take k' bs) = Some e"
    using Cons.prems(4) by (simp add: k entry_child [OF Cons.prems(1)])
  then have c: "?c \<noteq> Null" by auto
  have later: "entry ?c (take j bs) = None" if "k' < j" "j \<le> length bs" for j
    using Cons.prems(5) [of "Suc j"] that by (simp add: k entry_child [OF Cons.prems(1)])
  show ?case
  proof (cases "k' = 0")
    case True
    have "last_data bs ?c ?c = ?c" by (rule last_data_none) (use c later True in auto)
    then show ?thesis using e c True by (auto simp: Let_def entry_def split: if_splits)
  next
    case False
    then show ?thesis using Cons.IH [OF c _ _ e later] Cons.prems(3) c by (simp add: k Let_def)
  qed
qed simp

lemma prefix_bits_32: "map (bit ip) (rev [0 ..< 32]) = prefix_bits ip 32"
  by (rule nth_equalityI) (auto simp: prefix_bits_def rev_nth)

lemma take_prefix_bits: "k \<le> n \<Longrightarrow> take k (prefix_bits ip n) = prefix_bits ip k"
  by (simp add: prefix_bits_def take_map)

lemma bst_walk_longest:
  assumes ok: "trie_ok t" and k: "k \<le> 32"
    and none: "\<And>j. k < j \<Longrightarrow> j \<le> 32 \<Longrightarrow> entry t (prefix_bits ip j) = None"
  shows "entry t (prefix_bits ip k) = Some e \<Longrightarrow>
      (num_interface (bst_walk ip 32 t t), node_data (bst_walk ip 32 t t)) = e"
    and "k = 0 \<Longrightarrow> bst_walk ip 32 t t = t"
proof -
  have walk: "bst_walk ip 32 t t = last_data (prefix_bits ip 32) t t"
    unfolding prefix_bits_32 [symmetric]
    using ok by (intro bst_walk_last_data) (auto simp: trie_ok_def)
  have t: "t \<noteq> Null" using ok by (simp add: trie_ok_def)
  show root: "bst_walk ip 32 t t = t" if "k = 0"
    unfolding walk using that none t by (intro last_data_none) (simp_all add: take_prefix_bits)
  assume e: "entry t (prefix_bits ip k) = Some e"
  show "(num_interface (bst_walk ip 32 t t), node_data (bst_walk ip 32 t t)) = e"
  proof (cases "k = 0")
    case True
    then show ?thesis using root e t by (auto simp: prefix_bits_def entry_def split: if_splits)
  next
    case False
    then show ?thesis
      unfolding walk using e none k t
      by (intro last_data_longest [of _ k]) (simp_all add: take_prefix_bits)
  qed
qed

lemma last_data_has: "last_data bs t v = v \<or> last_data bs t v \<noteq> Null \<and> has_data (last_data bs t v)"
proof (induction bs arbitrary: t v)
  case (Cons b bs)
  let ?c = "child b t"
  show ?case using Cons.IH [of ?c ?c] Cons.IH [of ?c v] by (auto simp: Let_def)
qed simp

lemma bst_walk_has:
  assumes "trie_ok t"
  shows "bst_walk ip 32 t t = t \<or> bst_walk ip 32 t t \<noteq> Null \<and> has_data (bst_walk ip 32 t t)"
proof -
  have "bst_walk ip 32 t t = last_data (map (bit ip) (rev [0 ..< 32])) t t"
    using assms by (intro bst_walk_last_data) (auto simp: trie_ok_def)
  then show ?thesis using last_data_has [of "map (bit ip) (rev [0 ..< 32])" t t] by simp
qed

section \<open>The routing table\<close>

text \<open>A route as \<open>add_route\<close> gets it: prefix, prefix length, next hop and interface.\<close>

type_synonym route_entry = "u32 \<times> u8 \<times> Address option \<times> u64"

definition re_len :: "route_entry \<Rightarrow> nat" where
  "re_len e = unat (fst (snd e))"

definition re_target :: "route_entry \<Rightarrow> u64 \<times> Address option" where
  "re_target e = (snd (snd (snd e)), fst (snd (snd e)))"

text \<open>The high-order bits of the prefix are those of the address.\<close>

definition re_matches :: "route_entry \<Rightarrow> u32 \<Rightarrow> bool" where
  "re_matches e ip \<longleftrightarrow> drop_bit (32 - re_len e) (fst e) = drop_bit (32 - re_len e) ip"

definition add_routes :: "route_entry list \<Rightarrow> Router \<Rightarrow> Router" where
  "add_routes es r = foldl (\<lambda>r (prefix, len, hop, num). add_route r prefix len hop num) r es"

lemma drop_bit_eq_iff_bits:
  "drop_bit k (a :: u32) = drop_bit k b \<longleftrightarrow> (\<forall>n. k + n < 32 \<longrightarrow> bit a (k + n) = bit b (k + n))"
proof
  assume eq: "drop_bit k a = drop_bit k b"
  have "bit a (k + n) = bit b (k + n)" for n
    using arg_cong [OF eq, of "\<lambda>w. bit w n"] by (simp only: bit_drop_bit_eq comp_def)
  then show "\<forall>n. k + n < 32 \<longrightarrow> bit a (k + n) = bit b (k + n)" by simp
next
  assume eq: "\<forall>n. k + n < 32 \<longrightarrow> bit a (k + n) = bit b (k + n)"
  show "drop_bit k a = drop_bit k b"
  proof (rule bit_word_eqI)
    fix n :: nat
    have "bit a (k + n) = bit b (k + n)"
      using eq bit_imp_le_length [of a "k + n"] bit_imp_le_length [of b "k + n"] by auto
    then show "bit (drop_bit k a) n = bit (drop_bit k b) n" by (simp only: bit_drop_bit_eq comp_def)
  qed
qed

lemma re_matches_bits:
  assumes "re_len e \<le> 32"
  shows "re_matches e ip \<longleftrightarrow> prefix_bits (fst e) (re_len e) = prefix_bits ip (re_len e)"
proof -
  have "prefix_bits (fst e) (re_len e) = prefix_bits ip (re_len e) \<longleftrightarrow>
      (\<forall>i < re_len e. bit (fst e) (31 - i) = bit ip (31 - i))"
    using assms by (auto simp: prefix_bits_def list_eq_iff_nth_eq)
  also have "\<dots> \<longleftrightarrow> (\<forall>n. n < re_len e \<longrightarrow> bit (fst e) (32 - re_len e + n) = bit ip (32 - re_len e + n))"
  proof (rule iffI; intro allI impI)
    fix n assume eq: "\<forall>i < re_len e. bit (fst e) (31 - i) = bit ip (31 - i)" and n: "n < re_len e"
    have "31 - (re_len e - 1 - n) = 32 - re_len e + n" using n assms by simp
    then show "bit (fst e) (32 - re_len e + n) = bit ip (32 - re_len e + n)"
      using eq [rule_format, of "re_len e - 1 - n"] n by simp
  next
    fix i assume eq: "\<forall>n. n < re_len e \<longrightarrow> bit (fst e) (32 - re_len e + n) = bit ip (32 - re_len e + n)"
      and i: "i < re_len e"
    have "32 - re_len e + (re_len e - 1 - i) = 31 - i" using i assms by simp
    then show "bit (fst e) (31 - i) = bit ip (31 - i)"
      using eq [rule_format, of "re_len e - 1 - i"] i by simp
  qed
  also have "\<dots> \<longleftrightarrow> re_matches e ip"
  proof -
    have "32 - re_len e + n < 32 \<longleftrightarrow> n < re_len e" for n using assms by auto
    then show ?thesis by (simp only: re_matches_def drop_bit_eq_iff_bits)
  qed
  finally show ?thesis by simp
qed

lemma entry_add_routes:
  assumes "rt_bst r \<noteq> Null"
  shows "rt_bst (add_routes es r) \<noteq> Null \<and> entry (rt_bst (add_routes es r)) bs =
    (case rev (filter (\<lambda>e. prefix_bits (fst e) (re_len e) = bs) es) of
       [] \<Rightarrow> entry (rt_bst r) bs | e # _ \<Rightarrow> Some (re_target e))"
proof (induction es rule: rev_induct)
  case Nil
  then show ?case using assms by (simp add: add_routes_def)
next
  case (snoc e es)
  obtain p l h n where e: "e = (p, l, h, n)" by (cases e) auto
  have step: "add_routes (es @ [e]) r = add_route (add_routes es r) p l h n"
    by (simp add: add_routes_def e)
  have "rt_bst (add_routes es r) \<noteq> Null" using snoc by simp
  then show ?case
    unfolding step using snoc
    by (simp add: add_route_def entry_Insert) (simp add: e re_len_def re_target_def eq_commute)
qed

lemma trie_ok_add_routes:
  assumes "trie_ok (rt_bst r)" "\<forall>e \<in> set es. re_len e \<le> 32"
  shows "trie_ok (rt_bst (add_routes es r))"
  using assms(2)
proof (induction es rule: rev_induct)
  case Nil
  then show ?case using assms(1) by (simp add: add_routes_def)
next
  case (snoc e es)
  then show ?case
    by (cases e) (simp add: add_routes_def add_route_def re_len_def trie_ok_Insert)
qed

lemma trie_ok_new: "trie_ok new_Node"
  by (simp add: trie_ok_def new_Node_def)

text \<open>The routes whose prefix is the given number of leading bits of an address.\<close>

definition routes_at :: "route_entry list \<Rightarrow> u32 \<Rightarrow> nat \<Rightarrow> route_entry list" where
  "routes_at es ip n = filter (\<lambda>e. re_len e = n \<and> re_matches e ip) es"

lemma entry_routes_at:
  assumes len: "\<forall>e \<in> set es. re_len e \<le> 32"
  shows "entry (rt_bst (add_routes es Router_init)) (prefix_bits ip n) =
    (case rev (routes_at es ip n) of [] \<Rightarrow> None | e # _ \<Rightarrow> Some (re_target e))"
proof -
  have "filter (\<lambda>e. prefix_bits (fst e) (re_len e) = prefix_bits ip n) es = routes_at es ip n"
    unfolding routes_at_def
  proof (rule filter_cong [OF refl])
    fix e assume "e \<in> set es"
    then have "re_matches e ip \<longleftrightarrow> prefix_bits (fst e) (re_len e) = prefix_bits ip (re_len e)"
      using len by (simp add: re_matches_bits)
    moreover have "prefix_bits (fst e) (re_len e) = prefix_bits ip n \<Longrightarrow> re_len e = n"
      using length_prefix_bits by metis
    ultimately show "(prefix_bits (fst e) (re_len e) = prefix_bits ip n) = (re_len e = n \<and> re_matches e ip)"
      by auto
  qed
  moreover have "rt_bst Router_init = new_Node" by (simp add: Router_init_def)
  ultimately show ?thesis
    using entry_add_routes [of Router_init es "prefix_bits ip n"] leaves_ok_new(3)
    by (simp cong: list.case_cong)
qed

lemma routes_at_last:
  assumes "k < length es" "re_matches (es ! k) ip"
    and "\<forall>j < length es. re_matches (es ! j) ip \<longrightarrow>
      re_len (es ! j) < re_len (es ! k) \<or> re_len (es ! j) = re_len (es ! k) \<and> j \<le> k"
  shows "\<exists>xs. rev (routes_at es ip (re_len (es ! k))) = es ! k # xs"
    and "re_len (es ! k) < n \<Longrightarrow> routes_at es ip n = []"
proof -
  have "\<not> (re_len e = re_len (es ! k) \<and> re_matches e ip)" if "e \<in> set (drop (Suc k) es)" for e
  proof -
    obtain i where i: "i < length (drop (Suc k) es)" "e = drop (Suc k) es ! i"
      using \<open>e \<in> set (drop (Suc k) es)\<close> by (auto simp only: in_set_conv_nth)
    then have "Suc k + i < length es" "e = es ! (Suc k + i)" by simp_all
    then show ?thesis using assms(3) by fastforce
  qed
  then have "routes_at (drop (Suc k) es) ip (re_len (es ! k)) = []"
    by (auto simp: routes_at_def filter_empty_conv)
  moreover define m where "m = re_len (es ! k)"
  have "filter P (take k es @ es ! k # drop (Suc k) es) =
      filter P (take k es) @ es ! k # filter P (drop (Suc k) es)" if "P (es ! k)" for P
    using that by simp
  then have "routes_at es ip m = routes_at (take k es) ip m @ es ! k # routes_at (drop (Suc k) es) ip m"
    using assms(2) id_take_nth_drop [OF assms(1)] by (simp add: routes_at_def m_def)
  ultimately have "routes_at es ip (re_len (es ! k)) = routes_at (take k es) ip (re_len (es ! k)) @ [es ! k]"
    by (simp add: m_def)
  then show "\<exists>xs. rev (routes_at es ip (re_len (es ! k))) = es ! k # xs" by simp
  show "routes_at es ip n = []" if "re_len (es ! k) < n"
    using assms(3) that by (fastforce simp: routes_at_def filter_empty_conv in_set_conv_nth)
qed

lemma bst_root_kept:
  "t \<noteq> Null \<Longrightarrow> 0 < len \<Longrightarrow> num_interface (bst_Insert t p len n a) = num_interface t \<and>
     node_data (bst_Insert t p len n a) = node_data t"
  by (cases t; cases len) auto

lemma add_routes_root:
  assumes "rt_bst r \<noteq> Null" "\<forall>e \<in> set es. re_len e \<noteq> 0"
  shows "num_interface (rt_bst (add_routes es r)) = num_interface (rt_bst r) \<and>
    node_data (rt_bst (add_routes es r)) = node_data (rt_bst r)"
  using assms(2)
proof (induction es rule: rev_induct)
  case (snoc e es)
  obtain p l h n where e: "e = (p, l, h, n)" by (cases e) auto
  have "rt_bst (add_routes es r) \<noteq> Null" using entry_add_routes [OF assms(1)] by simp
  moreover have "0 < unat l" using snoc.prems by (simp add: e re_len_def)
  ultimately show ?case
    using snoc bst_root_kept by (simp add: add_routes_def add_route_def e)
qed (simp add: add_routes_def)

section \<open>Draining the queues\<close>

text \<open>What \<open>route\<close> is to compute: the datagrams one after the other, and all queues empty.\<close>

fun route_list :: "IPv4Datagram list \<Rightarrow> Router \<Rightarrow> Router res" where
  "route_list [] r = Inr r"
| "route_list (d # ds) r = bindE (route_one_datagram r d) (route_list ds)"

definition set_queue :: "nat \<Rightarrow> IPv4Datagram list \<Rightarrow> Router \<Rightarrow> Router" where
  "set_queue k q r =
     r\<lparr>rt_interfaces := (rt_interfaces r)[k := (rt_interfaces r ! k)\<lparr>ai_datagrams_out := q\<rparr>]\<rparr>"

definition clear_queues :: "Router \<Rightarrow> Router" where
  "clear_queues r = r\<lparr>rt_interfaces := map (\<lambda>ai. ai\<lparr>ai_datagrams_out := []\<rparr>) (rt_interfaces r)\<rparr>"

lemma rt_pop_set: "rt_pop r k = set_queue k (tl (rt_queue r k)) r"
  by (simp add: rt_pop_def set_queue_def)

lemma set_queue_simps [simp]:
  "length (rt_interfaces (set_queue k q r)) = length (rt_interfaces r)"
  "rt_bst (set_queue k q r) = rt_bst r"
  by (simp_all add: set_queue_def)

lemma set_queue_twice [simp]:
  "k < length (rt_interfaces r) \<Longrightarrow> set_queue k q (set_queue k q' r) = set_queue k q r"
  by (simp add: set_queue_def)

lemma rt_queue_set:
  "k < length (rt_interfaces r) \<Longrightarrow> rt_queue (set_queue k q r) j = (if j = k then q else rt_queue r j)"
  by (simp add: rt_queue_def set_queue_def nth_list_update)

lemma set_queue_same: "k < length (rt_interfaces r) \<Longrightarrow> set_queue k (rt_queue r k) r = r"
  by (simp add: set_queue_def rt_queue_def)

lemma rt_send_set:
  assumes "k < length (rt_interfaces r)"
  shows "rt_send (set_queue k q r) N d hop = bindE (rt_send r N d hop) (\<lambda>r'. Inr (set_queue k q r'))"
proof (cases "unat N < length (rt_interfaces r)")
  case True
  then show ?thesis
  proof (cases "send_datagram (ai_interface (rt_interfaces r ! unat N)) d hop")
    case (Inr i)
    then show ?thesis
    proof (cases "unat N = k")
      case eq: True
      then show ?thesis using Inr assms
        by (cases "rt_interfaces r ! k") (simp add: rt_send_def rt_interface_def set_queue_def)
    qed (use True assms in \<open>simp add: rt_send_def rt_interface_def set_queue_def list_update_swap\<close>)
  qed (use assms in \<open>simp_all add: rt_send_def rt_interface_def set_queue_def nth_list_update\<close>)
qed (use assms in \<open>simp add: rt_send_def rt_interface_def set_queue_def\<close>)

lemma route_one_set:
  assumes "k < length (rt_interfaces r)"
  shows "route_one_datagram (set_queue k q r) d =
    bindE (route_one_datagram r d) (\<lambda>r'. Inr (set_queue k q r'))"
  using rt_send_set [OF assms] by (simp add: route_one_datagram_def Let_def split: option.splits)

lemma route_list_queues:
  assumes "route_list ds r = Inr r'"
  shows "length (rt_interfaces r') = length (rt_interfaces r)" "rt_queue r' k = rt_queue r k"
  using assms
  by (induction ds arbitrary: r) (auto simp: bindE_eq_Inr dest: route_one_queues)

lemma route_list_set:
  assumes "k < length (rt_interfaces r)"
  shows "route_list ds (set_queue k q r) = bindE (route_list ds r) (\<lambda>r'. Inr (set_queue k q r'))"
  using assms
proof (induction ds arbitrary: r)
  case (Cons d ds)
  show ?case
  proof (cases "route_one_datagram r d")
    case (Inr r1)
    then have "k < length (rt_interfaces r1)" using Cons.prems route_one_queues(1) by simp
    from Cons.IH [OF this] show ?thesis by (simp add: route_one_set [OF Cons.prems] Inr)
  qed (simp add: route_one_set [OF Cons.prems])
qed simp

lemma route_queue_eq:
  assumes "k < length (rt_interfaces r)"
  shows "route_queue r k = bindE (route_list (rt_queue r k) r) (\<lambda>r'. Inr (set_queue k [] r'))"
  using assms
proof (induction "rt_queue r k" arbitrary: r)
  case Nil
  note q = Nil(1) [symmetric]
  have "set_queue k [] r = r" using set_queue_same [OF Nil(2)] by (simp only: q)
  then show ?case by (simp add: route_queue.simps [of r k] q)
next
  case (Cons d ds)
  note q = Cons.hyps(2) [symmetric]
  show ?case
  proof (cases "route_one_datagram r d")
    case (Inr r1)
    then have len: "k < length (rt_interfaces r1)" using Cons.prems route_one_queues(1) by simp
    have pop: "rt_pop r1 k = set_queue k ds r1" using route_one_queues(2) [OF Inr, of k] by (simp add: rt_pop_set q)
    have "route_queue r k = route_queue (set_queue k ds r1) k"
      using Cons.prems Inr by (simp add: route_queue.simps [of r k] q pop)
    also have "\<dots> = bindE (route_list ds (set_queue k ds r1)) (\<lambda>r'. Inr (set_queue k [] r'))"
      using Cons.hyps(1) [of "set_queue k ds r1"] len by (simp add: rt_queue_set)
    also have "\<dots> = bindE (route_list ds r1) (\<lambda>r'. Inr (set_queue k [] r'))"
      using len route_list_queues(1) [of ds r1]
      by (cases "route_list ds r1") (simp_all add: route_list_set [OF len])
    finally show ?thesis by (simp add: q Inr)
  qed (use Cons.prems in \<open>simp add: route_queue.simps [of r k] q\<close>)
qed

lemma route_list_append: "route_list (ds @ ds') r = bindE (route_list ds r) (route_list ds')"
proof (induction ds arbitrary: r)
  case (Cons d ds)
  then show ?case by (cases "route_one_datagram r d") simp_all
qed simp

definition clear_these :: "nat list \<Rightarrow> Router \<Rightarrow> Router" where
  "clear_these ks r = fold (\<lambda>k. set_queue k []) ks r"

lemma clear_these_length [simp]: "length (rt_interfaces (clear_these ks r)) = length (rt_interfaces r)"
  by (induction ks arbitrary: r) (simp_all add: clear_these_def)

lemma route_from_eq:
  assumes "distinct ks" "\<forall>k \<in> set ks. k < length (rt_interfaces r)"
  shows "route_from ks r =
    bindE (route_list (concat (map (rt_queue r) ks)) r) (\<lambda>r'. Inr (clear_these ks r'))"
  using assms
proof (induction ks arbitrary: r)
  case (Cons k ks)
  have k: "k < length (rt_interfaces r)" using Cons.prems by simp
  show ?case
  proof (cases "route_list (rt_queue r k) r")
    case (Inr r1)
    note r1 = route_list_queues [OF Inr]
    have len: "k < length (rt_interfaces r1)" using k r1(1) by simp
    have qs: "map (rt_queue (set_queue k [] r1)) ks = map (rt_queue r) ks"
      using Cons.prems(1) by (auto simp: rt_queue_set [OF len] r1(2))
    have "route_from ks (set_queue k [] r1) = bindE (route_list (concat (map (rt_queue r) ks)) (set_queue k [] r1))
        (\<lambda>r'. Inr (clear_these ks r'))"
      using Cons.IH [of "set_queue k [] r1"] Cons.prems r1(1) by (simp add: qs)
    also have "\<dots> = bindE (route_list (concat (map (rt_queue r) ks)) r1) (\<lambda>r'. Inr (clear_these (k # ks) r'))"
      by (cases "route_list (concat (map (rt_queue r) ks)) r1")
        (simp_all add: route_list_set [OF len] clear_these_def)
    finally show ?thesis by (simp add: route_queue_eq [OF k] route_list_append Inr)
  qed (simp add: route_queue_eq [OF k] route_list_append)
qed (simp add: clear_these_def)

lemma clear_these_nth:
  "i < length (rt_interfaces r) \<Longrightarrow> rt_interfaces (clear_these ks r) ! i =
     (if i \<in> set ks then (rt_interfaces r ! i)\<lparr>ai_datagrams_out := []\<rparr> else rt_interfaces r ! i)"
proof (induction ks arbitrary: r)
  case (Cons k ks)
  then show ?case
    by (cases "k = i") (auto simp: clear_these_def set_queue_def nth_list_update)
qed (simp add: clear_these_def)

lemma clear_all: "clear_these [0 ..< length (rt_interfaces r)] r = clear_queues r"
proof -
  have "rt_bst (clear_these ks r) = rt_bst r" for ks
    by (induction ks arbitrary: r) (simp_all add: clear_these_def)
  moreover have "rt_interfaces (clear_these [0 ..< length (rt_interfaces r)] r) = rt_interfaces (clear_queues r)"
    by (rule nth_equalityI) (simp_all add: clear_these_nth clear_queues_def)
  ultimately show ?thesis by (simp add: clear_queues_def)
qed

lemma route_eq:
  "route r = bindE (route_list (concat (map ai_datagrams_out (rt_interfaces r))) r) (\<lambda>r'. Inr (clear_queues r'))"
proof -
  let ?n = "length (rt_interfaces r)"
  have qs: "map (rt_queue r) [0 ..< ?n] = map ai_datagrams_out (rt_interfaces r)"
    by (rule nth_equalityI) (simp_all add: rt_queue_def)
  have "route r = bindE (route_list (concat (map (rt_queue r) [0 ..< ?n])) r) (\<lambda>r'. Inr (clear_these [0 ..< ?n] r'))"
    unfolding route_def by (rule route_from_eq) simp_all
  also have "\<dots> = bindE (route_list (concat (map ai_datagrams_out (rt_interfaces r))) r) (\<lambda>r'. Inr (clear_queues r'))"
  proof (cases "route_list (concat (map ai_datagrams_out (rt_interfaces r))) r")
    case (Inr r')
    then show ?thesis using clear_all [of r'] route_list_queues(1) [OF Inr] by (simp add: qs)
  qed (simp add: qs)
  finally show ?thesis .
qed

section \<open>The life of a router\<close>

definition rt_wf :: "Router \<Rightarrow> bool" where
  "rt_wf r \<longleftrightarrow> trie_ok (rt_bst r) \<and> (\<forall>ai \<in> set (rt_interfaces r). ni_wf (ai_interface ai))"

inductive rt_step :: "Router \<Rightarrow> Router \<Rightarrow> bool" where
  rt_add_interface: "rt_step r (fst (add_interface r (async_of_interface (NetworkInterface_init eth ip))))"
| rt_add_route: "unat prefix_length \<le> 32 \<Longrightarrow> rt_step r (add_route r prefix prefix_length next_hop num)"
| rt_frame: "k < length (rt_interfaces r) \<Longrightarrow> async_recv_frame (rt_interfaces r ! k) frame = Inr ai \<Longrightarrow>
    rt_step r (r\<lparr>rt_interfaces := (rt_interfaces r)[k := ai]\<rparr>)"
| rt_tick: "k < length (rt_interfaces r) \<Longrightarrow> ai = rt_interfaces r ! k \<Longrightarrow> ni_step (ai_interface ai) i' \<Longrightarrow>
    rt_step r (r\<lparr>rt_interfaces := (rt_interfaces r)[k := ai\<lparr>ai_interface := i'\<rparr>]\<rparr>)"
| rt_route: "route r = Inr r' \<Longrightarrow> rt_step r r'"

lemma rt_wf_update:
  "rt_wf r \<Longrightarrow> ni_wf (ai_interface ai) \<Longrightarrow> rt_wf (r\<lparr>rt_interfaces := (rt_interfaces r)[k := ai]\<rparr>)"
  by (auto simp: rt_wf_def dest!: set_update_subset_insert [THEN subsetD])

lemma rt_wf_nth: "rt_wf r \<Longrightarrow> k < length (rt_interfaces r) \<Longrightarrow> ni_wf (ai_interface (rt_interfaces r ! k))"
  by (simp add: rt_wf_def)

lemma rt_send_wf: "rt_wf r \<Longrightarrow> rt_send r N d hop = Inr r' \<Longrightarrow> rt_wf r'"
  by (auto simp: rt_send_def rt_interface_def bindE_eq_Inr split: if_splits
      intro!: rt_wf_update intro: send_datagram_wf rt_wf_nth)

lemma route_one_wf: "rt_wf r \<Longrightarrow> route_one_datagram r d = Inr r' \<Longrightarrow> rt_wf r'"
  by (auto simp: route_one_datagram_def Let_def intro: rt_send_wf split: if_splits option.splits)

lemma route_list_wf: "rt_wf r \<Longrightarrow> route_list ds r = Inr r' \<Longrightarrow> rt_wf r'"
  by (induction ds arbitrary: r) (auto simp: bindE_eq_Inr intro: route_one_wf)

lemma route_wf: "rt_wf r \<Longrightarrow> route r = Inr r' \<Longrightarrow> rt_wf r'"
proof -
  assume wf: "rt_wf r" and "route r = Inr r'"
  then obtain r1 where "route_list (concat (map ai_datagrams_out (rt_interfaces r))) r = Inr r1" "r' = clear_queues r1"
    by (auto simp: route_eq bindE_eq_Inr)
  then show "rt_wf r'" using route_list_wf [OF wf] by (force simp: rt_wf_def clear_queues_def)
qed

lemma async_recv_frame_wf:
  assumes "ni_wf (ai_interface ai)" "async_recv_frame ai f = Inr ai'"
  shows "ni_wf (ai_interface ai')"
proof -
  obtain i r where i: "ni_recv_frame (ai_interface ai) f = Inr (i, r)"
    using assms(2) by (auto simp: async_recv_frame_def bindE_eq_Inr)
  then have "ai_interface ai' = i"
    using assms(2) by (auto simp: async_recv_frame_def Let_def split: option.splits)
  then show ?thesis using ni_recv_frame_wf [OF assms(1) i] by simp
qed

interpretation router: machine_invariant "\<lambda>r. r = Router_init" rt_step rt_wf
proof unfold_locales
  show "rt_wf r" if "r = Router_init" for r
    using that trie_ok_new by (simp add: rt_wf_def Router_init_def)
  fix r r' assume "rt_wf r" "rt_step r r'"
  from this(2,1) show "rt_wf r'"
  proof cases
    case rt_add_interface
    then show ?thesis using \<open>rt_wf r\<close> NetworkInterface_init_wf
      by (auto simp: rt_wf_def add_interface_def Let_def async_of_interface_def)
  next
    case rt_add_route
    then show ?thesis using \<open>rt_wf r\<close> by (simp add: rt_wf_def add_route_def trie_ok_Insert)
  qed (auto intro!: rt_wf_update intro: route_wf async_recv_frame_wf rt_wf_nth interface.step_inv)
qed

section \<open>The walk through the table\<close>

lemma trie_ok_table: "\<forall>e \<in> set es. re_len e \<le> 32 \<Longrightarrow> trie_ok (rt_bst (add_routes es Router_init))"
  using trie_ok_new by (intro trie_ok_add_routes) (simp_all add: Router_init_def)

lemma walk_no_match:
  fixes es defines "t \<equiv> rt_bst (add_routes es Router_init)"
  assumes len: "\<forall>e \<in> set es. re_len e \<le> 32" and none: "\<forall>e \<in> set es. \<not> re_matches e ip"
  shows "(num_interface (bst_walk ip 32 t t), node_data (bst_walk ip 32 t t)) = (0, None)"
proof -
  have "entry t (prefix_bits ip n) = None" for n
    using none by (simp add: t_def entry_routes_at [OF len] routes_at_def filter_False)
  then have "bst_walk ip 32 t t = t"
    using bst_walk_longest(2) [OF trie_ok_table [OF len], of 0 ip] by (simp add: t_def)
  moreover have "\<forall>e \<in> set es. re_len e \<noteq> 0" using none by (auto simp: re_matches_def drop_bit_eq_iff_bits)
  then have "num_interface t = 0 \<and> node_data t = None"
    using add_routes_root [of Router_init es] by (simp add: t_def Router_init_def new_Node_def)
  ultimately show ?thesis by simp
qed

lemma walk_match:
  fixes es defines "t \<equiv> rt_bst (add_routes es Router_init)"
  assumes len: "\<forall>e \<in> set es. re_len e \<le> 32"
    and k: "k < length es" "re_matches (es ! k) ip"
      "\<forall>j < length es. re_matches (es ! j) ip \<longrightarrow>
        re_len (es ! j) < re_len (es ! k) \<or> re_len (es ! j) = re_len (es ! k) \<and> j \<le> k"
  shows "(num_interface (bst_walk ip 32 t t), node_data (bst_walk ip 32 t t)) = re_target (es ! k)"
proof -
  obtain xs where "rev (routes_at es ip (re_len (es ! k))) = es ! k # xs"
    using routes_at_last(1) [OF k] by blast
  then have "entry t (prefix_bits ip (re_len (es ! k))) = Some (re_target (es ! k))"
    unfolding t_def entry_routes_at [OF len] by simp
  moreover have "entry t (prefix_bits ip j) = None" if "re_len (es ! k) < j" for j
    using routes_at_last(2) [OF k that] by (simp add: t_def entry_routes_at [OF len])
  ultimately show ?thesis
    using len k(1) trie_ok_table [OF len]
    by (intro bst_walk_longest(1) [of _ "re_len (es ! k)"]) (simp_all add: t_def)
qed

section \<open>Properties\<close>

text \<open>
  C24. Routing follows the longest matching prefix: after any sequence of \<open>add_route\<close> calls with
  prefix lengths up to 32, the walk through the trie ends at the interface and next hop of the
  matching route with the longest prefix, and among routes with the same prefix at those of the
  one added last. When no route matches it ends at interface 0 without a next hop.
\<close>

theorem router_longest_prefix:
  assumes len: "\<forall>e \<in> set es. re_len e \<le> 32"
  defines "t \<equiv> rt_bst (add_routes es Router_init)"
  shows "(k < length es \<and> re_matches (es ! k) ip \<and>
       (\<forall>j < length es. re_matches (es ! j) ip \<longrightarrow>
          re_len (es ! j) < re_len (es ! k) \<or> re_len (es ! j) = re_len (es ! k) \<and> j \<le> k) \<longrightarrow>
     (num_interface (bst_walk ip 32 t t), node_data (bst_walk ip 32 t t)) = re_target (es ! k)) \<and>
   ((\<forall>e \<in> set es. \<not> re_matches e ip) \<longrightarrow>
     (num_interface (bst_walk ip 32 t t), node_data (bst_walk ip 32 t t)) = (0, None))"
  unfolding t_def using walk_match [OF len, of k ip] walk_no_match [OF len, of ip] by blast

theorem router_longest_prefix_witness:
  "let es = [(0x0a000000, 8, None, 1), (0x0a010000, 16, Some (ipv4_address 0x0a000007 0), 2),
             (0x0a020000, 16, None, 3)];
       t = rt_bst (add_routes es Router_init);
       v = bst_walk 0x0a010203 32 t t
   in (\<forall>e \<in> set es. re_len e \<le> 32) \<and>
      (num_interface v, node_data v) = (2, Some (ipv4_address 0x0a000007 0)) \<and>
      (num_interface (bst_walk 0x0b000000 32 t t), node_data (bst_walk 0x0b000000 32 t t)) = (0, None)"
  using router_longest_prefix [of "[(0x0a000000, 8, None, 1), (0x0a010000, 16, Some (ipv4_address 0x0a000007 0), 2),
      (0x0a020000, 16, None, 3)]" 1 "0x0a010203"]
    router_longest_prefix [of "[(0x0a000000, 8, None, 1), (0x0a010000, 16, Some (ipv4_address 0x0a000007 0), 2),
      (0x0a020000, 16, None, 3)]" 1 "0x0b000000"]
  by (simp add: re_len_def re_matches_def re_target_def less_Suc_eq Let_def)

text \<open>
  C25. \<open>route\<close> ends and does what it should: it routes every datagram that waits on an interface
  exactly once, interface by interface and in the order of arrival, and leaves all these queues
  empty.
\<close>

theorem route_drains:
  "route r = bindE (route_list (concat (map ai_datagrams_out (rt_interfaces r))) r)
     (\<lambda>r'. Inr (r'\<lparr>rt_interfaces := map (\<lambda>ai. ai\<lparr>ai_datagrams_out := []\<rparr>) (rt_interfaces r')\<rparr>))"
  by (simp add: route_eq clear_queues_def)

text \<open>
  C26. In every state a router can reach, the walk through the trie never meets a null pointer
  and ends at a node that carries a route or at the root, and on every interface datagrams wait
  only for unknown addresses with a pending request.
\<close>

theorem router_invariant:
  assumes "reachable (\<lambda>r. r = Router_init) rt_step r"
  shows "bst_walk ip 32 (rt_bst r) (rt_bst r) \<noteq> Null \<and>
    (has_data (bst_walk ip 32 (rt_bst r) (rt_bst r)) \<or> bst_walk ip 32 (rt_bst r) (rt_bst r) = rt_bst r) \<and>
    (k < length (rt_interfaces r) \<and> waiting (ai_interface (rt_interfaces r ! k)) hop \<noteq> [] \<longrightarrow>
      ni_timestamps_arp (ai_interface (rt_interfaces r ! k)) hop \<noteq> None \<and>
      ni_ip2eth (ai_interface (rt_interfaces r ! k)) hop = None)"
proof -
  have wf: "rt_wf r" using router.reachable_inv [OF assms] .
  then have ok: "trie_ok (rt_bst r)" by (simp add: rt_wf_def)
  then show ?thesis
    using bst_walk_has [OF ok, of ip] rt_wf_nth [OF wf, of k] by (auto simp: trie_ok_def ni_wf_def)
qed

theorem router_invariant_witness:
  "let r = add_route Router_init 0x0a000000 8 None 1
   in reachable (\<lambda>r. r = Router_init) rt_step r \<and> bst_walk 0x0a010203 32 (rt_bst r) (rt_bst r) \<noteq> Null"
proof -
  have "reachable (\<lambda>r. r = Router_init) rt_step (add_route Router_init 0x0a000000 8 None 1)"
    by (rule reachable_step, rule reachable_start, rule refl, rule rt_add_route) simp
  then show ?thesis using router_invariant by (simp add: Let_def)
qed

text \<open>The datagram the next hop gets: one hop fewer to live, a new checksum, one payload buffer.\<close>

definition forwarded :: "IPv4Datagram \<Rightarrow> IPv4Datagram" where
  "forwarded d = (let d = ipv4_datagram_filled d
     in d\<lparr>dg_header := (dg_header d)\<lparr>ip_ttl := ip_ttl (dg_header d) - 1\<rparr>\<rparr>)"

lemma forwarded_valid: "ipv4_datagram_valid d \<Longrightarrow> ipv4_datagram_valid (forwarded d)"
  by (simp add: ipv4_datagram_valid_def ipv4_header_ok_def forwarded_def ipv4_datagram_filled_def)

lemma concat_single_queue:
  "k < length xs \<Longrightarrow> \<forall>x \<in> set xs. f x = [] \<Longrightarrow> concat (map f (xs[k := y])) = f y"
  by (induction xs arbitrary: k) (auto split: nat.split simp: concat_eq_Nil_conv)

lemma async_recv_datagram:
  assumes "ipv4_datagram_valid d" "ai_datagrams_out ai = []"
  shows "async_recv_frame ai (ipv4_frame src (ni_ethernet_address (ai_interface ai)) (datagram_bytes d)) =
    Inr (ai\<lparr>ai_datagrams_out := [ipv4_datagram_filled d]\<rparr>)"
  using recv_ipv4_frame [OF assms(1) datagram_bytes_valid [OF assms(1)], of "ai_interface ai"] assms(2)
  by (simp add: async_recv_frame_def Let_def)

lemma route_single:
  assumes "\<forall>ai \<in> set (rt_interfaces r). ai_datagrams_out ai = []" "k < length (rt_interfaces r)"
  shows "route (set_queue k [d] r) = bindE (route_one_datagram r d) (\<lambda>r'. Inr (clear_queues r'))"
proof -
  have "concat (map ai_datagrams_out (rt_interfaces (set_queue k [d] r))) = [d]"
    using concat_single_queue [OF assms(2,1)] by (simp add: set_queue_def)
  moreover have "clear_queues (set_queue k [d] r') = clear_queues r'" if "k < length (rt_interfaces r')" for r'
    using that by (simp add: clear_queues_def set_queue_def map_update list_update_same_conv)
  ultimately show ?thesis
    using assms(2) route_one_queues(1) [of r d]
    by (cases "route_one_datagram r d") (simp_all add: route_eq route_one_set)
qed

lemma rt_send_known:
  assumes "unat N < length (rt_interfaces r)" "ipv4_numeric a = Inr hop"
    and "ni_ip2eth (ai_interface (rt_interfaces r ! unat N)) hop = Some eth" "ipv4_datagram_valid d"
  shows "\<exists>r'. rt_send r N d a = Inr r' \<and> ni_frames_out (ai_interface (rt_interfaces r' ! unat N)) =
      ni_frames_out (ai_interface (rt_interfaces r ! unat N)) @
        [ipv4_frame (ni_ethernet_address (ai_interface (rt_interfaces r ! unat N))) eth (datagram_bytes d)]"
  using assms send_frame_eq [OF datagram_bytes_valid [OF assms(4)]]
  by (simp add: rt_send_def rt_interface_def send_datagram_known)

text \<open>
  C27. A datagram crosses the router: when a frame with a valid datagram arrives on an interface
  and the longest matching route leads to an interface that knows the Ethernet address of the
  next hop (the destination itself when the route is direct), \<open>route\<close> sends it there in one frame
  and the next hop receives it with its time to live decremented. A datagram whose time to live
  is 0 or 1 is dropped.
\<close>

theorem router_forwards:
  assumes r: "\<forall>ai \<in> set (rt_interfaces r). ai_datagrams_out ai = []" "k < length (rt_interfaces r)"
    and d: "ipv4_datagram_valid d"
    and out: "bst_walk (ip_dst (dg_header d)) 32 (rt_bst r) (rt_bst r) = v"
      "unat (num_interface v) < length (rt_interfaces r)"
      "case node_data v of Some a \<Rightarrow> ipv4_numeric a = Inr hop | None \<Rightarrow> hop = ip_dst (dg_header d)"
      "ni_ip2eth (ai_interface (rt_interfaces r ! unat (num_interface v))) hop = Some eth"
    and nb: "ni_ethernet_address neighbour = eth"
  shows "\<exists>ai r'. async_recv_frame (rt_interfaces r ! k)
      (ipv4_frame src (ni_ethernet_address (ai_interface (rt_interfaces r ! k))) (datagram_bytes d)) = Inr ai \<and>
    route (r\<lparr>rt_interfaces := (rt_interfaces r)[k := ai]\<rparr>) = Inr r' \<and>
    (if unat (ip_ttl (dg_header d)) < 2 then r' = r
     else (\<exists>f c. ni_frames_out (ai_interface (rt_interfaces r' ! unat (num_interface v))) =
         ni_frames_out (ai_interface (rt_interfaces r ! unat (num_interface v))) @ [f] \<and>
       ni_recv_frame neighbour f = Inr (neighbour, Some
         \<lparr>dg_header = (dg_header d)\<lparr>ip_ttl := ip_ttl (dg_header d) - 1, ip_cksum := c\<rparr>,
          dg_payload = [concat (dg_payload d)]\<rparr>)))"
proof -
  let ?d = "ipv4_datagram_filled d" and ?n = "unat (num_interface v)"
  have ai: "async_recv_frame (rt_interfaces r ! k) (ipv4_frame src
        (ni_ethernet_address (ai_interface (rt_interfaces r ! k))) (datagram_bytes d)) =
      Inr ((rt_interfaces r ! k)\<lparr>ai_datagrams_out := [?d]\<rparr>)"
    using r by (intro async_recv_datagram d) simp
  have hdr: "ip_dst (dg_header ?d) = ip_dst (dg_header d)" "ip_ttl (dg_header ?d) = ip_ttl (dg_header d)"
      "?d\<lparr>dg_header := (dg_header ?d)\<lparr>ip_ttl := ip_ttl (dg_header d) - 1\<rparr>\<rparr> = forwarded d"
    by (simp_all add: ipv4_datagram_filled_def forwarded_def)
  have "clear_queues r = r" using r(1) by (auto simp: clear_queues_def intro!: map_idI Router.equality)
  then have drop: "route (set_queue k [?d] r) = Inr r" if "unat (ip_ttl (dg_header d)) < 2"
    using that by (simp add: route_single [OF r] route_one_datagram_def hdr word_less_nat_alt Let_def)
  have send: "\<exists>r'. route (set_queue k [?d] r) = Inr r' \<and> ni_frames_out (ai_interface (rt_interfaces r' ! ?n)) =
      ni_frames_out (ai_interface (rt_interfaces r ! ?n)) @
        [ipv4_frame (ni_ethernet_address (ai_interface (rt_interfaces r ! ?n))) eth (datagram_bytes (forwarded d))]"
    if "\<not> unat (ip_ttl (dg_header d)) < 2"
  proof -
    define a where "a = (case node_data v of Some a \<Rightarrow> a | None \<Rightarrow> ipv4_address (ip_dst (dg_header d)) 0)"
    have "ipv4_numeric a = Inr hop" using out(3) by (auto simp: a_def split: option.splits)
    from rt_send_known [OF out(2) this out(4) forwarded_valid [OF d]] obtain r' where
      r': "rt_send r (num_interface v) (forwarded d) a = Inr r'" "ni_frames_out (ai_interface (rt_interfaces r' ! ?n)) =
        ni_frames_out (ai_interface (rt_interfaces r ! ?n)) @
        [ipv4_frame (ni_ethernet_address (ai_interface (rt_interfaces r ! ?n))) eth (datagram_bytes (forwarded d))]"
      by blast
    have "route_one_datagram r ?d = Inr r'"
      using that r'(1) by (simp add: route_one_datagram_def hdr out(1) word_less_nat_alt Let_def a_def split: option.splits)
    then show ?thesis
      using r'(2) rt_send_queues(1) [OF r'(1)] out(2) by (simp add: route_single [OF r] clear_queues_def)
  qed
  have recv: "ni_recv_frame neighbour (ipv4_frame s eth (datagram_bytes (forwarded d))) =
      Inr (neighbour, Some (ipv4_datagram_filled (forwarded d)))" for s
    using recv_ipv4_frame [OF forwarded_valid [OF d] datagram_bytes_valid [OF forwarded_valid [OF d]], of neighbour]
    by (simp add: nb)
  have fwd: "\<exists>c. ipv4_datagram_filled (forwarded d) =
      \<lparr>dg_header = (dg_header d)\<lparr>ip_ttl := ip_ttl (dg_header d) - 1, ip_cksum := c\<rparr>,
       dg_payload = [concat (dg_payload d)]\<rparr>"
    by (simp add: forwarded_def ipv4_datagram_filled_def) blast
  show ?thesis
    using ai drop send recv fwd by (cases "unat (ip_ttl (dg_header d)) < 2") (fastforce simp: set_queue_def)+
qed

text \<open>A router with one interface, which knows the neighbour \<open>host_b\<close>.\<close>

definition small_router :: Router where
  "small_router = add_route (Router_init\<lparr>rt_interfaces := [async_of_interface
     (host_a\<lparr>ni_ip2eth := [0x0a000002 \<mapsto> [2, 0, 0, 0, 0, 2]]\<rparr>)]\<rparr>) 0x0a000000 8 None 0"

lemma small_router_walk:
  "node_data (bst_walk 0x0a000002 32 (rt_bst small_router) (rt_bst small_router)) = None"
  "num_interface (bst_walk 0x0a000002 32 (rt_bst small_router) (rt_bst small_router)) = 0"
proof -
  let ?es = "[(0x0a000000, 8, None, 0)] :: route_entry list"
  have "rt_bst small_router = rt_bst (add_routes ?es Router_init)"
    by (simp add: small_router_def add_routes_def add_route_def Router_init_def)
  then show "node_data (bst_walk 0x0a000002 32 (rt_bst small_router) (rt_bst small_router)) = None"
    "num_interface (bst_walk 0x0a000002 32 (rt_bst small_router) (rt_bst small_router)) = 0"
    using walk_match [of ?es 0 "0x0a000002"] by (simp_all add: re_len_def re_matches_def re_target_def)
qed

theorem router_forwards_witness:
  "\<exists>ai r' f c. async_recv_frame (rt_interfaces small_router ! 0)
      (ipv4_frame [2, 0, 0, 0, 0, 9] [2, 0, 0, 0, 0, 1] (datagram_bytes small_datagram)) = Inr ai \<and>
     route (small_router\<lparr>rt_interfaces := [ai]\<rparr>) = Inr r' \<and>
     ni_frames_out (ai_interface (rt_interfaces r' ! 0)) = [f] \<and>
     ni_recv_frame host_b f = Inr (host_b, Some \<lparr>dg_header = (dg_header small_datagram)
       \<lparr>ip_ttl := ip_ttl (dg_header small_datagram) - 1, ip_cksum := c\<rparr>, dg_payload = [[1, 2, 3]]\<rparr>)"
proof -
  have r: "rt_interfaces small_router = [async_of_interface (host_a\<lparr>ni_ip2eth := [0x0a000002 \<mapsto> [2, 0, 0, 0, 0, 2]]\<rparr>)]"
    by (simp add: small_router_def add_route_def)
  have d: "ip_dst (dg_header small_datagram) = 0x0a000002" "ip_ttl (dg_header small_datagram) = 128"
      "concat (dg_payload small_datagram) = [1, 2, 3]"
    by (simp_all add: small_datagram_def IPv4Header_init_def)
  show ?thesis
    using router_forwards [of small_router 0 small_datagram _ "0x0a000002" "[2, 0, 0, 0, 0, 2]" host_b "[2, 0, 0, 0, 0, 9]",
        OF _ _ small_datagram_valid refl]
    by (simp add: r d small_router_walk async_of_interface_def host_a_fields) (auto simp: host_eval)
qed

text \<open>
  A datagram that no route matches is not dropped: the router sends it on its interface 0, as if
  the destination were attached to it.
\<close>

theorem unroutable_datagram_sent:
  "\<exists>r'. (\<forall>e \<in> set [(0x0a000000, 8, None, 1) :: route_entry]. \<not> re_matches e 0xc0a80001) \<and>
     route_one_datagram ((add_routes [(0x0a000000, 8, None, 1)] Router_init)
         \<lparr>rt_interfaces := [async_of_interface host_a, async_of_interface host_b]\<rparr>)
       (small_datagram\<lparr>dg_header := (dg_header small_datagram)\<lparr>ip_dst := 0xc0a80001\<rparr>\<rparr>) = Inr r' \<and>
     length (waiting (ai_interface (rt_interfaces r' ! 0)) 0xc0a80001) = 1"
proof -
  let ?es = "[(0x0a000000, 8, None, 1)] :: route_entry list"
  let ?t = "rt_bst (add_routes ?es Router_init)"
  have no: "\<forall>e \<in> set ?es. \<not> re_matches e 0xc0a80001" by (simp add: re_matches_def re_len_def)
  then have walk: "num_interface (bst_walk 0xc0a80001 32 ?t ?t) = 0" "node_data (bst_walk 0xc0a80001 32 ?t ?t) = None"
    using walk_no_match [of ?es "0xc0a80001"] by (simp_all add: re_len_def)
  have our: "ipv4_numeric (ni_ip_address host_a) = Inr 0x0a000001" "ni_ip2eth host_a 0xc0a80001 = None"
    by (simp_all add: host_a_fields)
  note send = send_datagram_unknown [OF interface.reachable_inv [OF hosts_reachable(1)]
      ipv4_numeric_address [of "0xc0a80001" 0] our]
  have ttl: "ip_ttl (dg_header small_datagram) = 128" by (simp add: small_datagram_def IPv4Header_init_def)
  show ?thesis
    using no by (simp add: route_one_datagram_def walk ttl rt_send_def rt_interface_def async_of_interface_def send
        Let_def recently_asked_def host_a_fields waiting_upd)
qed

end
