(* ===== verification/Printing.thy ===== *)
theory Printing
  imports IPv4 Ethernet Socket_Address
begin

text \<open>
  The text output of the program: \<open>to_string\<close> and \<open>summary\<close> of the TCP, IPv4 and Ethernet headers
  and of ARP messages (\<open>src/libsponge/tcp_helpers/tcp_header.cc\<close>, \<open>ipv4_header.cc\<close>,
  \<open>ethernet_header.cc\<close>, \<open>arp_message.cc\<close>), \<open>hexdump\<close> (\<open>util/util.cc\<close>) and the one-line
  description of a frame (\<open>src/apps/network_simulator.cc\<close>).
\<close>

section \<open>Headers\<close>

definition endl :: string where
  "endl = [CHR 10]"

text \<open>\<open>boolalpha\<close>.\<close>

definition show_bool :: "bool \<Rightarrow> string" where
  "show_bool b = (if b then ''true'' else ''false'')"

definition show_hex :: "'a::len word \<Rightarrow> string" where
  "show_hex w = hex_string (unat w)"

definition show_dec :: "'a::len word \<Rightarrow> string" where
  "show_dec w = to_string_nat (unat w)"

definition tcp_header_to_string :: "TCPHeader \<Rightarrow> string" where
  "tcp_header_to_string h =
     ''TCP source port: '' @ show_hex (th_sport h) @ endl @
     ''TCP dest port: '' @ show_hex (th_dport h) @ endl @
     ''TCP seqno: '' @ show_hex (raw_value (th_seqno h)) @ endl @
     ''TCP ackno: '' @ show_hex (raw_value (th_ackno h)) @ endl @
     ''TCP doff: '' @ show_hex (th_doff h) @ endl @
     ''Flags: urg: '' @ show_bool (th_urg h) @ '' ack: '' @ show_bool (th_ack h) @ '' psh: '' @ show_bool (th_psh h) @
     '' rst: '' @ show_bool (th_rst h) @ '' syn: '' @ show_bool (th_syn h) @ '' fin: '' @ show_bool (th_fin h) @ endl @
     ''TCP winsize: '' @ show_hex (th_win h) @ endl @
     ''TCP cksum: '' @ show_hex (th_cksum h) @ endl @
     ''TCP uptr: '' @ show_hex (th_uptr h) @ endl"

definition tcp_header_summary :: "TCPHeader \<Rightarrow> string" where
  "tcp_header_summary h =
     ''Header(flags='' @ (if th_syn h then ''S'' else '''') @ (if th_ack h then ''A'' else '''') @
     (if th_rst h then ''R'' else '''') @ (if th_fin h then ''F'' else '''') @
     '',seqno='' @ show_dec (raw_value (th_seqno h)) @ '',ack='' @ show_dec (raw_value (th_ackno h)) @
     '',win='' @ show_dec (th_win h) @ '')''"

definition ipv4_header_to_string :: "IPv4Header \<Rightarrow> string" where
  "ipv4_header_to_string h =
     ''IP version: '' @ show_hex (ip_ver h) @ endl @
     ''IP hdr len: '' @ show_hex (ip_hlen h) @ endl @
     ''IP tos: '' @ show_hex (ip_tos h) @ endl @
     ''IP dgram len: '' @ show_hex (ip_len h) @ endl @
     ''IP id: '' @ show_hex (ip_id h) @ endl @
     ''Flags: df: '' @ show_bool (ip_df h) @ '' mf: '' @ show_bool (ip_mf h) @ endl @
     ''Offset: '' @ show_hex (ip_offset h) @ endl @
     ''TTL: '' @ show_hex (ip_ttl h) @ endl @
     ''Protocol: '' @ show_hex (ip_proto h) @ endl @
     ''Checksum: '' @ show_hex (ip_cksum h) @ endl @
     ''Src addr: '' @ show_hex (ip_src h) @ endl @
     ''Dst addr: '' @ show_hex (ip_dst h) @ endl"

text \<open>\<open>inet_ntoa\<close> gives the dotted quad.\<close>

definition ipv4_header_summary :: "IPv4Header \<Rightarrow> string" where
  "ipv4_header_summary h =
     ''IPv'' @ show_hex (ip_ver h) @ '', '' @ ''len='' @ show_hex (ip_len h) @ '', '' @
     ''protocol='' @ show_hex (ip_proto h) @ '', '' @
     (if ip_ttl h \<ge> 10 then '''' else ''ttl='' @ show_dec (ip_ttl h) @ '', '') @
     ''src='' @ dotted_quad (ip_src h) @ '', '' @ ''dst='' @ dotted_quad (ip_dst h)"

fun ethernet_address_to_string :: "EthernetAddress \<Rightarrow> string" where
  "ethernet_address_to_string [] = ''''"
| "ethernet_address_to_string [b] = setw 2 (CHR ''0'') (show_hex b)"
| "ethernet_address_to_string (b # bs) = setw 2 (CHR ''0'') (show_hex b) @ '':'' @ ethernet_address_to_string bs"

definition ethernet_header_to_string :: "EthernetHeader \<Rightarrow> string" where
  "ethernet_header_to_string h =
     ''dst='' @ ethernet_address_to_string (eth_dst h) @ '', src='' @ ethernet_address_to_string (eth_src h) @
     '', type='' @
     (if eth_type h = TYPE_IPv4 then ''IPv4'' else if eth_type h = TYPE_ARP then ''ARP''
      else ''[unknown type '' @ show_hex (eth_type h) @ ''!]'')"

definition arp_to_string :: "ARPMessage \<Rightarrow> string" where
  "arp_to_string a =
     (let opcode_str = ''(unknown type)'';
          opcode_str = (if arp_opcode a = OPCODE_REQUEST then ''REQUEST'' else opcode_str);
          opcode_str = (if arp_opcode a = OPCODE_REPLY then ''REPLY'' else opcode_str)
      in ''opcode='' @ opcode_str @ '', sender='' @ ethernet_address_to_string (arp_sender_ethernet_address a) @ ''/'' @
         dotted_quad (arp_sender_ip_address a) @ '', target='' @
         ethernet_address_to_string (arp_target_ethernet_address a) @ ''/'' @ dotted_quad (arp_target_ip_address a))"

section \<open>Hexdump\<close>

definition is_print :: "u8 \<Rightarrow> bool" where
  "is_print b \<longleftrightarrow> 32 \<le> b \<and> b < 127"

text \<open>
  The loop of \<open>hexdump\<close>, with the number of bytes printed and the characters of the current line.
  Writing to a string stream that was initialised with a space starts at its beginning, so the
  space is only visible while nothing else has been written.
\<close>

definition pchars_str :: "string \<Rightarrow> string" where
  "pchars_str pchars = (if pchars = [] then '' '' else pchars)"

fun hexdump_loop :: "string \<Rightarrow> bytes \<Rightarrow> nat \<Rightarrow> string \<Rightarrow> string \<times> nat \<times> string" where
  "hexdump_loop indent [] printed pchars = ([], printed, pchars)"
| "hexdump_loop indent (b # bs) printed pchars =
     (let (start, pchars) =
            (if printed mod 16 = 0 then
               ((if printed \<noteq> 0 then ''    '' @ pchars_str pchars @ endl else '''') @
                  indent @ setw 8 (CHR ''0'') (hex_string printed) @ '':    '',
                if printed \<noteq> 0 then [] else pchars)
             else if printed mod 2 = 0 then ('' '', pchars) else ('''', pchars));
          (out, result) = hexdump_loop indent bs (printed + 1)
            (pchars @ [if is_print b then char_of (unat b) else CHR ''.''])
      in (start @ setw 2 (CHR ''0'') (show_hex b) @ out, result))"

definition hexdump :: "bytes \<Rightarrow> nat \<Rightarrow> string" where
  "hexdump data indent =
     (let (out, printed, pchars) = hexdump_loop (replicate indent CHR '' '') data 0 [];
          print_rem = (16 - printed mod 16) mod 16
      in out @ replicate (2 * print_rem + print_rem div 2 + 4) (CHR '' '') @ pchars_str pchars @ endl @ endl)"

section \<open>Frames\<close>

definition frame_summary :: "EthernetFrame \<Rightarrow> string res" where
  "frame_summary frame =
     (let ret = ethernet_header_to_string (ef_header frame) in
      if eth_type (ef_header frame) = TYPE_IPv4 then
        bindE (pieces_to_buffer (ef_payload frame)) (\<lambda>payload.
        let (result, dgram) = ipv4_datagram_parse IPv4Datagram_init payload in
        Inr (if result = NoError
             then ret @ '' '' @ ipv4_header_summary (dg_header dgram) @ '' payload='' @ [CHR 34] @
                    map (\<lambda>b. char_of (unat b)) (concat (dg_payload dgram)) @ [CHR 34]
             else ret @ '' (bad IPv4)''))
      else if eth_type (ef_header frame) = TYPE_ARP then
        bindE (pieces_to_buffer (ef_payload frame)) (\<lambda>payload.
        let (result, arp) = arp_parse ARPMessage_init payload in
        Inr (if result = NoError then ret @ '' '' @ arp_to_string arp else ret @ '' (bad ARP)''))
      else Inr ret)"

section \<open>Reading an Ethernet address back\<close>

lemma read_base_zeros: "read_base b (replicate n (CHR ''0'') @ s) = read_base b s"
proof (induction n)
  case (Suc n)
  have "read_base b (CHR ''0'' # t) = read_base b t" for t by (simp add: read_base_def digit_val_def)
  then show ?case using Suc by simp
qed simp

lemma show_base_chars: "b \<le> 16 \<Longrightarrow> 2 \<le> b \<Longrightarrow> c \<in> set (show_base b n) \<Longrightarrow> \<exists>d < 16. c = digit_char d"
proof (induction n rule: less_induct)
  case (less n)
  show ?case
  proof (cases "n < b")
    case True
    then show ?thesis using less.prems by (intro exI [of _ n]) (simp add: show_base.simps [of b n])
  next
    case False
    then have "n div b < n" using less.prems by simp
    note IH = less.IH [OF this less.prems(1,2)]
    have "n mod b < 16" using less.prems by (intro order.strict_trans2 [OF mod_less_divisor]) auto
    then show ?thesis using IH less.prems False by (auto simp: show_base.simps [of b n])
  qed
qed

lemma byte_text:
  "CHR '':'' \<notin> set (setw 2 (CHR ''0'') (show_hex (b :: u8)))"
  "word_of_nat (read_base 16 (setw 2 (CHR ''0'') (show_hex b))) = b"
proof -
  have "digit_char d \<noteq> CHR '':''" if "d < 16" for d
  proof
    assume colon: "digit_char d = CHR '':''"
    then have "digit_val (digit_char d) = digit_val (CHR '':'')" by simp
    then have "d = 0" using that by (simp add: digit_val_char) (simp add: digit_val_def)
    then have "of_char (char_of (48::nat) :: char) = (of_char (CHR '':'') :: nat)"
      using colon by (simp add: digit_char_def)
    then show False by simp
  qed
  then show "CHR '':'' \<notin> set (setw 2 (CHR ''0'') (show_hex b))"
    using show_base_chars [of 16 "CHR '':''" "unat b"] by (fastforce simp: setw_def show_hex_def hex_string_def)
  show "word_of_nat (read_base 16 (setw 2 (CHR ''0'') (show_hex b))) = b"
    by (simp add: setw_def read_base_zeros show_hex_def hex_string_def read_show_base)
qed

lemma ethernet_text_roundtrip:
  "bs \<noteq> [] \<Longrightarrow> map (word_of_nat \<circ> read_base 16) (split_on (CHR '':'') (ethernet_address_to_string bs)) = bs"
proof (induction bs rule: ethernet_address_to_string.induct)
  case (2 b)
  then show ?case by (simp add: split_on_none byte_text)
next
  case (3 b c bs)
  then show ?case by (simp add: split_on_append byte_text)
qed simp

end
