(* ===== verification/Network_Simulator.thy ===== *)
theory Network_Simulator
  imports Router Printing "HOL-Library.Multiset"
begin

text \<open>
  The network simulator (\<open>src/apps/network_simulator.cc\<close>): six hosts around a router with seven
  interfaces exchange frames until nothing moves, and every host compares what it received with
  what it was told to expect. Random numbers are arguments, and so is the order in which
  the unordered map of hosts is traversed. The messages to the standard error and the progress
  messages of the tests are left out; the text of the exceptions is kept.
\<close>

section \<open>Helpers\<close>

definition string_bytes :: "string \<Rightarrow> bytes" where
  "string_bytes s = map (\<lambda>c. word_of_nat (of_char c)) s"

definition bytes_string :: "bytes \<Rightarrow> string" where
  "bytes_string bs = map (\<lambda>b. char_of (unat b)) bs"

definition random_host_ethernet_address :: "u32 list \<Rightarrow> EthernetAddress" where
  "random_host_ethernet_address random =
     (let addr = map ucast random;
          addr = addr[0 := addr ! 0 OR 0x02]
      in addr[0 := addr ! 0 AND 0xfe])"

definition random_router_ethernet_address :: "u32 list \<Rightarrow> EthernetAddress" where
  "random_router_ethernet_address random = (map ucast random)[0 := 0x02, 1 := 0, 2 := 0]"

definition ip_of_text :: "getaddrinfo \<Rightarrow> string \<Rightarrow> u32 res" where
  "ip_of_text gai str = bindE (Address_of_ip gai str 0) ipv4_numeric"

text \<open>Both queues are popped once per element of the first; popping an empty queue is undefined.\<close>

fun clear :: "'q list \<Rightarrow> 'q list \<Rightarrow> 'q list res" where
  "clear [] queue2 = Inr queue2"
| "clear (q # queue1) [] = Inl Undefined_Behaviour"
| "clear (q # queue1) (q' # queue2) = clear queue1 queue2"

section \<open>Hosts\<close>

record Host =
  ho_name :: string
  ho_my_address :: Address
  ho_interface :: AsyncNetworkInterface
  ho_next_hop :: Address
  ho_expecting_to_receive :: "IPv4Datagram list"

definition Host_init :: "u32 list \<Rightarrow> string \<Rightarrow> Address \<Rightarrow> Address \<Rightarrow> Host" where
  "Host_init random name my_address next_hop =
     \<lparr>ho_name = name, ho_my_address = my_address,
      ho_interface = async_of_interface (NetworkInterface_init (random_host_ethernet_address random) my_address),
      ho_next_hop = next_hop, ho_expecting_to_receive = []\<rparr>"

definition same_datagram :: "IPv4Datagram \<Rightarrow> IPv4Datagram \<Rightarrow> bool res" where
  "same_datagram x expected =
     bindE (ipv4_datagram_serialize x) (\<lambda>a.
     bindE (ipv4_datagram_serialize expected) (\<lambda>b. Inr (concat a = concat b)))"

fun expecting :: "IPv4Datagram list \<Rightarrow> IPv4Datagram \<Rightarrow> bool res" where
  "expecting [] expected = Inr False"
| "expecting (x # xs) expected =
     bindE (same_datagram x expected) (\<lambda>same. if same then Inr True else expecting xs expected)"

fun remove_expectation :: "IPv4Datagram list \<Rightarrow> IPv4Datagram \<Rightarrow> IPv4Datagram list res" where
  "remove_expectation [] expected = Inr []"
| "remove_expectation (x # xs) expected =
     bindE (same_datagram x expected) (\<lambda>same.
       if same then Inr xs else bindE (remove_expectation xs expected) (\<lambda>xs. Inr (x # xs)))"

definition send_to :: "Host \<Rightarrow> Address \<Rightarrow> u8 \<Rightarrow> u32 \<Rightarrow> (Host \<times> IPv4Datagram) res" where
  "send_to h destination ttl random =
     bindE (ipv4_numeric (ho_my_address h)) (\<lambda>src.
     bindE (ipv4_numeric destination) (\<lambda>dst.
     let payload = string_bytes (''random payload: {'' @ to_string_nat (unat random) @ ''}'');
         header = IPv4Header_init\<lparr>ip_src := src, ip_dst := dst\<rparr>;
         header = header\<lparr>ip_len := ucast (ip_hlen header) * 4 + word_of_nat (length payload), ip_ttl := ttl\<rparr>;
         dgram = \<lparr>dg_header = header, dg_payload = [payload]\<rparr>
     in
     bindE (send_datagram (ai_interface (ho_interface h)) dgram (ho_next_hop h)) (\<lambda>i.
       Inr (h\<lparr>ho_interface := (ho_interface h)\<lparr>ai_interface := i\<rparr>\<rparr>, dgram))))"

definition host_expect :: "Host \<Rightarrow> IPv4Datagram \<Rightarrow> Host" where
  "host_expect h expected = h\<lparr>ho_expecting_to_receive := ho_expecting_to_receive h @ [expected]\<rparr>"

definition datagram_text :: "IPv4Datagram \<Rightarrow> string" where
  "datagram_text d = ipv4_header_summary (dg_header d) @ '' payload='' @ [CHR 34] @
     bytes_string (concat (dg_payload d)) @ [CHR 34]"

fun check_received :: "IPv4Datagram list \<Rightarrow> Host \<Rightarrow> Host res" where
  "check_received [] h = Inr h"
| "check_received (dgram_received # rest) h =
     bindE (expecting (ho_expecting_to_receive h) dgram_received) (\<lambda>yes.
     if \<not> yes then Inl (Runtime_Error (''Host '' @ ho_name h @ '' received unexpected Internet datagram: '' @
                          datagram_text dgram_received))
     else
       bindE (remove_expectation (ho_expecting_to_receive h) dgram_received) (\<lambda>expected.
         check_received rest (h\<lparr>ho_expecting_to_receive := expected,
           ho_interface := (ho_interface h)\<lparr>ai_datagrams_out := rest\<rparr>\<rparr>)))"

definition host_check :: "Host \<Rightarrow> Host res" where
  "host_check h =
     bindE (check_received (ai_datagrams_out (ho_interface h)) h) (\<lambda>h.
     case ho_expecting_to_receive h of
       [] \<Rightarrow> Inr h
     | expected # _ \<Rightarrow> Inl (Runtime_Error (''Host '' @ ho_name h @
         '' did NOT receive an expected Internet datagram: '' @ datagram_text expected)))"

section \<open>The network\<close>

fun deliver :: "EthernetFrame list \<Rightarrow> AsyncNetworkInterface \<Rightarrow> AsyncNetworkInterface res" where
  "deliver [] dst = Inr dst"
| "deliver (f # to_send) dst =
     bindE (async_recv_frame dst (f\<lparr>ef_payload := [concat (ef_payload f)]\<rparr>)) (deliver to_send)"

definition ai_frames_out :: "AsyncNetworkInterface \<Rightarrow> EthernetFrame list" where
  "ai_frames_out ai = ni_frames_out (ai_interface ai)"

definition clear_frames :: "EthernetFrame list \<Rightarrow> AsyncNetworkInterface \<Rightarrow> AsyncNetworkInterface res" where
  "clear_frames frames x =
     bindE (clear frames (ai_frames_out x)) (\<lambda>q.
       Inr (x\<lparr>ai_interface := (ai_interface x)\<lparr>ni_frames_out := q\<rparr>\<rparr>))"

definition exchange_frames ::
    "AsyncNetworkInterface \<Rightarrow> AsyncNetworkInterface \<Rightarrow> (AsyncNetworkInterface \<times> AsyncNetworkInterface) res" where
  "exchange_frames x y =
     (let x_frames = ai_frames_out x; y_frames = ai_frames_out y in
      bindE (deliver x_frames y) (\<lambda>y.
      bindE (deliver y_frames x) (\<lambda>x.
      bindE (clear_frames x_frames x) (\<lambda>x.
      bindE (clear_frames y_frames y) (\<lambda>y. Inr (x, y))))))"

definition exchange_frames3 ::
    "AsyncNetworkInterface \<Rightarrow> AsyncNetworkInterface \<Rightarrow> AsyncNetworkInterface \<Rightarrow>
     (AsyncNetworkInterface \<times> AsyncNetworkInterface \<times> AsyncNetworkInterface) res" where
  "exchange_frames3 x y z =
     (let x_frames = ai_frames_out x; y_frames = ai_frames_out y; z_frames = ai_frames_out z in
      bindE (deliver x_frames y) (\<lambda>y.
      bindE (deliver x_frames z) (\<lambda>z.
      bindE (deliver y_frames x) (\<lambda>x.
      bindE (deliver y_frames z) (\<lambda>z.
      bindE (deliver z_frames x) (\<lambda>x.
      bindE (deliver z_frames y) (\<lambda>y.
      bindE (clear_frames x_frames x) (\<lambda>x.
      bindE (clear_frames y_frames y) (\<lambda>y.
      bindE (clear_frames z_frames z) (\<lambda>z. Inr (x, y, z)))))))))))"

record Network =
  nw_router :: Router
  nw_default_id :: u64
  nw_eth0_id :: u64
  nw_eth1_id :: u64
  nw_eth2_id :: u64
  nw_uun3_id :: u64
  nw_hs4_id :: u64
  nw_mit5_id :: u64
  nw_hosts :: "string \<Rightarrow> Host option"

definition nw_host :: "Network \<Rightarrow> string \<Rightarrow> Host res" where
  "nw_host n name =
     (case nw_hosts n name of
        None \<Rightarrow> Inl (Runtime_Error (''unknown host: '' @ name))
      | Some h \<Rightarrow> if ho_name h \<noteq> name then Inl (Runtime_Error (''invalid host: '' @ name)) else Inr h)"

definition put_host :: "string \<Rightarrow> Host \<Rightarrow> Network \<Rightarrow> Network" where
  "put_host name h n = n\<lparr>nw_hosts := (nw_hosts n)(name := Some h)\<rparr>"

definition put_interface :: "u64 \<Rightarrow> AsyncNetworkInterface \<Rightarrow> Network \<Rightarrow> Network" where
  "put_interface k ai n = n\<lparr>nw_router := (nw_router n)
     \<lparr>rt_interfaces := (rt_interfaces (nw_router n))[unat k := ai]\<rparr>\<rparr>"


text \<open>The constructor. A random address of six numbers is drawn for every interface and every host.\<close>

definition nw_add_interface :: "getaddrinfo \<Rightarrow> Router \<Rightarrow> u32 list \<Rightarrow> string \<Rightarrow> (Router \<times> u64) res" where
  "nw_add_interface gai r random ip =
     bindE (Address_of_ip gai ip 0) (\<lambda>addr.
       Inr (add_interface r (async_of_interface (NetworkInterface_init (random_router_ethernet_address random) addr))))"

definition nw_insert :: "getaddrinfo \<Rightarrow> Network \<Rightarrow> u32 list \<Rightarrow> string \<Rightarrow> string \<Rightarrow> string \<Rightarrow> Network res" where
  "nw_insert gai n random name my_address next_hop =
     bindE (Address_of_ip gai my_address 0) (\<lambda>my_address.
     bindE (Address_of_ip gai next_hop 0) (\<lambda>next_hop.
       Inr (if nw_hosts n name = None then put_host name (Host_init random name my_address next_hop) n else n)))"

definition nw_add_route :: "getaddrinfo \<Rightarrow> Network \<Rightarrow> string \<Rightarrow> u8 \<Rightarrow> Address option \<Rightarrow> u64 \<Rightarrow> Network res" where
  "nw_add_route gai n prefix len next_hop interface_num =
     bindE (ip_of_text gai prefix) (\<lambda>p.
       Inr (n\<lparr>nw_router := add_route (nw_router n) p len next_hop interface_num\<rparr>))"

definition nw_address :: "Network \<Rightarrow> string \<Rightarrow> Address res" where
  "nw_address n name = bindE (nw_host n name) (\<lambda>h. Inr (ho_my_address h))"

definition network_interfaces :: "getaddrinfo \<Rightarrow> (nat \<Rightarrow> u32 list) \<Rightarrow> Network res" where
  "network_interfaces gai random =
     bindE (nw_add_interface gai Router_init (random 0) ''171.67.76.46'') (\<lambda>(r, default_id).
     bindE (nw_add_interface gai r (random 1) ''10.0.0.1'') (\<lambda>(r, eth0_id).
     bindE (nw_add_interface gai r (random 2) ''172.16.0.1'') (\<lambda>(r, eth1_id).
     bindE (nw_add_interface gai r (random 3) ''192.168.0.1'') (\<lambda>(r, eth2_id).
     bindE (nw_add_interface gai r (random 4) ''198.178.229.1'') (\<lambda>(r, uun3_id).
     bindE (nw_add_interface gai r (random 5) ''143.195.0.2'') (\<lambda>(r, hs4_id).
     bindE (nw_add_interface gai r (random 6) ''128.30.76.255'') (\<lambda>(r, mit5_id).
       Inr \<lparr>nw_router = r, nw_default_id = default_id, nw_eth0_id = eth0_id, nw_eth1_id = eth1_id,
            nw_eth2_id = eth2_id, nw_uun3_id = uun3_id, nw_hs4_id = hs4_id, nw_mit5_id = mit5_id,
            nw_hosts = Map.empty\<rparr>)))))))"

definition network_hosts :: "getaddrinfo \<Rightarrow> (nat \<Rightarrow> u32 list) \<Rightarrow> Network \<Rightarrow> Network res" where
  "network_hosts gai random n =
     bindE (nw_insert gai n (random 7) ''applesauce'' ''10.0.0.2'' ''10.0.0.1'') (\<lambda>n.
     bindE (nw_insert gai n (random 8) ''default_router'' ''171.67.76.1'' ''0'') (\<lambda>n.
     bindE (nw_insert gai n (random 9) ''cherrypie'' ''192.168.0.2'' ''192.168.0.1'') (\<lambda>n.
     bindE (nw_insert gai n (random 10) ''hs_router'' ''143.195.0.1'' ''0'') (\<lambda>n.
     bindE (nw_insert gai n (random 11) ''dm42'' ''198.178.229.42'' ''198.178.229.1'') (\<lambda>n.
       nw_insert gai n (random 12) ''dm43'' ''198.178.229.43'' ''198.178.229.1'')))))"

definition network_routes :: "getaddrinfo \<Rightarrow> Network \<Rightarrow> Network res" where
  "network_routes gai n =
     bindE (nw_address n ''default_router'') (\<lambda>default_router.
     bindE (nw_address n ''hs_router'') (\<lambda>hs_router.
     bindE (nw_add_route gai n ''0.0.0.0'' 0 (Some default_router) (nw_default_id n)) (\<lambda>n.
     bindE (nw_add_route gai n ''10.0.0.0'' 8 None (nw_eth0_id n)) (\<lambda>n.
     bindE (nw_add_route gai n ''172.16.0.0'' 16 None (nw_eth1_id n)) (\<lambda>n.
     bindE (nw_add_route gai n ''192.168.0.0'' 24 None (nw_eth2_id n)) (\<lambda>n.
     bindE (nw_add_route gai n ''198.178.229.0'' 24 None (nw_uun3_id n)) (\<lambda>n.
     bindE (nw_add_route gai n ''143.195.0.0'' 17 (Some hs_router) (nw_hs4_id n)) (\<lambda>n.
     bindE (nw_add_route gai n ''143.195.128.0'' 18 (Some hs_router) (nw_hs4_id n)) (\<lambda>n.
     bindE (nw_add_route gai n ''143.195.192.0'' 19 (Some hs_router) (nw_hs4_id n)) (\<lambda>n.
     bindE (Address_of_ip gai ''128.30.0.1'' 0) (\<lambda>mit_router.
       nw_add_route gai n ''128.30.76.255'' 16 (Some mit_router) (nw_mit5_id n))))))))))))"

definition Network_init :: "getaddrinfo \<Rightarrow> (nat \<Rightarrow> u32 list) \<Rightarrow> Network res" where
  "Network_init gai random =
     bindE (network_interfaces gai random) (\<lambda>n.
     bindE (network_hosts gai random n) (\<lambda>n. network_routes gai n))"

text \<open>An interface of the router and one or two hosts on the same wire.\<close>

definition nw_exchange :: "u64 \<Rightarrow> string \<Rightarrow> Network \<Rightarrow> Network res" where
  "nw_exchange k name n =
     bindE (rt_interface (nw_router n) k) (\<lambda>x.
     bindE (nw_host n name) (\<lambda>h.
     bindE (exchange_frames x (ho_interface h)) (\<lambda>(x, y).
       Inr (put_host name (h\<lparr>ho_interface := y\<rparr>) (put_interface k x n)))))"

definition nw_exchange3 :: "u64 \<Rightarrow> string \<Rightarrow> string \<Rightarrow> Network \<Rightarrow> Network res" where
  "nw_exchange3 k name1 name2 n =
     bindE (rt_interface (nw_router n) k) (\<lambda>x.
     bindE (nw_host n name1) (\<lambda>h1.
     bindE (nw_host n name2) (\<lambda>h2.
     bindE (exchange_frames3 x (ho_interface h1) (ho_interface h2)) (\<lambda>(x, y, z).
       Inr (put_host name2 (h2\<lparr>ho_interface := z\<rparr>)
             (put_host name1 (h1\<lparr>ho_interface := y\<rparr>) (put_interface k x n)))))))"

definition simulate_physical_connections :: "Network \<Rightarrow> Network res" where
  "simulate_physical_connections n =
     bindE (nw_exchange (nw_default_id n) ''default_router'' n) (\<lambda>n.
     bindE (nw_exchange (nw_eth0_id n) ''applesauce'' n) (\<lambda>n.
     bindE (nw_exchange (nw_eth2_id n) ''cherrypie'' n) (\<lambda>n.
     bindE (nw_exchange (nw_hs4_id n) ''hs_router'' n) (\<lambda>n.
       nw_exchange3 (nw_uun3_id n) ''dm42'' ''dm43'' n))))"

fun simulate_rounds :: "nat \<Rightarrow> Network \<Rightarrow> Network res" where
  "simulate_rounds 0 n = Inr n"
| "simulate_rounds (Suc i) n =
     bindE (route (nw_router n)) (\<lambda>r.
     bindE (simulate_physical_connections (n\<lparr>nw_router := r\<rparr>)) (simulate_rounds i))"

text \<open>The first argument is the order in which the map is traversed.\<close>

fun check_hosts :: "string list \<Rightarrow> Network \<Rightarrow> Network res" where
  "check_hosts [] n = Inr n"
| "check_hosts (name # names) n =
     (case nw_hosts n name of
        None \<Rightarrow> check_hosts names n
      | Some h \<Rightarrow> bindE (host_check h) (\<lambda>h. check_hosts names (put_host name h n)))"

definition simulate :: "string list \<Rightarrow> Network \<Rightarrow> Network res" where
  "simulate order n = bindE (simulate_rounds 256 n) (check_hosts order)"


section \<open>The tests\<close>

definition nw_send_to :: "Network \<Rightarrow> string \<Rightarrow> Address \<Rightarrow> u8 \<Rightarrow> u32 \<Rightarrow> (Network \<times> IPv4Datagram) res" where
  "nw_send_to n name destination ttl random =
     bindE (nw_host n name) (\<lambda>h.
     bindE (send_to h destination ttl random) (\<lambda>(h, dgram). Inr (put_host name h n, dgram)))"

definition nw_expect :: "Network \<Rightarrow> string \<Rightarrow> IPv4Datagram \<Rightarrow> Network res" where
  "nw_expect n name expected = bindE (nw_host n name) (\<lambda>h. Inr (put_host name (host_expect h expected) n))"

text \<open>One test: a datagram is sent and the receiver expects it with its time to live decremented.\<close>

definition nw_traffic :: "string list \<Rightarrow> Network \<Rightarrow> string \<Rightarrow> Address \<Rightarrow> string \<Rightarrow> u32 \<Rightarrow> Network res" where
  "nw_traffic order n sender destination receiver random =
     bindE (nw_send_to n sender destination 64 random) (\<lambda>(n, dgram_sent).
     let dgram_sent = dgram_sent\<lparr>dg_header := (dg_header dgram_sent)\<lparr>ip_ttl := ip_ttl (dg_header dgram_sent) - 1\<rparr>\<rparr> in
     bindE (nw_expect n receiver dgram_sent) (simulate order))"

definition nw_traffic_host :: "string list \<Rightarrow> Network \<Rightarrow> string \<Rightarrow> string \<Rightarrow> u32 \<Rightarrow> Network res" where
  "nw_traffic_host order n sender receiver random =
     bindE (nw_address n receiver) (\<lambda>a. nw_traffic order n sender a receiver random)"

definition nw_traffic_ip :: "getaddrinfo \<Rightarrow> string list \<Rightarrow> Network \<Rightarrow> string \<Rightarrow> string \<Rightarrow> string \<Rightarrow> u32 \<Rightarrow> Network res" where
  "nw_traffic_ip gai order n sender ip receiver random =
     bindE (Address_of_ip gai ip 0) (\<lambda>a. nw_traffic order n sender a receiver random)"

text \<open>A datagram whose time to live does not let it pass the router is expected by nobody.\<close>

definition nw_expired :: "getaddrinfo \<Rightarrow> string list \<Rightarrow> Network \<Rightarrow> string \<Rightarrow> string \<Rightarrow> u8 \<Rightarrow> u32 \<Rightarrow> Network res" where
  "nw_expired gai order n sender ip ttl random =
     bindE (Address_of_ip gai ip 0) (\<lambda>a.
     bindE (nw_send_to n sender a ttl random) (\<lambda>(n, dgram_sent). simulate order n))"

definition network_simulator ::
    "getaddrinfo \<Rightarrow> string list \<Rightarrow> (nat \<Rightarrow> u32 list) \<Rightarrow> (nat \<Rightarrow> u32) \<Rightarrow> Network res" where
  "network_simulator gai order random_address random =
     bindE (Network_init gai random_address) (\<lambda>n.
     bindE (nw_traffic_host order n ''applesauce'' ''cherrypie'' (random 0)) (\<lambda>n.
     bindE (nw_traffic_host order n ''cherrypie'' ''applesauce'' (random 1)) (\<lambda>n.
     bindE (nw_traffic_ip gai order n ''applesauce'' ''1.2.3.4'' ''default_router'' (random 2)) (\<lambda>n.
     bindE (nw_traffic_ip gai order n ''applesauce'' ''143.195.131.17'' ''hs_router'' (random 3)) (\<lambda>n.
     bindE (nw_traffic_ip gai order n ''cherrypie'' ''143.195.193.52'' ''hs_router'' (random 4)) (\<lambda>n.
     bindE (nw_traffic_ip gai order n ''cherrypie'' ''143.195.223.255'' ''hs_router'' (random 5)) (\<lambda>n.
     bindE (nw_traffic_ip gai order n ''cherrypie'' ''143.195.224.0'' ''default_router'' (random 6)) (\<lambda>n.
     bindE (nw_traffic_host order n ''dm42'' ''dm43'' (random 7)) (\<lambda>n.
     bindE (nw_expired gai order n ''applesauce'' ''1.2.3.4'' 1 (random 8)) (\<lambda>n.
       nw_expired gai order n ''applesauce'' ''1.2.3.4'' 0 (random 9)))))))))))"

definition network_simulator_main ::
    "getaddrinfo \<Rightarrow> string list \<Rightarrow> (nat \<Rightarrow> u32 list) \<Rightarrow> (nat \<Rightarrow> u32) \<Rightarrow> int" where
  "network_simulator_main gai order random_address random =
     (case network_simulator gai order random_address random of Inl e \<Rightarrow> 1 | Inr n \<Rightarrow> 0)"


section \<open>What a host accepts\<close>

text \<open>Datagrams are compared by their serialized form.\<close>

definition serializes :: "IPv4Datagram \<Rightarrow> bool" where
  "serializes d \<longleftrightarrow> \<not> isl (ipv4_datagram_serialize d)"

definition datagram_key :: "IPv4Datagram \<Rightarrow> bytes" where
  "datagram_key d = concat (projr (ipv4_datagram_serialize d))"

lemma same_datagram_key:
  assumes "serializes x" "serializes d"
  shows "same_datagram x d = Inr (datagram_key x = datagram_key d)"
proof -
  obtain a b where "ipv4_datagram_serialize x = Inr a" "ipv4_datagram_serialize d = Inr b"
    using assms by (metis serializes_def sum.collapse(2))
  then show ?thesis by (simp add: same_datagram_def datagram_key_def)
qed

lemma expecting_key:
  "\<forall>x \<in> set xs. serializes x \<Longrightarrow> serializes d \<Longrightarrow>
   expecting xs d = Inr (datagram_key d \<in> set (map datagram_key xs))"
  by (induction xs) (auto simp: same_datagram_key)

lemma remove_expectation_key:
  "\<forall>x \<in> set xs. serializes x \<Longrightarrow> serializes d \<Longrightarrow> datagram_key d \<in> set (map datagram_key xs) \<Longrightarrow>
   \<exists>ys. remove_expectation xs d = Inr ys \<and> set ys \<subseteq> set xs \<and>
     mset (map datagram_key xs) = add_mset (datagram_key d) (mset (map datagram_key ys))"
proof (induction xs)
  case (Cons x xs)
  show ?case
  proof (cases "datagram_key x = datagram_key d")
    case True
    then show ?thesis using Cons.prems by (auto simp: same_datagram_key)
  next
    case False
    then obtain ys where "remove_expectation xs d = Inr ys" "set ys \<subseteq> set xs"
        "mset (map datagram_key xs) = add_mset (datagram_key d) (mset (map datagram_key ys))"
      using Cons by auto
    then show ?thesis using False Cons.prems by (auto simp: same_datagram_key)
  qed
qed simp

text \<open>The loop of \<open>check\<close> removes what was received from what is expected, or fails.\<close>

lemma check_received_key:
  assumes "ai_datagrams_out (ho_interface h) = ds" "\<forall>d \<in> set ds. serializes d"
    "\<forall>d \<in> set (ho_expecting_to_receive h). serializes d"
  shows "if mset (map datagram_key ds) \<subseteq># mset (map datagram_key (ho_expecting_to_receive h))
    then \<exists>h'. check_received ds h = Inr h' \<and> ai_datagrams_out (ho_interface h') = [] \<and>
      mset (map datagram_key (ho_expecting_to_receive h')) =
        mset (map datagram_key (ho_expecting_to_receive h)) - mset (map datagram_key ds)
    else isl (check_received ds h)"
  using assms
proof (induction ds arbitrary: h)
  case (Cons d ds)
  let ?E = "ho_expecting_to_receive h"
  show ?case
  proof (cases "datagram_key d \<in> set (map datagram_key ?E)")
    case True
    then obtain ys where ys: "remove_expectation ?E d = Inr ys" "set ys \<subseteq> set ?E"
        "mset (map datagram_key ?E) = add_mset (datagram_key d) (mset (map datagram_key ys))"
      using remove_expectation_key [of ?E d] Cons.prems by auto
    let ?h = "h\<lparr>ho_expecting_to_receive := ys, ho_interface := (ho_interface h)\<lparr>ai_datagrams_out := ds\<rparr>\<rparr>"
    have step: "check_received (d # ds) h = check_received ds ?h"
      using True Cons.prems expecting_key [of ?E d] by (simp add: ys(1))
    have "\<forall>e \<in> set ys. serializes e" using ys(2) Cons.prems(3) by blast
    from Cons.IH [of ?h] this Cons.prems(2) show ?thesis unfolding step
      by (simp add: ys(3) [simplified] split: if_splits)
  next
    case False
    then have "\<not> add_mset (datagram_key d) (mset (map datagram_key ds)) \<subseteq># mset (map datagram_key ?E)"
      by (metis mset_subset_eq_insertD set_mset_mset)
    moreover have "isl (check_received (d # ds) h)"
      using False Cons.prems expecting_key [of ?E d] by auto
    ultimately show ?thesis by simp
  qed
qed simp

text \<open>A wire: what one end sends reaches the other, and nothing is sent twice.\<close>

lemma clear_drop: "length xs \<le> length ys \<Longrightarrow> clear xs ys = Inr (drop (length xs) ys)"
  by (induction xs ys rule: clear.induct) simp_all

text \<open>Frames queued before a call stay in front of the frames it queues.\<close>

definition queued_first :: "EthernetFrame list \<Rightarrow> NetworkInterface \<Rightarrow> NetworkInterface" where
  "queued_first q i = i\<lparr>ni_frames_out := q @ ni_frames_out i\<rparr>"

lemma queued_first_simps [simp]:
  "ni_ip2eth (queued_first q i) = ni_ip2eth i" "ni_ip2dgrams (queued_first q i) = ni_ip2dgrams i"
  "ni_timestamps_arp (queued_first q i) = ni_timestamps_arp i"
  "ni_timestamps_pair (queued_first q i) = ni_timestamps_pair i"
  "ni_time (queued_first q i) = ni_time i" "ni_ip_address (queued_first q i) = ni_ip_address i"
  "ni_ethernet_address (queued_first q i) = ni_ethernet_address i"
  "ni_frames_out (queued_first q i) = q @ ni_frames_out i" "waiting (queued_first q i) = waiting i"
  "(queued_first q i)\<lparr>ni_ip2eth := a\<rparr> = queued_first q (i\<lparr>ni_ip2eth := a\<rparr>)"
  "(queued_first q i)\<lparr>ni_ip2dgrams := b\<rparr> = queued_first q (i\<lparr>ni_ip2dgrams := b\<rparr>)"
  "(queued_first q i)\<lparr>ni_timestamps_arp := c\<rparr> = queued_first q (i\<lparr>ni_timestamps_arp := c\<rparr>)"
  "(queued_first q i)\<lparr>ni_timestamps_pair := d\<rparr> = queued_first q (i\<lparr>ni_timestamps_pair := d\<rparr>)"
  "(queued_first q i)\<lparr>ni_frames_out := q @ fs\<rparr> = queued_first q (i\<lparr>ni_frames_out := fs\<rparr>)"
  by (simp_all add: queued_first_def)

lemma send_arp_queued:
  "send_arp (queued_first q i) op ip eth = bindE (send_arp i op ip eth) (\<lambda>i. Inr (queued_first q i))"
  by (simp add: send_arp_def Let_def bindE_assoc)

lemma send_frame_queued:
  "send_frame (queued_first q i) d eth = bindE (send_frame i d eth) (\<lambda>i. Inr (queued_first q i))"
  by (simp add: send_frame_def Let_def bindE_assoc)

lemma send_waiting_queued:
  "send_waiting ds (queued_first q i) ip eth =
     bindE (send_waiting ds i ip eth) (\<lambda>i. Inr (queued_first q i))"
  by (induction ds arbitrary: i) (simp_all add: send_frame_queued bindE_assoc)

lemma bindE_if: "bindE (if c then m else m') f = (if c then bindE m f else bindE m' f)"
  by simp

lemma recv_arp_queued:
  "recv_arp (queued_first q i) msg = bindE (recv_arp i msg) (\<lambda>i. Inr (queued_first q i))"
  by (auto simp: recv_arp_def Let_def bindE_assoc send_waiting_queued send_arp_queued bindE_if cong: if_cong)

definition async_queued_first :: "EthernetFrame list \<Rightarrow> AsyncNetworkInterface \<Rightarrow> AsyncNetworkInterface" where
  "async_queued_first q ai = ai\<lparr>ai_interface := queued_first q (ai_interface ai)\<rparr>"

lemma recv_frame_queued:
  "async_recv_frame (async_queued_first q ai) f =
     bindE (async_recv_frame ai f) (\<lambda>ai. Inr (async_queued_first q ai))"
  by (cases "recv_arp (ai_interface ai) (snd (arp_parse ARPMessage_init (concat (ef_payload f))))")
    (auto simp: async_recv_frame_def ni_recv_frame_def async_queued_first_def Let_def bindE_assoc recv_arp_queued
      split: prod.splits)

lemma deliver_queued:
  "deliver fs (async_queued_first q ai) = bindE (deliver fs ai) (\<lambda>ai. Inr (async_queued_first q ai))"
  by (induction fs arbitrary: ai) (simp_all add: recv_frame_queued bindE_assoc)

text \<open>An interface whose queue of outgoing frames has been emptied.\<close>

definition unqueued :: "AsyncNetworkInterface \<Rightarrow> AsyncNetworkInterface" where
  "unqueued ai = ai\<lparr>ai_interface := (ai_interface ai)\<lparr>ni_frames_out := []\<rparr>\<rparr>"

lemma deliver_unqueued:
  "deliver fs ai = bindE (deliver fs (unqueued ai)) (\<lambda>ai'. Inr (async_queued_first (ai_frames_out ai) ai'))"
proof -
  have "async_queued_first (ai_frames_out ai) (unqueued ai) = ai"
    by (simp add: async_queued_first_def unqueued_def queued_first_def ai_frames_out_def)
  then show ?thesis using deliver_queued [of fs "ai_frames_out ai" "unqueued ai"] by simp
qed

lemma clear_frames_queued [simp]: "clear_frames q (async_queued_first q ai) = Inr ai"
  by (simp add: clear_frames_def clear_drop ai_frames_out_def async_queued_first_def queued_first_def)

lemma exchange_unqueued:
  "exchange_frames x y =
     bindE (deliver (ai_frames_out x) (unqueued y)) (\<lambda>y'.
     bindE (deliver (ai_frames_out y) (unqueued x)) (\<lambda>x'. Inr (x', y')))"
  unfolding exchange_frames_def Let_def
  by (subst deliver_unqueued [of _ y], subst deliver_unqueued [of _ x]) (simp add: bindE_assoc)

lemma exchange3_unqueued:
  "exchange_frames3 x y z =
     bindE (deliver (ai_frames_out x) (unqueued y)) (\<lambda>y'.
     bindE (deliver (ai_frames_out x) (unqueued z)) (\<lambda>z'.
     bindE (deliver (ai_frames_out y) (unqueued x)) (\<lambda>x'.
     bindE (deliver (ai_frames_out y) z') (\<lambda>z'.
     bindE (deliver (ai_frames_out z) x') (\<lambda>x'.
     bindE (deliver (ai_frames_out z) y') (\<lambda>y'. Inr (x', y', z')))))))"
  unfolding exchange_frames3_def Let_def
  by (subst deliver_unqueued [of _ y], subst deliver_unqueued [of _ x], subst deliver_unqueued [of _ z])
    (simp add: bindE_assoc deliver_queued)

section \<open>No exception between the checks\<close>

text \<open>
  What keeps the calls of a round from throwing: the addresses in use are IPv4 addresses, every
  datagram that waits or was received is valid, and a frame that carries IPv4 carries a valid
  datagram.
\<close>

definition ipv4_ok :: "Address \<Rightarrow> bool" where
  "ipv4_ok a \<longleftrightarrow> \<not> isl (ipv4_numeric a)"

definition frame_ok :: "EthernetFrame \<Rightarrow> bool" where
  "frame_ok f \<longleftrightarrow> (eth_type (ef_header f) = TYPE_IPv4 \<longrightarrow>
     (\<exists>d. ipv4_datagram_valid d \<and> concat (ef_payload f) = concat (datagram_bytes d)))"

definition sendable :: "NetworkInterface \<Rightarrow> bool" where
  "sendable i \<longleftrightarrow> ipv4_ok (ni_ip_address i) \<and>
     (\<forall>ip. \<forall>d \<in> set (waiting i ip). ipv4_datagram_valid d) \<and> (\<forall>f \<in> set (ni_frames_out i). frame_ok f)"

definition sound_interface :: "NetworkInterface \<Rightarrow> bool" where
  "sound_interface i \<longleftrightarrow> ni_wf i \<and> sendable i"

definition sound_async :: "AsyncNetworkInterface \<Rightarrow> bool" where
  "sound_async ai \<longleftrightarrow> sound_interface (ai_interface ai) \<and> (\<forall>d \<in> set (ai_datagrams_out ai). ipv4_datagram_valid d)"

lemma ipv4_okE: "ipv4_ok a \<Longrightarrow> (\<And>ip. ipv4_numeric a = Inr ip \<Longrightarrow> P) \<Longrightarrow> P"
  by (metis ipv4_ok_def sum.collapse(2))

lemma frame_ok_ipv4: "ipv4_datagram_valid d \<Longrightarrow> frame_ok (ipv4_frame src dst (datagram_bytes d))"
  by (auto simp: frame_ok_def ipv4_frame_def)

lemma frame_ok_arp: "frame_ok (arp_frame src dst b)"
  using opcodes(2) by (simp add: frame_ok_def arp_frame_def)

lemma sendable_arp:
  assumes "sendable i" "op = OPCODE_REQUEST \<or> op = OPCODE_REPLY"
  shows "\<exists>i'. send_arp i op ip eth = Inr i' \<and> sendable i'"
proof -
  obtain our where "ipv4_numeric (ni_ip_address i) = Inr our"
    using assms(1) by (auto simp: sendable_def elim: ipv4_okE)
  from send_arp_eq [OF this assms(2)] show ?thesis
    using assms(1) frame_ok_arp by (auto simp: sendable_def)
qed

lemma sound_send_datagram:
  assumes i: "sound_interface i" and d: "ipv4_datagram_valid d" and hop: "ipv4_ok hop"
  shows "\<exists>i'. send_datagram i d hop = Inr i' \<and> sound_interface i'"
proof -
  obtain ip our where ip: "ipv4_numeric hop = Inr ip" "ipv4_numeric (ni_ip_address i) = Inr our"
    using i hop by (auto simp: sound_interface_def sendable_def elim!: ipv4_okE)
  have wf: "ni_wf i" using i by (simp add: sound_interface_def)
  show ?thesis
  proof (cases "ni_ip2eth i ip")
    case None
    obtain i' where i': "send_datagram i d hop = Inr i'"
      using send_datagram_unknown [OF wf ip None] by blast
    have "ni_wf i'" by (rule send_datagram_wf [OF wf i'])
    moreover have "set (waiting i' x) \<subseteq> insert d (set (waiting i x))" "ni_ip_address i' = ni_ip_address i"
        "\<forall>f \<in> set (ni_frames_out i'). f \<in> set (ni_frames_out i) \<or> frame_ok f" for x
      using i' send_datagram_unknown [OF wf ip None, of d] frame_ok_arp
      by (auto simp: waiting_def split: if_splits)
    ultimately show ?thesis using i i' d by (fastforce simp: sound_interface_def sendable_def)
  next
    case (Some eth)
    then show ?thesis
      using i d frame_ok_ipv4 [OF d]
      by (auto simp: send_datagram_known [OF ip(1)] send_frame_eq [OF datagram_bytes_valid [OF d]]
          sound_interface_def sendable_def)
  qed
qed

lemma sendable_waiting:
  assumes "sendable i" "\<forall>d \<in> set q. ipv4_datagram_valid d"
  shows "\<exists>i'. send_waiting q i ip eth = Inr i' \<and> sendable i'"
proof -
  have "frame_ok f" if "f \<in> set (map (\<lambda>d. ipv4_frame src eth (datagram_bytes d)) q)" for f src
    using that assms(2) frame_ok_ipv4 by auto
  then show ?thesis
    using assms(1) by (auto simp: send_waiting_eq [OF assms(2)] sendable_def waiting_def)
qed

lemma sendable_learned [simp]:
  "sendable (i\<lparr>ni_timestamps_pair := ps\<rparr>) = sendable i" "sendable (i\<lparr>ni_ip2eth := m\<rparr>) = sendable i"
  "sendable (i\<lparr>ni_timestamps_arp := a\<rparr>) = sendable i"
  by (simp_all add: sendable_def)

lemma sound_recv_arp:
  assumes "sound_interface i"
  shows "\<exists>i'. recv_arp i msg = Inr i' \<and> sound_interface i'"
proof -
  let ?ip = "arp_sender_ip_address msg" and ?eth = "arp_sender_ethernet_address msg"
  define i1 where "i1 = (if ni_ip2eth i ?ip = None
    then i\<lparr>ni_timestamps_pair := ni_timestamps_pair i @ [((?ip, ?eth), ni_time i)],
           ni_ip2eth := (ni_ip2eth i)(?ip \<mapsto> ?eth)\<rparr> else i)"
  have 1: "sendable i1" "\<forall>d \<in> set (waiting i1 ?ip). ipv4_datagram_valid d"
    using assms by (simp_all add: i1_def sound_interface_def sendable_def)
  have "sendable (i1\<lparr>ni_timestamps_arp := (ni_timestamps_arp i1)(?ip := None)\<rparr>)" using 1 by simp
  then obtain i2 where i2: "sendable i2" "(if ni_timestamps_arp i1 ?ip \<noteq> None
      then send_waiting (waiting i1 ?ip) (i1\<lparr>ni_timestamps_arp := (ni_timestamps_arp i1)(?ip := None)\<rparr>)
        ?ip (the (ni_ip2eth i1 ?ip)) else Inr i1) = Inr i2"
    using sendable_waiting [OF _ 1(2)] 1(1) by (metis (no_types, lifting))
  obtain our where "ipv4_numeric (ni_ip_address i2) = Inr our"
    using i2(1) by (auto simp: sendable_def elim: ipv4_okE)
  then have "recv_arp i msg = (if arp_opcode msg = OPCODE_REQUEST \<and> arp_target_ip_address msg = our
      then send_arp i2 OPCODE_REPLY ?ip ?eth else Inr i2)"
    using i2(2) unfolding recv_arp_def Let_def i1_def [symmetric] by simp
  then obtain i' where "recv_arp i msg = Inr i'" "sendable i'"
    using sendable_arp [OF i2(1)] i2(1) by metis
  then show ?thesis using assms recv_arp_wf by (auto simp: sound_interface_def)
qed

lemma filled_valid: "ipv4_datagram_valid d \<Longrightarrow> ipv4_datagram_valid (ipv4_datagram_filled d)"
  by (simp add: ipv4_datagram_valid_def ipv4_header_ok_def ipv4_datagram_filled_def)

lemma sound_recv_frame:
  assumes ai: "sound_async ai" and f: "frame_ok f"
  shows "\<exists>ai'. async_recv_frame ai f = Inr ai' \<and> sound_async ai'"
proof (cases "eth_type (ef_header f) = TYPE_IPv4 \<and> eth_dst (ef_header f) = ni_ethernet_address (ai_interface ai)")
  case True
  then obtain d where d: "ipv4_datagram_valid d" "concat (ef_payload f) = concat (datagram_bytes d)"
    using f by (auto simp: frame_ok_def)
  from ip.parse_ser [OF d(1) datagram_bytes_valid [OF d(1)]] show ?thesis
    using True ai filled_valid [OF d(1)]
    by (auto simp: async_recv_frame_def ni_recv_frame_def d(2) sound_async_def)
next
  case False
  obtain res msg where "arp_parse ARPMessage_init (concat (ef_payload f)) = (res, msg)" by fastforce
  moreover obtain i' where "recv_arp (ai_interface ai) msg = Inr i'" "sound_interface i'"
    using sound_recv_arp [of "ai_interface ai" msg] ai by (auto simp: sound_async_def)
  ultimately show ?thesis
    using False ai by (auto simp: async_recv_frame_def ni_recv_frame_def sound_async_def)
qed

lemma sound_deliver:
  "sound_async ai \<Longrightarrow> \<forall>f \<in> set fs. frame_ok f \<Longrightarrow> \<exists>ai'. deliver fs ai = Inr ai' \<and> sound_async ai'"
proof (induction fs arbitrary: ai)
  case (Cons f fs)
  then have "frame_ok (f\<lparr>ef_payload := [concat (ef_payload f)]\<rparr>)" by (simp add: frame_ok_def)
  then obtain ai1 where "async_recv_frame ai (f\<lparr>ef_payload := [concat (ef_payload f)]\<rparr>) = Inr ai1" "sound_async ai1"
    using sound_recv_frame Cons.prems(1) by blast
  then show ?case using Cons by simp
qed simp

lemma sound_unqueued: "sound_async ai \<Longrightarrow> sound_async (unqueued ai)"
  by (simp add: sound_async_def sound_interface_def sendable_def unqueued_def)

lemma sound_frames: "sound_async ai \<Longrightarrow> \<forall>f \<in> set (ai_frames_out ai). frame_ok f"
  by (simp add: sound_async_def sound_interface_def sendable_def ai_frames_out_def)

lemma sound_exchange:
  assumes "sound_async x" "sound_async y"
  shows "\<exists>x' y'. exchange_frames x y = Inr (x', y') \<and> sound_async x' \<and> sound_async y'"
proof -
  obtain y' where "deliver (ai_frames_out x) (unqueued y) = Inr y'" "sound_async y'"
    using sound_deliver [OF sound_unqueued [OF assms(2)] sound_frames [OF assms(1)]] by blast
  moreover obtain x' where "deliver (ai_frames_out y) (unqueued x) = Inr x'" "sound_async x'"
    using sound_deliver [OF sound_unqueued [OF assms(1)] sound_frames [OF assms(2)]] by blast
  ultimately show ?thesis by (simp add: exchange_unqueued)
qed

lemma sound_exchange3:
  assumes "sound_async x" "sound_async y" "sound_async z"
  shows "\<exists>x' y' z'. exchange_frames3 x y z = Inr (x', y', z') \<and> sound_async x' \<and> sound_async y' \<and> sound_async z'"
proof -
  note dx = sound_deliver [OF _ sound_frames [OF assms(1)]]
    and dy = sound_deliver [OF _ sound_frames [OF assms(2)]]
    and dz = sound_deliver [OF _ sound_frames [OF assms(3)]]
  obtain y1 where y1: "deliver (ai_frames_out x) (unqueued y) = Inr y1" "sound_async y1"
    using dx [OF sound_unqueued [OF assms(2)]] by blast
  obtain z1 where z1: "deliver (ai_frames_out x) (unqueued z) = Inr z1" "sound_async z1"
    using dx [OF sound_unqueued [OF assms(3)]] by blast
  obtain x1 where x1: "deliver (ai_frames_out y) (unqueued x) = Inr x1" "sound_async x1"
    using dy [OF sound_unqueued [OF assms(1)]] by blast
  obtain z2 x2 y2 where "deliver (ai_frames_out y) z1 = Inr z2" "sound_async z2"
      "deliver (ai_frames_out z) x1 = Inr x2" "sound_async x2"
      "deliver (ai_frames_out z) y1 = Inr y2" "sound_async y2"
    using dy [OF z1(2)] dz [OF x1(2)] dz [OF y1(2)] by blast
  then show ?thesis by (simp add: exchange3_unqueued x1 y1 z1)
qed

text \<open>The routing table leads only to interfaces that exist and next hops with IPv4 addresses.\<close>

fun nodes_ok :: "nat \<Rightarrow> Node \<Rightarrow> bool" where
  "nodes_ok n Null = True"
| "nodes_ok n (Node num a h l r) \<longleftrightarrow> unat num < n \<and> (\<forall>x. a = Some x \<longrightarrow> ipv4_ok x) \<and> nodes_ok n l \<and> nodes_ok n r"

lemma nodes_ok_Insert:
  "nodes_ok n t \<Longrightarrow> unat num < n \<Longrightarrow> (\<And>x. a = Some x \<Longrightarrow> ipv4_ok x) \<Longrightarrow> nodes_ok n (bst_Insert t p len num a)"
  by (induction t p len num a rule: bst_Insert.induct) (auto simp: new_Node_def)

lemma nodes_ok_walk:
  "t \<noteq> Null \<Longrightarrow> v \<noteq> Null \<Longrightarrow> nodes_ok n t \<Longrightarrow> nodes_ok n v \<Longrightarrow>
   bst_walk ip i t v \<noteq> Null \<and> nodes_ok n (bst_walk ip i t v)"
proof (induction i arbitrary: t v)
  case (Suc i)
  obtain k a h l r where "t = Node k a h l r" using Suc.prems(1) by (cases t) auto
  then show ?case using Suc by (auto simp: Let_def)
qed simp

definition sound_router :: "Router \<Rightarrow> bool" where
  "sound_router r \<longleftrightarrow> trie_ok (rt_bst r) \<and> nodes_ok (length (rt_interfaces r)) (rt_bst r) \<and>
     (\<forall>ai \<in> set (rt_interfaces r). sound_async ai)"

lemma sound_router_update:
  "sound_router r \<Longrightarrow> sound_async ai \<Longrightarrow> sound_router (r\<lparr>rt_interfaces := (rt_interfaces r)[k := ai]\<rparr>)"
  by (auto simp: sound_router_def dest!: set_update_subset_insert [THEN subsetD])

lemma sound_rt_send:
  assumes r: "sound_router r" and "unat N < length (rt_interfaces r)" "ipv4_datagram_valid d" "ipv4_ok hop"
  shows "\<exists>r'. rt_send r N d hop = Inr r' \<and> sound_router r'"
proof -
  let ?ai = "rt_interfaces r ! unat N"
  have ai: "sound_async ?ai" using assms by (simp add: sound_router_def)
  then obtain i where "send_datagram (ai_interface ?ai) d hop = Inr i" "sound_interface i"
    using sound_send_datagram assms(3,4) by (metis sound_async_def)
  then show ?thesis
    using assms(2) ai sound_router_update [OF r] by (simp add: rt_send_def rt_interface_def sound_async_def)
qed

lemma sound_route_one:
  assumes r: "sound_router r" and d: "ipv4_datagram_valid d"
  shows "\<exists>r'. route_one_datagram r d = Inr r' \<and> sound_router r'"
proof -
  let ?v = "bst_walk (ip_dst (dg_header d)) 32 (rt_bst r) (rt_bst r)"
  let ?d = "d\<lparr>dg_header := (dg_header d)\<lparr>ip_ttl := ip_ttl (dg_header d) - 1\<rparr>\<rparr>"
  have v: "?v \<noteq> Null" "nodes_ok (length (rt_interfaces r)) ?v"
    using nodes_ok_walk r by (auto simp: sound_router_def trie_ok_def)
  then have num: "unat (num_interface ?v) < length (rt_interfaces r)" "\<forall>a. node_data ?v = Some a \<longrightarrow> ipv4_ok a"
    by (cases ?v; simp)+
  have d': "ipv4_datagram_valid ?d" using d by (simp add: ipv4_datagram_valid_def ipv4_header_ok_def)
  have "ipv4_ok (ipv4_address ip 0)" for ip by (simp add: ipv4_ok_def)
  then show ?thesis
    using sound_rt_send [OF r num(1) d'] num(2) r
    by (cases "node_data ?v") (auto simp: route_one_datagram_def Let_def)
qed

lemma sound_route:
  assumes "sound_router r"
  shows "\<exists>r'. route r = Inr r' \<and> sound_router r' \<and> length (rt_interfaces r') = length (rt_interfaces r)"
proof -
  have "\<exists>r'. route_list ds r = Inr r' \<and> sound_router r'"
    if "sound_router r" "\<forall>d \<in> set ds. ipv4_datagram_valid d" for ds r
    using that
  proof (induction ds arbitrary: r)
    case (Cons d ds)
    then show ?case using sound_route_one [of r d] by fastforce
  qed simp
  moreover have "\<forall>d \<in> set (concat (map ai_datagrams_out (rt_interfaces r))). ipv4_datagram_valid d"
    using assms by (auto simp: sound_router_def sound_async_def)
  ultimately obtain r1 where r1: "sound_router r1"
      "route_list (concat (map ai_datagrams_out (rt_interfaces r))) r = Inr r1"
    using assms by blast
  then have "sound_router (clear_queues r1)" by (auto simp: sound_router_def clear_queues_def sound_async_def)
  then show ?thesis using r1 route_list_queues(1) [OF r1(2)] by (simp add: route_eq) (simp add: clear_queues_def)
qed

text \<open>The whole network.\<close>

definition sound_host :: "Host \<Rightarrow> bool" where
  "sound_host h \<longleftrightarrow> sound_async (ho_interface h) \<and> ipv4_ok (ho_my_address h) \<and> ipv4_ok (ho_next_hop h) \<and>
     (\<forall>d \<in> set (ho_expecting_to_receive h). ipv4_datagram_valid d)"

definition host_names :: "string set" where
  "host_names = {''applesauce'', ''default_router'', ''cherrypie'', ''hs_router'', ''dm42'', ''dm43''}"

definition sound_network :: "Network \<Rightarrow> bool" where
  "sound_network n \<longleftrightarrow> sound_router (nw_router n) \<and>
     (\<forall>k \<in> {nw_default_id n, nw_eth0_id n, nw_eth1_id n, nw_eth2_id n, nw_uun3_id n, nw_hs4_id n, nw_mit5_id n}.
        unat k < length (rt_interfaces (nw_router n))) \<and>
     host_names \<subseteq> dom (nw_hosts n) \<and>
     (\<forall>name h. nw_hosts n name = Some h \<longrightarrow> ho_name h = name \<and> sound_host h)"

text \<open>The only exceptions are the reports of failed checks.\<close>

definition check_report :: "exn \<Rightarrow> bool" where
  "check_report e \<longleftrightarrow> (\<exists>name d. e = Runtime_Error (''Host '' @ name @
       '' received unexpected Internet datagram: '' @ datagram_text d) \<or>
     e = Runtime_Error (''Host '' @ name @ '' did NOT receive an expected Internet datagram: '' @ datagram_text d))"

text \<open>An exception satisfies the first predicate, a result the second.\<close>

definition outcome :: "(exn \<Rightarrow> bool) \<Rightarrow> ('a \<Rightarrow> bool) \<Rightarrow> 'a res \<Rightarrow> bool" where
  "outcome E P m \<longleftrightarrow> (case m of Inl e \<Rightarrow> E e | Inr x \<Rightarrow> P x)"

lemma outcome_simps [simp]: "outcome E P (Inr x) = P x" "outcome E P (Inl e) = E e"
  by (simp_all add: outcome_def)

lemma outcome_bind:
  "outcome E P m \<Longrightarrow> (\<And>x. P x \<Longrightarrow> outcome E Q (f x)) \<Longrightarrow> outcome E Q (bindE m f)"
  by (cases m) simp_all

lemma outcome_total: "outcome (\<lambda>_. False) P m \<longleftrightarrow> (\<exists>x. m = Inr x \<and> P x)"
  by (cases m) simp_all

lemma sound_put_host:
  "sound_network n \<Longrightarrow> sound_host h \<Longrightarrow> ho_name h = name \<Longrightarrow> sound_network (put_host name h n)"
  by (auto simp: sound_network_def put_host_def)

lemma sound_put_interface: "sound_network n \<Longrightarrow> sound_async ai \<Longrightarrow> sound_network (put_interface k ai n)"
  using sound_router_update by (auto simp: sound_network_def put_interface_def)

lemma sound_nw_host:
  assumes "sound_network n" "name \<in> host_names"
  shows "\<exists>h. nw_host n name = Inr h \<and> sound_host h \<and> ho_name h = name"
proof -
  obtain h where "nw_hosts n name = Some h" using assms by (auto simp: sound_network_def)
  then show ?thesis using assms(1) by (auto simp: sound_network_def nw_host_def)
qed

lemma sound_interface_of:
  assumes "sound_network n" "unat k < length (rt_interfaces (nw_router n))"
  shows "\<exists>ai. rt_interface (nw_router n) k = Inr ai \<and> sound_async ai"
  using assms by (simp add: rt_interface_def sound_network_def sound_router_def)

lemma sound_host_interface [simp]:
  "sound_host h \<Longrightarrow> sound_host (h\<lparr>ho_interface := y\<rparr>) = sound_async y"
  by (simp add: sound_host_def)

lemma sound_nw_exchange:
  assumes n: "sound_network n" and k: "unat k < length (rt_interfaces (nw_router n))" and name: "name \<in> host_names"
  shows "outcome E sound_network (nw_exchange k name n)"
proof -
  obtain x h where x: "rt_interface (nw_router n) k = Inr x" "sound_async x"
      "nw_host n name = Inr h" "sound_host h" "ho_name h = name"
    using sound_interface_of [OF n k] sound_nw_host [OF n name] by blast
  then obtain x' y' where "exchange_frames x (ho_interface h) = Inr (x', y')" "sound_async x'" "sound_async y'"
    using sound_exchange [of x "ho_interface h"] by (auto simp: sound_host_def)
  then show ?thesis
    using x n by (simp add: nw_exchange_def sound_put_host sound_put_interface)
qed

lemma sound_nw_exchange3:
  assumes n: "sound_network n" and k: "unat k < length (rt_interfaces (nw_router n))"
    and name: "name1 \<in> host_names" "name2 \<in> host_names"
  shows "outcome E sound_network (nw_exchange3 k name1 name2 n)"
proof -
  obtain x h1 h2 where x: "rt_interface (nw_router n) k = Inr x" "sound_async x"
      "nw_host n name1 = Inr h1" "sound_host h1" "ho_name h1 = name1"
      "nw_host n name2 = Inr h2" "sound_host h2" "ho_name h2 = name2"
    using sound_interface_of [OF n k] sound_nw_host [OF n name(1)] sound_nw_host [OF n name(2)] by blast
  then obtain x' y' z' where "exchange_frames3 x (ho_interface h1) (ho_interface h2) = Inr (x', y', z')"
      "sound_async x'" "sound_async y'" "sound_async z'"
    using sound_exchange3 [of x "ho_interface h1" "ho_interface h2"] by (auto simp: sound_host_def)
  then show ?thesis
    using x n by (simp add: nw_exchange3_def sound_put_host sound_put_interface)
qed

lemma sound_ids:
  assumes "sound_network n"
  shows "unat (nw_default_id n) < length (rt_interfaces (nw_router n))"
    "unat (nw_eth0_id n) < length (rt_interfaces (nw_router n))"
    "unat (nw_eth2_id n) < length (rt_interfaces (nw_router n))"
    "unat (nw_hs4_id n) < length (rt_interfaces (nw_router n))"
    "unat (nw_uun3_id n) < length (rt_interfaces (nw_router n))"
    "unat (nw_eth1_id n) < length (rt_interfaces (nw_router n))"
    "unat (nw_mit5_id n) < length (rt_interfaces (nw_router n))"
  using assms by (simp_all add: sound_network_def)

lemma sound_connections:
  assumes "sound_network n" shows "outcome E sound_network (simulate_physical_connections n)"
  unfolding simulate_physical_connections_def
  by (intro outcome_bind [where P = sound_network] sound_nw_exchange sound_nw_exchange3 assms sound_ids) (simp_all add: host_names_def)

lemma sound_rounds: "sound_network n \<Longrightarrow> outcome E sound_network (simulate_rounds k n)"
proof (induction k arbitrary: n)
  case (Suc k)
  obtain r where "route (nw_router n) = Inr r" "sound_router r"
      "length (rt_interfaces r) = length (rt_interfaces (nw_router n))"
    using sound_route [of "nw_router n"] Suc.prems by (auto simp: sound_network_def)
  then have "sound_network (n\<lparr>nw_router := r\<rparr>)" "route (nw_router n) = Inr r"
    using Suc.prems by (auto simp: sound_network_def)
  then show ?case using sound_connections Suc.IH by (auto intro: outcome_bind)
qed simp

text \<open>Sending, expecting and checking.\<close>

lemma valid_serializes: "ipv4_datagram_valid d \<Longrightarrow> serializes d"
  by (simp add: serializes_def datagram_bytes_valid)

lemma sound_check_received:
  "sound_host h \<Longrightarrow> ai_datagrams_out (ho_interface h) = ds \<Longrightarrow>
   outcome check_report (\<lambda>h'. sound_host h' \<and> ho_name h' = ho_name h) (check_received ds h)"
proof (induction ds arbitrary: h)
  case (Cons d ds)
  let ?E = "ho_expecting_to_receive h"
  have val: "\<forall>x \<in> set ?E. serializes x" "serializes d"
    using Cons.prems valid_serializes by (auto simp: sound_host_def sound_async_def)
  show ?case
  proof (cases "datagram_key d \<in> set (map datagram_key ?E)")
    case True
    then obtain ys where ys: "remove_expectation ?E d = Inr ys" "set ys \<subseteq> set ?E"
      using remove_expectation_key [OF val] by blast
    let ?h = "h\<lparr>ho_expecting_to_receive := ys, ho_interface := (ho_interface h)\<lparr>ai_datagrams_out := ds\<rparr>\<rparr>"
    have "sound_host ?h" using Cons.prems ys(2) by (auto simp: sound_host_def sound_async_def)
    from Cons.IH [OF this] show ?thesis using True ys(1) expecting_key [OF val] by simp
  next
    case False
    then show ?thesis using expecting_key [OF val] by (auto simp: check_report_def)
  qed
qed simp

lemma sound_host_check:
  assumes "sound_host h"
  shows "outcome check_report (\<lambda>h'. sound_host h' \<and> ho_name h' = ho_name h) (host_check h)"
  unfolding host_check_def
  by (rule outcome_bind [OF sound_check_received [OF assms refl]])
    (auto simp: check_report_def split: list.splits)

lemma sound_check_hosts: "sound_network n \<Longrightarrow> outcome check_report sound_network (check_hosts order n)"
proof (induction order arbitrary: n)
  case (Cons name order)
  show ?case
  proof (cases "nw_hosts n name")
    case (Some h)
    then have h: "sound_host h" "ho_name h = name" using Cons.prems by (auto simp: sound_network_def)
    show ?thesis
      using Some h(2) by (auto intro!: outcome_bind [OF sound_host_check [OF h(1)]] Cons.IH sound_put_host Cons.prems)
  qed (use Cons in simp)
qed simp

lemma sound_simulate: "sound_network n \<Longrightarrow> outcome check_report sound_network (simulate order n)"
  unfolding simulate_def by (rule outcome_bind [OF sound_rounds sound_check_hosts])

lemma length_show_base: "n < 10 ^ Suc k \<Longrightarrow> length (show_base 10 n) \<le> Suc k"
proof (induction k arbitrary: n)
  case (Suc k)
  then have "n div 10 < 10 ^ Suc k" by (simp add: less_mult_imp_div_less mult.commute)
  from Suc.IH [OF this] show ?case by (subst show_base.simps) simp
qed (simp add: show_base.simps)

lemma length_u32_text: "length (to_string_nat (unat (w :: u32))) \<le> 10"
  using length_show_base [of "unat w" 9] u32_bound [of w] by (simp add: to_string_nat_def)

lemma sound_send_to:
  assumes h: "sound_host h" and dest: "ipv4_ok destination"
  shows "outcome E (\<lambda>(h', d). sound_host h' \<and> ho_name h' = ho_name h \<and> ipv4_datagram_valid d)
    (send_to h destination ttl random)"
proof -
  obtain src dst where addr: "ipv4_numeric (ho_my_address h) = Inr src" "ipv4_numeric destination = Inr dst"
    using h dest by (auto simp: sound_host_def elim!: ipv4_okE)
  let ?p = "string_bytes (''random payload: {'' @ to_string_nat (unat random) @ ''}'')"
  have "length ?p \<le> 28" using length_u32_text [of random] by (simp add: string_bytes_def)
  then have "unat (20 + word_of_nat (length ?p) :: u16) = 20 + length ?p"
    by (simp add: unat_word_ariths unat_of_nat)
  then have d: "ipv4_datagram_valid \<lparr>dg_header = IPv4Header_init\<lparr>ip_src := src, ip_dst := dst,
      ip_len := 20 + word_of_nat (length ?p), ip_ttl := ttl\<rparr>, dg_payload = [?p]\<rparr>" (is "ipv4_datagram_valid ?d")
    by (simp add: ipv4_datagram_valid_def ipv4_header_ok_def IPv4Header_init_def)
  have "sound_interface (ai_interface (ho_interface h))" "ipv4_ok (ho_next_hop h)"
    using h by (simp_all add: sound_host_def sound_async_def)
  from sound_send_datagram [OF this(1) d this(2)] obtain i where
    "send_datagram (ai_interface (ho_interface h)) ?d (ho_next_hop h) = Inr i" "sound_interface i" by blast
  then show ?thesis
    using h d addr
    by (simp add: send_to_def Let_def IPv4Header_init_def sound_host_def sound_async_def)
qed

lemma sound_nw_send_to:
  assumes "sound_network n" "name \<in> host_names" "ipv4_ok destination"
  shows "outcome E (\<lambda>(n', d). sound_network n' \<and> ipv4_datagram_valid d) (nw_send_to n name destination ttl random)"
proof -
  obtain h where h: "nw_host n name = Inr h" "sound_host h" "ho_name h = name"
    using sound_nw_host [OF assms(1,2)] by blast
  show ?thesis
    unfolding nw_send_to_def
    by (simp add: h(1), rule outcome_bind [OF sound_send_to [OF h(2) assms(3)]])
      (use h assms(1) in \<open>auto intro: sound_put_host\<close>)
qed

lemma sound_nw_expect:
  assumes "sound_network n" "name \<in> host_names" "ipv4_datagram_valid d"
  shows "outcome E sound_network (nw_expect n name d)"
proof -
  obtain h where h: "nw_host n name = Inr h" "sound_host h" "ho_name h = name"
    using sound_nw_host [OF assms(1,2)] by blast
  then have "sound_host (host_expect h d)" "ho_name (host_expect h d) = name"
    using assms(3) by (auto simp: sound_host_def host_expect_def)
  then show ?thesis using sound_put_host [OF assms(1)] by (simp add: nw_expect_def h(1))
qed

lemma sound_nw_address:
  assumes "sound_network n" "name \<in> host_names"
  shows "outcome E ipv4_ok (nw_address n name)"
  using sound_nw_host [OF assms] by (auto simp: nw_address_def sound_host_def)

lemma sound_nw_traffic:
  assumes "sound_network n" "sender \<in> host_names" "receiver \<in> host_names" "ipv4_ok destination"
  shows "outcome check_report sound_network (nw_traffic order n sender destination receiver random)"
  unfolding nw_traffic_def Let_def
  by (rule outcome_bind [OF sound_nw_send_to [OF assms(1,2,4)]])
    (auto simp: ipv4_datagram_valid_def ipv4_header_ok_def assms(3)
      intro!: outcome_bind [OF sound_nw_expect] sound_simulate)

text \<open>The numeric texts of the program, and a resolver that knows them.\<close>

definition network_texts :: "string list" where
  "network_texts = [''171.67.76.46'', ''10.0.0.1'', ''172.16.0.1'', ''192.168.0.1'', ''198.178.229.1'', ''143.195.0.2'',
     ''128.30.76.255'', ''10.0.0.2'', ''171.67.76.1'', ''0'', ''192.168.0.2'', ''143.195.0.1'', ''198.178.229.42'',
     ''198.178.229.43'', ''0.0.0.0'', ''10.0.0.0'', ''172.16.0.0'', ''192.168.0.0'', ''198.178.229.0'', ''143.195.0.0'',
     ''143.195.128.0'', ''143.195.192.0'', ''128.30.0.1'', ''1.2.3.4'', ''143.195.131.17'', ''143.195.193.52'',
     ''143.195.223.255'', ''143.195.224.0'']"

definition network_resolver :: "getaddrinfo \<Rightarrow> bool" where
  "network_resolver gai \<longleftrightarrow> list_all (\<lambda>txt. \<exists>ip. gai txt ''0''
     (make_hints (AI_NUMERICHOST OR AI_NUMERICSERV) AF_INET) = Inr [(sockaddr_in AF_INET 0 ip, 16)]) network_texts"

lemma sound_text:
  assumes "network_resolver gai" "txt \<in> set network_texts"
  shows "outcome E ipv4_ok (Address_of_ip gai txt 0)"
proof -
  obtain ip where "gai txt ''0'' (make_hints (AI_NUMERICHOST OR AI_NUMERICSERV) AF_INET) =
      Inr [(sockaddr_in AF_INET 0 ip, 16)]"
    using assms by (auto simp: network_resolver_def list_all_iff)
  moreover have "to_string_nat 0 = ''0''" by code_simp
  ultimately show ?thesis
    by (simp add: Address_of_ip_def Address_resolve_def Address_of_sockaddr_in ipv4_ok_def)
qed

lemma sound_new_interface:
  "ipv4_ok a \<Longrightarrow> sound_async (async_of_interface (NetworkInterface_init eth a))"
  using NetworkInterface_init_wf
  by (simp add: sound_async_def sound_interface_def sendable_def async_of_interface_def)
    (simp add: NetworkInterface_init_def waiting_def)

definition fresh_router :: "nat \<Rightarrow> Router \<Rightarrow> bool" where
  "fresh_router k r \<longleftrightarrow> (\<forall>ai \<in> set (rt_interfaces r). sound_async ai) \<and> rt_bst r = new_Node \<and>
     length (rt_interfaces r) = k"

lemma add_interface_bind:
  assumes "network_resolver gai" "fresh_router k r" "txt \<in> set network_texts"
    "\<And>r'. fresh_router (Suc k) r' \<Longrightarrow> outcome E Q (f r' (of_nat k))"
  shows "outcome E Q (bindE (nw_add_interface gai r random txt) (\<lambda>(r, id). f r id))"
  unfolding nw_add_interface_def bindE_assoc
proof (rule outcome_bind [OF sound_text [OF assms(1,3)]])
  fix a assume "ipv4_ok a"
  then show "outcome E Q (bindE (Inr (add_interface r (async_of_interface (NetworkInterface_init
      (random_router_ethernet_address random) a)))) (\<lambda>(r, id). f r id))"
    using assms(2,4) sound_new_interface by (auto simp: add_interface_def Let_def sz_def fresh_router_def)
qed

definition network_ready :: "Network \<Rightarrow> bool" where
  "network_ready n \<longleftrightarrow> sound_router (nw_router n) \<and>
     (\<forall>k \<in> {nw_default_id n, nw_eth0_id n, nw_eth1_id n, nw_eth2_id n, nw_uun3_id n, nw_hs4_id n, nw_mit5_id n}.
        unat k < length (rt_interfaces (nw_router n))) \<and>
     (\<forall>name h. nw_hosts n name = Some h \<longrightarrow> ho_name h = name \<and> sound_host h)"

lemma sound_network_interfaces:
  assumes "network_resolver gai"
  shows "outcome E (\<lambda>n. network_ready n \<and> nw_hosts n = Map.empty) (network_interfaces gai random)"
proof -
  have ready: "network_ready \<lparr>nw_router = r, nw_default_id = 0, nw_eth0_id = 1, nw_eth1_id = 2, nw_eth2_id = 3,
      nw_uun3_id = 4, nw_hs4_id = 5, nw_mit5_id = 6, nw_hosts = Map.empty\<rparr>"
    if "fresh_router (Suc (Suc (Suc (Suc (Suc (Suc (Suc 0))))))) r" for r
    using that trie_ok_new by (simp add: network_ready_def fresh_router_def sound_router_def new_Node_def)
  have "fresh_router 0 Router_init" by (simp add: fresh_router_def Router_init_def)
  then show ?thesis
    unfolding network_interfaces_def
    by (rule add_interface_bind [OF assms])
      ((rule add_interface_bind [OF assms], assumption)?, simp add: network_texts_def ready)+
qed

lemma sound_nw_insert:
  assumes "network_resolver gai" "network_ready n" "a \<in> set network_texts" "b \<in> set network_texts"
  shows "outcome E (\<lambda>n'. network_ready n' \<and> dom (nw_hosts n') = insert name (dom (nw_hosts n)))
    (nw_insert gai n random name a b)"
  unfolding nw_insert_def
proof (intro outcome_bind [OF sound_text [OF assms(1,3)]] outcome_bind [OF sound_text [OF assms(1,4)]])
  fix a b assume "ipv4_ok a" "ipv4_ok b"
  then have "sound_host (Host_init random name a b)" "ho_name (Host_init random name a b) = name"
    using sound_new_interface by (simp_all add: sound_host_def Host_init_def)
  then show "outcome E (\<lambda>n'. network_ready n' \<and> dom (nw_hosts n') = insert name (dom (nw_hosts n)))
      (Inr (if nw_hosts n name = None then put_host name (Host_init random name a b) n else n))"
    using assms(2) by (auto simp: network_ready_def put_host_def)
qed

lemma insert_bind:
  assumes "network_resolver gai" "network_ready n" "dom (nw_hosts n) = D"
    "a \<in> set network_texts" "b \<in> set network_texts"
    "\<And>n'. network_ready n' \<Longrightarrow> dom (nw_hosts n') = insert name D \<Longrightarrow> outcome E Q (f n')"
  shows "outcome E Q (bindE (nw_insert gai n random name a b) f)"
  by (rule outcome_bind [OF sound_nw_insert [OF assms(1,2,4,5)]]) (use assms in auto)

lemma insert_last:
  assumes "network_resolver gai" "network_ready n" "dom (nw_hosts n) = D"
    "a \<in> set network_texts" "b \<in> set network_texts"
    "\<And>n'. network_ready n' \<Longrightarrow> dom (nw_hosts n') = insert name D \<Longrightarrow> Q n'"
  shows "outcome E Q (nw_insert gai n random name a b)"
proof -
  have "outcome E Q (bindE (nw_insert gai n random name a b) Inr)"
    by (rule insert_bind [OF assms(1-5)]) (simp add: assms(6))
  then show ?thesis by (cases "nw_insert gai n random name a b") simp_all
qed

lemma sound_network_hosts:
  assumes "network_resolver gai" "network_ready n" "nw_hosts n = Map.empty"
  shows "outcome E sound_network (network_hosts gai random n)"
proof -
  have sound: "sound_network n" if "network_ready n" "host_names \<subseteq> dom (nw_hosts n)" for n
    using that by (simp add: network_ready_def sound_network_def)
  have "dom (nw_hosts n) = {}" using assms(3) by simp
  with assms(2) show ?thesis
    unfolding network_hosts_def
    by (rule insert_bind [OF assms(1)])
      ((rule insert_bind [OF assms(1)] insert_last [OF assms(1)], assumption, assumption)?,
        simp add: network_texts_def sound host_names_def)+
qed

lemma sound_nw_add_route:
  assumes "network_resolver gai" "sound_network n" "txt \<in> set network_texts" "unat len \<le> 32"
    "unat k < length (rt_interfaces (nw_router n))" "\<And>x. next_hop = Some x \<Longrightarrow> ipv4_ok x"
  shows "outcome E sound_network (nw_add_route gai n txt len next_hop k)"
proof -
  have "outcome E (\<lambda>_. True) (ip_of_text gai txt)"
    unfolding ip_of_text_def
    by (rule outcome_bind [OF sound_text [OF assms(1,3)]]) (auto elim: ipv4_okE)
  then show ?thesis
    unfolding nw_add_route_def
    by (rule outcome_bind)
      (use assms in \<open>auto simp: sound_network_def sound_router_def add_route_def intro!: trie_ok_Insert nodes_ok_Insert\<close>)
qed

lemma sound_network_routes:
  assumes "network_resolver gai" "sound_network n"
  shows "outcome E sound_network (network_routes gai n)"
  unfolding network_routes_def
  by (intro outcome_bind [where P = sound_network] outcome_bind [OF sound_nw_address]
      outcome_bind [OF sound_text [OF assms(1)]] sound_nw_add_route [OF assms(1)] assms(2) sound_ids)
    (simp_all add: host_names_def network_texts_def)

lemma sound_Network_init:
  assumes "network_resolver gai"
  shows "outcome E sound_network (Network_init gai random)"
  unfolding Network_init_def
  by (intro outcome_bind [OF sound_network_interfaces [OF assms]]
      outcome_bind [OF sound_network_hosts [OF assms]] sound_network_routes [OF assms]) auto

lemma sound_nw_traffic_host:
  assumes "sound_network n" "sender \<in> host_names" "receiver \<in> host_names"
  shows "outcome check_report sound_network (nw_traffic_host order n sender receiver random)"
  unfolding nw_traffic_host_def
  by (rule outcome_bind [OF sound_nw_address [OF assms(1,3)] sound_nw_traffic [OF assms]])

lemma sound_nw_traffic_ip:
  assumes "network_resolver gai" "sound_network n" "sender \<in> host_names" "receiver \<in> host_names"
    "txt \<in> set network_texts"
  shows "outcome check_report sound_network (nw_traffic_ip gai order n sender txt receiver random)"
  unfolding nw_traffic_ip_def
  by (rule outcome_bind [OF sound_text [OF assms(1,5)] sound_nw_traffic [OF assms(2-4)]])

lemma sound_nw_expired:
  assumes "network_resolver gai" "sound_network n" "sender \<in> host_names" "txt \<in> set network_texts"
  shows "outcome check_report sound_network (nw_expired gai order n sender txt ttl random)"
  unfolding nw_expired_def
  by (rule outcome_bind [OF sound_text [OF assms(1,4)]], rule outcome_bind [OF sound_nw_send_to [OF assms(2,3)]])
    (auto intro: sound_simulate)

lemma sound_network_simulator:
  assumes "network_resolver gai"
  shows "outcome check_report sound_network (network_simulator gai order random_address random)"
  unfolding network_simulator_def
  by (intro outcome_bind [OF sound_Network_init [OF assms]] outcome_bind [OF sound_nw_traffic_host]
      outcome_bind [OF sound_nw_traffic_ip [OF assms]] outcome_bind [OF sound_nw_expired [OF assms]]
      sound_nw_expired [OF assms])
    (simp_all add: host_names_def network_texts_def)

lemma numeric_network_resolver: "network_resolver numeric_getaddrinfo"
proof -
  have "word_of_nat (read_base 10 ''0'') = (0 :: u16)" by code_simp
  then show ?thesis by (auto simp: network_resolver_def list_all_iff numeric_getaddrinfo_def)
qed

section \<open>Properties\<close>

text \<open>
  C34. Two or three interfaces on a wire: exchanging frames is delivering what each end had
  queued to the others, each with its own queue emptied first. So every frame is delivered exactly
  once and in order, the frames sent in response stay queued for the next exchange, and the queues
  popped at the end are never empty.
\<close>

theorem wire_exchange:
  "exchange_frames x y =
     bindE (deliver (ai_frames_out x) (unqueued y)) (\<lambda>y'.
     bindE (deliver (ai_frames_out y) (unqueued x)) (\<lambda>x'. Inr (x', y'))) \<and>
   exchange_frames3 x y z =
     bindE (deliver (ai_frames_out x) (unqueued y)) (\<lambda>y'.
     bindE (deliver (ai_frames_out x) (unqueued z)) (\<lambda>z'.
     bindE (deliver (ai_frames_out y) (unqueued x)) (\<lambda>x'.
     bindE (deliver (ai_frames_out y) z') (\<lambda>z'.
     bindE (deliver (ai_frames_out z) x') (\<lambda>x'.
     bindE (deliver (ai_frames_out z) y') (\<lambda>y'. Inr (x', y', z')))))))"
  using exchange_unqueued exchange3_unqueued by blast

text \<open>
  C35. A host accepts what it received exactly when the received datagrams are the expected ones,
  in any order and each as often as expected, compared by their serialized form; then nothing is
  left in either list.
\<close>

theorem host_check_multiset:
  assumes "\<forall>d \<in> set (ai_datagrams_out (ho_interface h)). serializes d"
    "\<forall>d \<in> set (ho_expecting_to_receive h). serializes d"
  shows "case host_check h of
      Inl e \<Rightarrow> mset (map datagram_key (ai_datagrams_out (ho_interface h))) \<noteq>
        mset (map datagram_key (ho_expecting_to_receive h))
    | Inr h' \<Rightarrow> mset (map datagram_key (ai_datagrams_out (ho_interface h))) =
        mset (map datagram_key (ho_expecting_to_receive h)) \<and>
        ai_datagrams_out (ho_interface h') = [] \<and> ho_expecting_to_receive h' = []"
proof -
  let ?R = "mset (map datagram_key (ai_datagrams_out (ho_interface h)))"
    and ?E = "mset (map datagram_key (ho_expecting_to_receive h))"
  note step = check_received_key [OF refl assms]
  show ?thesis
  proof (cases "?R \<subseteq># ?E")
    case True
    then obtain h' where h': "check_received (ai_datagrams_out (ho_interface h)) h = Inr h'"
        "ai_datagrams_out (ho_interface h') = []" "mset (map datagram_key (ho_expecting_to_receive h')) = ?E - ?R"
      using step by auto
    then have "ho_expecting_to_receive h' = [] \<longleftrightarrow> ?E - ?R = {#}" by (metis mset_zero_iff map_is_Nil_conv)
    also have "\<dots> \<longleftrightarrow> ?R = ?E" using True by (metis Diff_eq_empty_iff_mset subset_mset.antisym subset_mset.order_refl)
    finally show ?thesis using h'(1,2) by (auto simp: host_check_def split: list.splits)
  next
    case False
    then have "isl (check_received (ai_datagrams_out (ho_interface h)) h)" using step by simp
    then obtain e where "check_received (ai_datagrams_out (ho_interface h)) h = Inl e" by (auto simp: isl_def)
    then show ?thesis using False by (auto simp: host_check_def)
  qed
qed


theorem host_check_multiset_witness:
  "let d = small_datagram; e = small_datagram\<lparr>dg_header := (dg_header small_datagram)\<lparr>ip_ttl := 7\<rparr>\<rparr>;
       h = (Host_init [1, 2, 3, 4, 5, 6] ''h'' (ipv4_address 1 0) (ipv4_address 2 0))
         \<lparr>ho_expecting_to_receive := [d, e]\<rparr>;
       h = h\<lparr>ho_interface := (ho_interface h)\<lparr>ai_datagrams_out := [e, d]\<rparr>\<rparr>
   in \<exists>h'. host_check h = Inr h' \<and> ai_datagrams_out (ho_interface h') = [] \<and> ho_expecting_to_receive h' = []"
proof -
  let ?d = small_datagram and ?e = "small_datagram\<lparr>dg_header := (dg_header small_datagram)\<lparr>ip_ttl := 7\<rparr>\<rparr>"
  let ?h0 = "(Host_init [1, 2, 3, 4, 5, 6] ''h'' (ipv4_address 1 0) (ipv4_address 2 0))\<lparr>ho_expecting_to_receive := [?d, ?e]\<rparr>"
  let ?h = "?h0\<lparr>ho_interface := (ho_interface ?h0)\<lparr>ai_datagrams_out := [?e, ?d]\<rparr>\<rparr>"
  have "serializes ?d" "serializes ?e"
    using small_datagram_valid
    by (auto intro!: valid_serializes simp: ipv4_datagram_valid_def ipv4_header_ok_def)
  then have "\<forall>d \<in> set (ai_datagrams_out (ho_interface ?h)). serializes d"
      "\<forall>d \<in> set (ho_expecting_to_receive ?h). serializes d" by simp_all
  from host_check_multiset [OF this] show ?thesis
    by (cases "host_check ?h") (simp_all add: Let_def add_mset_commute)
qed


end
