(* ===== verification/TCP_Over_IP.thy ===== *)
theory TCP_Over_IP
  imports IPv4 Socket_Address
begin

text \<open>
  \<open>FdAdapterConfig\<close>, \<open>FdAdapterBase\<close> and \<open>TCPOverIPv4Adapter\<close>
  (\<open>src/libsponge/tcp_helpers/tcp_config.hh\<close>, \<open>fd_adapter.hh\<close>, \<open>tcp_over_ip.hh\<close>,
  \<open>tcp_over_ip.cc\<close>): TCP segments in IPv4 datagrams, with the filter that keeps the segments of
  one connection and the rule by which a listening adapter chooses its peer. Ports come from
  \<open>getnameinfo\<close> and new addresses from \<open>getaddrinfo\<close>, which are arguments.
\<close>

section \<open>State and operations\<close>

record FdAdapterConfig =
  fc_source :: Address
  fc_destination :: Address
  fc_loss_rate_dn :: u16
  fc_loss_rate_up :: u16

definition FdAdapterConfig_init :: "getaddrinfo \<Rightarrow> FdAdapterConfig res" where
  "FdAdapterConfig_init gai =
     bindE (Address_of_ip gai ''0'' 0) (\<lambda>source.
     bindE (Address_of_ip gai ''0'' 0) (\<lambda>destination.
       Inr \<lparr>fc_source = source, fc_destination = destination, fc_loss_rate_dn = 0, fc_loss_rate_up = 0\<rparr>))"

record FdAdapterBase =
  fa_cfg :: FdAdapterConfig
  fa_listen :: bool

definition FdAdapterBase_init :: "getaddrinfo \<Rightarrow> FdAdapterBase res" where
  "FdAdapterBase_init gai = bindE (FdAdapterConfig_init gai) (\<lambda>cfg. Inr \<lparr>fa_cfg = cfg, fa_listen = False\<rparr>)"

definition set_listening :: "FdAdapterBase \<Rightarrow> bool \<Rightarrow> FdAdapterBase" where
  "set_listening a l = a\<lparr>fa_listen := l\<rparr>"

definition fa_set_config :: "FdAdapterBase \<Rightarrow> FdAdapterConfig \<Rightarrow> FdAdapterBase" where
  "fa_set_config a cfg = a\<lparr>fa_cfg := cfg\<rparr>"

definition address_port :: "getnameinfo \<Rightarrow> Address \<Rightarrow> u16 res" where
  "address_port gni a = bindE (ip_port gni a) (\<lambda>(_, port). Inr port)"

text \<open>The addresses and the peer of a listening adapter, taken from the first SYN.\<close>

definition adopt_peer :: "getaddrinfo \<Rightarrow> getnameinfo \<Rightarrow> FdAdapterBase \<Rightarrow> IPv4Header \<Rightarrow> TCPHeader \<Rightarrow> FdAdapterBase res" where
  "adopt_peer gai gni a ip th =
     bindE (address_port gni (fc_source (fa_cfg a))) (\<lambda>port.
     bindE (Address_of_ip gai (dotted_quad (ip_dst ip)) port) (\<lambda>source.
     bindE (Address_of_ip gai (dotted_quad (ip_src ip)) (th_sport th)) (\<lambda>destination.
       Inr (set_listening (a\<lparr>fa_cfg := (fa_cfg a)\<lparr>fc_source := source, fc_destination := destination\<rparr>\<rparr>) False))))"

definition unwrap_tcp_in_ip ::
    "getaddrinfo \<Rightarrow> getnameinfo \<Rightarrow> FdAdapterBase \<Rightarrow> IPv4Datagram \<Rightarrow> (FdAdapterBase \<times> TCPSegment option) res" where
  "unwrap_tcp_in_ip gai gni a ip_dgram =
     (let ip = dg_header ip_dgram in
      bindE (if fa_listen a then Inr True
             else bindE (ipv4_numeric (fc_source (fa_cfg a))) (\<lambda>n. Inr (ip_dst ip = n))) (\<lambda>for_us.
      if \<not> for_us then Inr (a, None)
      else
      bindE (if fa_listen a then Inr True
             else bindE (ipv4_numeric (fc_destination (fa_cfg a))) (\<lambda>n. Inr (ip_src ip = n))) (\<lambda>from_peer.
      if \<not> from_peer then Inr (a, None)
      else if ip_proto ip \<noteq> PROTO_TCP then Inr (a, None)
      else
      bindE (pieces_to_buffer (dg_payload ip_dgram)) (\<lambda>payload.
      let (result, tcp_seg) = tcp_segment_parse TCPSegment_init payload (pseudo_cksum ip) in
      if result \<noteq> NoError then Inr (a, None)
      else
      bindE (address_port gni (fc_source (fa_cfg a))) (\<lambda>our_port.
      if th_dport (ts_header tcp_seg) \<noteq> our_port then Inr (a, None)
      else
      bindE (if fa_listen a then
               if th_syn (ts_header tcp_seg) \<and> \<not> th_rst (ts_header tcp_seg)
               then bindE (adopt_peer gai gni a ip (ts_header tcp_seg)) (\<lambda>a. Inr (Some a))
               else Inr None
             else Inr (Some a)) (\<lambda>adapter.
      case adapter of
        None \<Rightarrow> Inr (a, None)
      | Some a \<Rightarrow>
        bindE (address_port gni (fc_destination (fa_cfg a))) (\<lambda>peer_port.
        if th_sport (ts_header tcp_seg) \<noteq> peer_port then Inr (a, None)
        else Inr (a, Some tcp_seg))))))))"

text \<open>The segment is passed by reference; it is returned with its ports set.\<close>

definition wrap_tcp_in_ip ::
    "getnameinfo \<Rightarrow> FdAdapterBase \<Rightarrow> TCPSegment \<Rightarrow> (TCPSegment \<times> IPv4Datagram) res" where
  "wrap_tcp_in_ip gni a seg =
     bindE (address_port gni (fc_source (fa_cfg a))) (\<lambda>sport.
     bindE (address_port gni (fc_destination (fa_cfg a))) (\<lambda>dport.
     let seg = seg\<lparr>ts_header := (ts_header seg)\<lparr>th_sport := sport, th_dport := dport\<rparr>\<rparr> in
     bindE (ipv4_numeric (fc_source (fa_cfg a))) (\<lambda>src.
     bindE (ipv4_numeric (fc_destination (fa_cfg a))) (\<lambda>dst.
     let len = 4 * ucast (ip_hlen IPv4Header_init) + 4 * ucast (th_doff (ts_header seg)) + sz (ts_payload seg) :: u64;
         h = IPv4Header_init\<lparr>ip_src := src, ip_dst := dst, ip_len := ucast len\<rparr>
     in
     bindE (tcp_segment_serialize seg (pseudo_cksum h)) (\<lambda>payload.
       Inr (seg, \<lparr>dg_header = h, dg_payload = payload\<rparr>))))))"

section \<open>Addresses of a connection\<close>

lemma resolver_address:
  assumes "numeric_resolver gai gni"
  shows "Address_of_ip gai (dotted_quad ip) port = Inr (ipv4_address ip port)"
    and "address_port gni (ipv4_address ip port) = Inr port"
  using assms u16_bound [of port]
  by (simp_all add: Address_of_ip_def Address_resolve_def numeric_resolver_def Address_of_sockaddr_in
      address_port_def ip_port_def ipv4_address_def stoi_to_string)

text \<open>An adapter between two IPv4 end points.\<close>

definition linked :: "FdAdapterBase \<Rightarrow> u32 \<Rightarrow> u16 \<Rightarrow> u32 \<Rightarrow> u16 \<Rightarrow> bool" where
  "linked a ip port peer_ip peer_port \<longleftrightarrow> fc_source (fa_cfg a) = ipv4_address ip port \<and>
     fc_destination (fa_cfg a) = ipv4_address peer_ip peer_port"

section \<open>Lengths and checksums\<close>

lemma low16: "unat ((x :: u32) AND 0xffff) < 65536"
proof -
  have eq: "x AND 0xffff = take_bit 16 x" by (simp add: take_bit_eq_mask mask_eq_exp_minus_1)
  have "unat (take_bit 16 x) < 65536" by (simp only: unsigned_take_bit_eq) (simp add: take_bit_eq_mod)
  then show ?thesis by (simp only: eq)
qed

lemma high16: "unat (drop_bit 16 (x :: u32)) < 65536"
  using u32_bound [of x] by (simp add: unat_drop_bit_eq) (simp add: drop_bit_eq_div less_mult_imp_div_less)

lemma pseudo_cksum_bound: "unat (pseudo_cksum h) < 6 * 65536"
proof -
  have add: "unat (a + b) \<le> unat a + unat b" for a b :: u32
    by (simp add: unat_word_ariths)
  have "unat (pseudo_cksum h) \<le> unat (drop_bit 16 (ip_src h)) + unat (ip_src h AND 0xffff) +
      (unat (drop_bit 16 (ip_dst h)) + unat (ip_dst h AND 0xffff)) +
      unat (ucast (ip_proto h) :: u32) + unat (ucast (payload_length h) :: u32)"
    unfolding pseudo_cksum_def Let_def
    by (intro order_trans [OF add] add_mono order_refl)
  moreover have "unat (ucast (ip_proto h) :: u32) < 65536" "unat (ucast (payload_length h) :: u32) < 65536"
    using u8_bound [of "ip_proto h"] u16_bound [of "payload_length h"] by (simp_all add: unat_ucast_mod)
  ultimately show ?thesis
    using low16 [of "ip_src h"] low16 [of "ip_dst h"] high16 [of "ip_src h"] high16 [of "ip_dst h"] by linarith
qed

lemma pseudo_cksum_cksum [simp]: "pseudo_cksum (h\<lparr>ip_cksum := c\<rparr>) = pseudo_cksum h"
  by (simp add: pseudo_cksum_def)

text \<open>A segment that fits into a datagram; the sender never puts more than 1000 bytes into one.\<close>

definition segment_fits :: "TCPSegment \<Rightarrow> bool" where
  "segment_fits seg \<longleftrightarrow> tcp_doff_ok (ts_header seg) \<and> length (ts_payload seg) \<le> 65000"

lemma segment_fits_valid: "segment_fits seg \<Longrightarrow> tcp_segment_valid (pseudo_cksum h) seg"
  using pseudo_cksum_bound [of h] by (auto simp: segment_fits_def tcp_segment_valid_def tcp_doff_ok_def)

lemma segment_bytes_length:
  assumes "tcp_doff_ok (ts_header seg)" "tcp_segment_serialize seg ck = Inr ps"
  shows "length (concat ps) = 4 * unat (th_doff (ts_header seg)) + length (ts_payload seg)"
  using assms by (auto simp: tcp_segment_serialize_eq tcp_after_def tcp_doff_ok_def)

definition with_ports :: "TCPSegment \<Rightarrow> u16 \<Rightarrow> u16 \<Rightarrow> TCPSegment" where
  "with_ports seg sport dport = seg\<lparr>ts_header := (ts_header seg)\<lparr>th_sport := sport, th_dport := dport\<rparr>\<rparr>"

lemma with_ports_fits [simp]: "segment_fits (with_ports seg sp dp) = segment_fits seg"
  by (simp add: segment_fits_def with_ports_def tcp_doff_ok_def)

lemma wrap_linked:
  assumes "numeric_resolver gai gni" "linked a ip port peer_ip peer_port" "segment_fits seg"
  shows "\<exists>d. wrap_tcp_in_ip gni a seg = Inr (with_ports seg port peer_port, d) \<and> ipv4_datagram_valid d \<and>
    ip_src (dg_header d) = ip \<and> ip_dst (dg_header d) = peer_ip \<and> ip_proto (dg_header d) = PROTO_TCP \<and>
    tcp_segment_serialize (with_ports seg port peer_port) (pseudo_cksum (dg_header d)) = Inr (dg_payload d)"
proof -
  let ?s = "with_ports seg port peer_port"
  let ?len = "4 * ucast (ip_hlen IPv4Header_init) + 4 * ucast (th_doff (ts_header seg)) + sz (ts_payload seg) :: u64"
  define h where "h = IPv4Header_init\<lparr>ip_src := ip, ip_dst := peer_ip, ip_len := ucast ?len\<rparr>"
  have fits: "segment_fits ?s" using assms(3) by simp
  obtain ps where ps: "tcp_segment_serialize ?s (pseudo_cksum h) = Inr ps"
    using tcp.ser_ok [OF segment_fits_valid [OF fits]] by blast
  have len: "unat ?len = 20 + 4 * unat (th_doff (ts_header seg)) + length (ts_payload seg)"
  proof -
    have eq: "?len = word_of_nat (20 + 4 * unat (th_doff (ts_header seg)) + length (ts_payload seg))"
      by (simp add: IPv4Header_init_def sz_def)
    show ?thesis
      unfolding eq using assms(3) by (intro unat_u64_of_nat) (simp add: segment_fits_def tcp_doff_ok_def)
  qed
  have "20 + 4 * unat (th_doff (ts_header seg)) + length (ts_payload seg) < 65536"
    using assms(3) by (simp add: segment_fits_def tcp_doff_ok_def)
  then have "ipv4_datagram_valid \<lparr>dg_header = h, dg_payload = ps\<rparr>"
    using segment_bytes_length [OF _ ps] fits len
    by (simp add: ipv4_datagram_valid_def h_def ipv4_header_ok_def segment_fits_def with_ports_def
        IPv4Header_init_def unat_ucast_mod)
  moreover have "wrap_tcp_in_ip gni a seg = Inr (?s, \<lparr>dg_header = h, dg_payload = ps\<rparr>)"
    using assms(2) resolver_address(2) [OF assms(1)] ps
    by (simp add: wrap_tcp_in_ip_def linked_def with_ports_def h_def Let_def)
  ultimately show ?thesis
    using ps by (simp add: h_def) (simp add: IPv4Header_init_def)
qed

section \<open>Through the wire\<close>

lemma wrap_unwrap_linked:
  assumes res: "numeric_resolver gai gni" and fits: "segment_fits seg"
    and a: "linked a ip_a port_a ip_b port_b"
    and b: "if fa_listen b
      then (\<exists>any. fc_source (fa_cfg b) = ipv4_address any port_b) \<and>
        th_syn (ts_header seg) \<and> \<not> th_rst (ts_header seg)
      else linked b ip_b port_b ip_a port_a"
  shows "\<exists>seg' d ps d' c b'. wrap_tcp_in_ip gni a seg = Inr (seg', d) \<and>
    ipv4_datagram_serialize d = Inr ps \<and>
    ipv4_datagram_parse IPv4Datagram_init (concat ps) = (NoError, d') \<and>
    unwrap_tcp_in_ip gai gni b d' = Inr (b', Some (seg\<lparr>ts_header := (ts_header seg)
      \<lparr>th_sport := port_a, th_dport := port_b, th_cksum := c\<rparr>\<rparr>)) \<and>
    linked b' ip_b port_b ip_a port_a \<and> \<not> fa_listen b' \<and> (\<not> fa_listen b \<longrightarrow> b' = b)"
proof -
  let ?s = "with_ports seg port_a port_b"
  obtain d where d: "wrap_tcp_in_ip gni a seg = Inr (?s, d)" "ipv4_datagram_valid d"
      "ip_src (dg_header d) = ip_a" "ip_dst (dg_header d) = ip_b" "ip_proto (dg_header d) = PROTO_TCP"
      "tcp_segment_serialize ?s (pseudo_cksum (dg_header d)) = Inr (dg_payload d)"
    using wrap_linked [OF res a fits] by blast
  obtain ps where ps: "ipv4_datagram_serialize d = Inr ps"
      "ipv4_datagram_parse IPv4Datagram_init (concat ps) = (NoError, ipv4_datagram_filled d)"
    using ip.parse_ser_ex [OF d(2)] by blast
  let ?ck = "pseudo_cksum (dg_header d)"
  have valid: "tcp_segment_valid ?ck ?s" using fits by (intro segment_fits_valid) simp
  have parse: "tcp_segment_parse TCPSegment_init (concat (dg_payload d)) ?ck = (NoError, tcp_segment_filled ?ck ?s)"
    by (rule tcp.parse_ser [OF valid d(6)])
  have hdr: "ts_header (tcp_segment_filled ?ck ?s) = (ts_header seg)
      \<lparr>th_sport := port_a, th_dport := port_b, th_cksum := tcp_segment_cksum ?ck ?s\<rparr>"
      "tcp_segment_filled ?ck ?s = seg\<lparr>ts_header := (ts_header seg)
        \<lparr>th_sport := port_a, th_dport := port_b, th_cksum := tcp_segment_cksum ?ck ?s\<rparr>\<rparr>"
    by (simp_all add: tcp_segment_filled_def with_ports_def)
  define b' where "b' = (if fa_listen b then b\<lparr>fa_cfg := (fa_cfg b)\<lparr>fc_source := ipv4_address ip_b port_b,
    fc_destination := ipv4_address ip_a port_a\<rparr>, fa_listen := False\<rparr> else b)"
  have "unwrap_tcp_in_ip gai gni b (ipv4_datagram_filled d) = Inr (b', Some (tcp_segment_filled ?ck ?s))"
    using b parse resolver_address [OF res]
    by (auto simp: unwrap_tcp_in_ip_def ipv4_datagram_filled_def d linked_def pieces_to_buffer_def hdr(1)
        adopt_peer_def set_listening_def b'_def Let_def split: if_splits)
  moreover have "linked b' ip_b port_b ip_a port_a" "\<not> fa_listen b'" "\<not> fa_listen b \<longrightarrow> b' = b"
    using b by (auto simp: b'_def linked_def)
  ultimately show ?thesis using d(1) ps unfolding hdr(2) by blast
qed

section \<open>Properties\<close>


text \<open>
  C29. The filter of the adapter: a segment gets through only from a TCP datagram with a correct
  checksum whose ports are those of the connection; when the adapter is connected, only with the
  addresses of the connection and without changing the adapter; when it listens, only a SYN
  without RST, and the adapter stops listening with the addresses of the datagram.
\<close>

theorem unwrap_tcp_filters:
  assumes "unwrap_tcp_in_ip gai gni a d = Inr (a', Some seg)"
  shows "ip_proto (dg_header d) = PROTO_TCP \<and>
    tcp_segment_parse TCPSegment_init (concat (dg_payload d)) (pseudo_cksum (dg_header d)) = (NoError, seg) \<and>
    address_port gni (fc_source (fa_cfg a)) = Inr (th_dport (ts_header seg)) \<and>
    address_port gni (fc_destination (fa_cfg a')) = Inr (th_sport (ts_header seg)) \<and> \<not> fa_listen a' \<and>
    (if fa_listen a
     then th_syn (ts_header seg) \<and> \<not> th_rst (ts_header seg) \<and>
       Address_of_ip gai (dotted_quad (ip_dst (dg_header d))) (th_dport (ts_header seg)) = Inr (fc_source (fa_cfg a')) \<and>
       Address_of_ip gai (dotted_quad (ip_src (dg_header d))) (th_sport (ts_header seg)) = Inr (fc_destination (fa_cfg a'))
     else a' = a \<and> ipv4_numeric (fc_source (fa_cfg a)) = Inr (ip_dst (dg_header d)) \<and>
       ipv4_numeric (fc_destination (fa_cfg a)) = Inr (ip_src (dg_header d)))"
proof -
  obtain p where p: "pieces_to_buffer (dg_payload d) = Inr p"
    using assms by (auto simp: unwrap_tcp_in_ip_def Let_def bindE_eq_Inr split: if_splits)
  then have concat: "concat (dg_payload d) = p"
    by (auto simp: pieces_to_buffer_def split: list.splits)
  obtain r s where parse: "tcp_segment_parse TCPSegment_init p (pseudo_cksum (dg_header d)) = (r, s)"
    by fastforce
  show ?thesis
    using assms
    by (cases "fa_listen a") (auto simp: unwrap_tcp_in_ip_def Let_def bindE_eq_Inr p parse concat
        adopt_peer_def set_listening_def split: if_splits option.splits)
qed

text \<open>A server that listens on port 80 of any address, and a client connecting to it.\<close>

definition example_server :: FdAdapterBase where
  "example_server = \<lparr>fa_cfg = \<lparr>fc_source = ipv4_address 0 80, fc_destination = ipv4_address 0 0,
     fc_loss_rate_dn = 0, fc_loss_rate_up = 0\<rparr>, fa_listen = True\<rparr>"

definition example_client :: FdAdapterBase where
  "example_client = \<lparr>fa_cfg = \<lparr>fc_source = ipv4_address 0x0a000001 4000, fc_destination = ipv4_address 0x0a000002 80,
     fc_loss_rate_dn = 0, fc_loss_rate_up = 0\<rparr>, fa_listen = False\<rparr>"

definition example_syn :: TCPSegment where
  "example_syn = TCPSegment_init\<lparr>ts_header := TCPHeader_init\<lparr>th_syn := True\<rparr>\<rparr>"

lemma example_facts:
  "segment_fits example_syn" "th_syn (ts_header example_syn)" "\<not> th_rst (ts_header example_syn)"
  "linked example_client 0x0a000001 4000 0x0a000002 80" "fa_listen example_server"
  "fc_source (fa_cfg example_server) = ipv4_address 0 80"
  by (simp_all add: segment_fits_def example_syn_def TCPSegment_init_def TCPHeader_init_def tcp_doff_ok_def
      linked_def example_client_def example_server_def)

lemma example_accepts:
  "if fa_listen example_server then (\<exists>any. fc_source (fa_cfg example_server) = ipv4_address any 80) \<and>
     th_syn (ts_header example_syn) \<and> \<not> th_rst (ts_header example_syn)
   else linked example_server 0x0a000002 80 0x0a000001 4000"
  using example_facts by auto


theorem unwrap_tcp_filters_witness:
  "\<exists>d a' seg. unwrap_tcp_in_ip numeric_getaddrinfo numeric_getnameinfo example_server d = Inr (a', Some seg) \<and>
     ip_proto (dg_header d) = PROTO_TCP \<and> th_syn (ts_header seg) \<and> \<not> fa_listen a'"
proof -
  obtain d a' seg where "unwrap_tcp_in_ip numeric_getaddrinfo numeric_getnameinfo example_server d = Inr (a', Some seg)"
    using wrap_unwrap_linked [OF numeric_resolver_exists example_facts(1,4) example_accepts] by blast
  then show ?thesis using unwrap_tcp_filters [of numeric_getaddrinfo numeric_getnameinfo example_server d a' seg]
    example_facts(5) by auto
qed

end
