(* ===== verification/File_Descriptor.thy ===== *)
theory File_Descriptor
  imports Buffers Text
begin

text \<open>
  \<open>SystemCall\<close> (\<open>src/libsponge/util/util.cc\<close>) and \<open>FileDescriptor\<close>
  (\<open>util/file_descriptor.hh\<close>, \<open>file_descriptor.cc\<close>).

  The kernel is not part of the program: its state is a type of its own and its system calls are
  the fields of the record \<open>os\<close>, an argument of every operation. A call returns the new kernel
  state, the return value and \<open>errno\<close>, and the data it stores through its pointer arguments. A
  C++ exception ends the operation; what the kernel did before stays done, but no caller in the
  program goes on after it.
\<close>

section \<open>System calls\<close>

type_synonym sysret = "int \<times> int"

text \<open>One entry of the array passed to \<open>poll(2)\<close>: descriptor and requested events.\<close>

type_synonym pollfd = "int \<times> u16"

record 'k os =
  os_read :: "'k \<Rightarrow> int \<Rightarrow> u64 \<Rightarrow> 'k \<times> sysret \<times> bytes"
  os_writev :: "'k \<Rightarrow> int \<Rightarrow> (bytes \<times> u64) list \<Rightarrow> 'k \<times> sysret"
  os_close :: "'k \<Rightarrow> int \<Rightarrow> 'k \<times> sysret"
  os_getfl :: "'k \<Rightarrow> int \<Rightarrow> 'k \<times> sysret"
  os_setfl :: "'k \<Rightarrow> int \<Rightarrow> u32 \<Rightarrow> 'k \<times> sysret"
  os_poll :: "'k \<Rightarrow> pollfd list \<Rightarrow> int \<Rightarrow> 'k \<times> sysret \<times> u16 list"
  os_socket :: "'k \<Rightarrow> int \<Rightarrow> int \<Rightarrow> 'k \<times> sysret"
  os_getsockopt :: "'k \<Rightarrow> int \<Rightarrow> int \<Rightarrow> 'k \<times> sysret \<times> int \<times> u32"
  os_setsockopt :: "'k \<Rightarrow> int \<Rightarrow> int \<Rightarrow> int \<Rightarrow> 'k \<times> sysret"
  os_getname :: "'k \<Rightarrow> bool \<Rightarrow> int \<Rightarrow> 'k \<times> sysret \<times> bytes \<times> u32"
  os_bind :: "'k \<Rightarrow> int \<Rightarrow> bytes \<Rightarrow> u32 \<Rightarrow> 'k \<times> sysret"
  os_connect :: "'k \<Rightarrow> int \<Rightarrow> bytes \<Rightarrow> u32 \<Rightarrow> 'k \<times> sysret"
  os_shutdown :: "'k \<Rightarrow> int \<Rightarrow> int \<Rightarrow> 'k \<times> sysret"
  os_recvfrom :: "'k \<Rightarrow> int \<Rightarrow> u64 \<Rightarrow> 'k \<times> sysret \<times> bytes \<times> bytes \<times> u32"
  os_sendmsg :: "'k \<Rightarrow> int \<Rightarrow> bytes \<Rightarrow> u32 \<Rightarrow> (bytes \<times> u64) list \<Rightarrow> 'k \<times> sysret"
  os_listen :: "'k \<Rightarrow> int \<Rightarrow> int \<Rightarrow> 'k \<times> sysret"
  os_accept :: "'k \<Rightarrow> int \<Rightarrow> 'k \<times> sysret"
  os_open :: "'k \<Rightarrow> string \<Rightarrow> 'k \<times> sysret"
  os_ioctl :: "'k \<Rightarrow> int \<Rightarrow> u16 \<Rightarrow> string \<Rightarrow> 'k \<times> sysret"
  os_socketpair :: "'k \<Rightarrow> int \<Rightarrow> int \<Rightarrow> 'k \<times> sysret \<times> int \<times> int"
  os_clock :: "'k \<Rightarrow> 'k \<times> u64"

text \<open>The return value is converted to an \<open>int\<close>, the type of the parameter.\<close>

definition to_int32 :: "int \<Rightarrow> int" where
  "to_int32 i = sint (word_of_int i :: u32)"

definition SystemCall :: "string \<Rightarrow> sysret \<Rightarrow> int \<Rightarrow> int res" where
  "SystemCall attempt r errno_mask =
     (let return_value = to_int32 (fst r); errno = snd r in
      if return_value \<ge> 0 \<or> errno = errno_mask then Inr return_value
      else Inl (Tagged_Error attempt errno))"

section \<open>State and operations\<close>

text \<open>The object that the handles of one descriptor share.\<close>

record FDWrapper =
  fd_num :: int
  fd_eof :: bool
  fd_closed :: bool
  fd_read_count :: u32
  fd_write_count :: u32

text \<open>\<open>std::to_string\<close> of an \<open>int\<close>.\<close>

definition to_string_int :: "int \<Rightarrow> string" where
  "to_string_int i = (if i < 0 then CHR ''-'' # to_string_nat (nat (- i)) else to_string_nat (nat i))"

definition FDWrapper_init :: "int \<Rightarrow> FDWrapper res" where
  "FDWrapper_init fd =
     (if fd < 0 then Inl (Runtime_Error (''invalid fd number:'' @ to_string_int fd))
      else Inr \<lparr>fd_num = fd, fd_eof = False, fd_closed = False, fd_read_count = 0, fd_write_count = 0\<rparr>)"

definition register_read :: "FDWrapper \<Rightarrow> FDWrapper" where
  "register_read w = w\<lparr>fd_read_count := fd_read_count w + 1\<rparr>"

definition register_write :: "FDWrapper \<Rightarrow> FDWrapper" where
  "register_write w = w\<lparr>fd_write_count := fd_write_count w + 1\<rparr>"

definition fd_close :: "'k os \<Rightarrow> 'k \<Rightarrow> FDWrapper \<Rightarrow> ('k \<times> FDWrapper) res" where
  "fd_close os k w =
     (let (k, r) = os_close os k (fd_num w) in
      bindE (SystemCall ''close'' r 0) (\<lambda>_. Inr (k, w\<lparr>fd_eof := True, fd_closed := True\<rparr>)))"

text \<open>The destructor swallows the exception of a failed \<open>close\<close>.\<close>

definition fd_destroy :: "'k os \<Rightarrow> 'k \<Rightarrow> FDWrapper \<Rightarrow> 'k" where
  "fd_destroy os k w = (if fd_closed w then k else fst (os_close os k (fd_num w)))"

definition fd_read :: "'k os \<Rightarrow> 'k \<Rightarrow> FDWrapper \<Rightarrow> u64 \<Rightarrow> ('k \<times> FDWrapper \<times> bytes) res" where
  "fd_read os k w limit =
     (let size_to_read = min 1048576 limit;
          (k, r, str) = os_read os k (fd_num w) size_to_read
      in
      bindE (SystemCall ''read'' r 0) (\<lambda>bytes_read.
        let w = (if limit > 0 \<and> bytes_read = 0 then w\<lparr>fd_eof := True\<rparr> else w) in
        if bytes_read > sint size_to_read then Inl (Runtime_Error ''read() read more than requested'')
        else if bytes_read < 0 then Inl Length_Error
        else Inr (k, register_read w, str_resize str (unat (word_of_int bytes_read :: u64)))))"

lemma bvl_remove_prefix_shorter:
  "bvl_remove_prefix vs n = Inr vs' \<Longrightarrow> 0 < n \<Longrightarrow> length (concat vs') < length (concat vs)"
proof (induction vs n rule: bvl_remove_prefix.induct)
  case (2 v vs n)
  show ?case
  proof (cases "n < sz v")
    case True
    then have "unat n < unat (sz v)" by (simp add: word_less_nat_alt)
    then have "unat n < length v" using unat_sz_le [of v] by simp
    moreover have "0 < unat n" using "2.prems"(2) by (simp add: unat_gt_0)
    ultimately show ?thesis using 2 True by auto
  next
    case False
    show ?thesis
    proof (cases "n - sz v = 0")
      case True
      then have "v \<noteq> []" "vs' = vs" using 2 False by (auto split: if_splits; cases vs; auto)+
      then show ?thesis by simp
    next
      case neq: False
      then have "0 < n - sz v" by (simp add: word_gt_0)
      then show ?thesis using 2 False by auto
    qed
  qed
qed auto

lemma to_int32_range: "- 2147483648 \<le> to_int32 i" "to_int32 i < 2147483648"
  using sint_greater_eq [of "word_of_int i :: u32"] sint_less [of "word_of_int i :: u32"]
  by (simp_all add: to_int32_def)

lemma SystemCall_range: "SystemCall a r m = Inr n \<Longrightarrow> - 2147483648 \<le> n \<and> n < 2147483648"
  using to_int32_range by (auto simp: SystemCall_def Let_def split: if_splits)

lemma word_of_int32_nonzero:
  assumes "n \<noteq> 0" "- 2147483648 \<le> n \<and> n < 2147483648"
  shows "(word_of_int n :: u64) \<noteq> 0"
proof
  assume "(word_of_int n :: u64) = 0"
  then have "18446744073709551616 dvd n" by (simp add: word_of_int_eq_0_iff)
  then have "18446744073709551616 \<le> \<bar>n\<bar>" using assms(1) dvd_imp_le_int by fastforce
  then show False using assms(2) by linarith
qed

text \<open>The loop of \<open>write\<close>. Every round but the last one removes something from the buffer.\<close>

function fd_write_loop ::
    "'k os \<Rightarrow> 'k \<Rightarrow> FDWrapper \<Rightarrow> BufferViewList \<Rightarrow> bool \<Rightarrow> u64 \<Rightarrow> ('k \<times> FDWrapper \<times> u64) res" where
  "fd_write_loop os k w buffer write_all total_written =
     (let (k, r) = os_writev os k (fd_num w) (as_iovecs buffer) in
      bindE (SystemCall ''writev'' r 0) (\<lambda>bytes_written.
      if bytes_written = 0 \<and> bvl_size buffer \<noteq> 0
      then Inl (Runtime_Error ''write returned 0 given non-empty input buffer'')
      else if bytes_written > sint (bvl_size buffer)
      then Inl (Runtime_Error ''write wrote more than length of input buffer'')
      else
        let w = register_write w in
        bindE (bvl_remove_prefix buffer (word_of_int bytes_written)) (\<lambda>buffer.
        let total_written = total_written + word_of_int bytes_written in
        if write_all \<and> bvl_size buffer \<noteq> 0 then fd_write_loop os k w buffer write_all total_written
        else Inr (k, w, total_written))))"
  by pat_completeness auto

termination
proof (relation "measure (\<lambda>(os, k, w, buffer, write_all, t). length (concat buffer))", goal_cases)
  case (2 os k w buffer write_all t r k' r' n w' buffer' t')
  have "n \<noteq> 0"
  proof
    assume "n = 0"
    then have "buffer' = buffer" using 2 by (cases buffer) (auto split: if_splits)
    then show False using 2 \<open>n = 0\<close> by simp
  qed
  then have "(word_of_int n :: u64) \<noteq> 0" using SystemCall_range [OF 2(3)] by (rule word_of_int32_nonzero)
  then show ?case using 2 bvl_remove_prefix_shorter [of buffer "word_of_int n" buffer'] by (simp add: word_gt_0)
qed simp

declare fd_write_loop.simps [simp del]

definition fd_write :: "'k os \<Rightarrow> 'k \<Rightarrow> FDWrapper \<Rightarrow> BufferViewList \<Rightarrow> bool \<Rightarrow> ('k \<times> FDWrapper \<times> u64) res" where
  "fd_write os k w buffer write_all = fd_write_loop os k w buffer write_all 0"

text \<open>\<open>O_NONBLOCK\<close> on Linux.\<close>

definition O_NONBLOCK :: u32 where
  "O_NONBLOCK = 0x800"

definition set_blocking :: "'k os \<Rightarrow> 'k \<Rightarrow> FDWrapper \<Rightarrow> bool \<Rightarrow> 'k res" where
  "set_blocking os k w blocking_state =
     (let (k, r) = os_getfl os k (fd_num w) in
      bindE (SystemCall ''fcntl'' r 0) (\<lambda>flags.
        let flags = word_of_int flags :: u32;
            flags = (if blocking_state then flags XOR (flags AND O_NONBLOCK) else flags OR O_NONBLOCK);
            (k, r) = os_setfl os k (fd_num w) flags
        in bindE (SystemCall ''fcntl'' r 0) (\<lambda>_. Inr k)))"

section \<open>What the manual promises of \<open>writev\<close>\<close>

text \<open>
  \<open>out k fd\<close> stands for everything that was written to a descriptor. A call fails with \<open>-1\<close> and
  sets \<open>errno\<close>, or it appends a prefix of the data and returns its length, which on Linux is below
  \<open>2 ^ 31\<close>.
\<close>

definition writev_contract :: "'k os \<Rightarrow> ('k \<Rightarrow> int \<Rightarrow> bytes) \<Rightarrow> bool" where
  "writev_contract os out \<longleftrightarrow> (\<forall>k fd iov k' n e. os_writev os k fd iov = (k', n, e) \<longrightarrow>
     n = - 1 \<and> e \<noteq> 0 \<or>
     0 \<le> n \<and> n < 2147483648 \<and> nat n \<le> length (concat (map fst iov)) \<and>
       out k' fd = out k fd @ take (nat n) (concat (map fst iov)))"

text \<open>A descriptor in blocking mode that never fails and always takes at least one byte.\<close>

definition writev_progress :: "'k os \<Rightarrow> bool" where
  "writev_progress os \<longleftrightarrow> (\<forall>k fd iov. case os_writev os k fd iov of (k', n, e) \<Rightarrow>
     0 \<le> n \<and> (n = 0 \<longrightarrow> concat (map fst iov) = []))"

lemma to_int32_id: "- 2147483648 \<le> i \<Longrightarrow> i < 2147483648 \<Longrightarrow> to_int32 i = i"
  by (simp add: to_int32_def sint_sbintrunc' signed_take_bit_int_eq_self)

lemma concat_iovecs [simp]: "concat (map fst (as_iovecs vs)) = concat vs"
  by (simp add: as_iovecs_eq comp_def)

text \<open>One round of the loop.\<close>

lemma writev_round:
  assumes "writev_contract os out" "os_writev os k fd (as_iovecs buffer) = (k1, r)"
    and "SystemCall ''writev'' r 0 = Inr n"
  shows "0 \<le> n" "nat n \<le> length (concat buffer)" "unat (word_of_int n :: u64) = nat n"
    "out k1 fd = out k fd @ take (nat n) (concat buffer)"
proof -
  obtain n' e where r: "r = (n', e)" by (cases r) auto
  have "n' = - 1 \<and> e \<noteq> 0 \<or> 0 \<le> n' \<and> n' < 2147483648 \<and> nat n' \<le> length (concat buffer) \<and>
      out k1 fd = out k fd @ take (nat n') (concat buffer)"
    using assms(1,2) unfolding writev_contract_def r by (metis concat_iovecs)
  moreover have "to_int32 (- 1) = - 1" by (rule to_int32_id) simp_all
  ultimately have n: "n = n'" "0 \<le> n'" "n' < 2147483648" "nat n' \<le> length (concat buffer)"
      "out k1 fd = out k fd @ take (nat n') (concat buffer)"
    using assms(3) by (auto simp: SystemCall_def r to_int32_id split: if_splits)
  then show "0 \<le> n" "nat n \<le> length (concat buffer)" "out k1 fd = out k fd @ take (nat n) (concat buffer)" by simp_all
  have "unat (word_of_nat (nat n) :: u64) = nat n" using n by (intro unat_u64_of_nat) simp
  then show "unat (word_of_int n :: u64) = nat n" using n by simp
qed

lemma register_write_num [simp]: "fd_num (register_write w) = fd_num w"
  by (simp add: register_write_def)

lemma fd_write_step:
  assumes "os_writev os k (fd_num w) (as_iovecs buffer) = (k1, r)" "SystemCall ''writev'' r 0 = Inr n"
    and "\<not> (n = 0 \<and> bvl_size buffer \<noteq> 0)" "\<not> n > sint (bvl_size buffer)"
    and "bvl_remove_prefix buffer (word_of_int n) = Inr buffer1"
  shows "fd_write_loop os k w buffer write_all t =
    (if write_all \<and> bvl_size buffer1 \<noteq> 0
     then fd_write_loop os k1 (register_write w) buffer1 write_all (t + word_of_int n)
     else Inr (k1, register_write w, t + word_of_int n))"
proof -
  have "(n = 0 \<and> bvl_size buffer \<noteq> 0) = False" "(n > sint (bvl_size buffer)) = False"
    using assms(3,4) by blast+
  then show ?thesis
    unfolding fd_write_loop.simps [of os k w buffer] assms(1) Let_def prod.case assms(2) bindE_Inr
    by (simp only: if_False assms(5) bindE_Inr)
qed

lemma fd_write_loop_sound:
  assumes "writev_contract os out" "length (concat buffer) < 9223372036854775808"
    and "fd_write_loop os k w buffer write_all t = Inr (k', w', t')"
  shows "fd_num w' = fd_num w \<and> (\<exists>m \<le> length (concat buffer). t' = t + word_of_nat m \<and>
    out k' (fd_num w) = out k (fd_num w) @ take m (concat buffer) \<and>
    (write_all \<longrightarrow> m = length (concat buffer)))"
  using assms
proof (induction os k w buffer write_all t rule: fd_write_loop.induct)
  case (1 os k w buffer write_all t)
  obtain k1 r where call: "os_writev os k (fd_num w) (as_iovecs buffer) = (k1, r)"
    by (cases "os_writev os k (fd_num w) (as_iovecs buffer)") auto
  obtain n where n: "SystemCall ''writev'' r 0 = Inr n"
    using "1.prems"(3) by (subst (asm) fd_write_loop.simps) (auto simp: call bindE_eq_Inr)
  note round = writev_round [OF "1.prems"(1) call n]
  have ok: "views_ok buffer" using "1.prems"(2) by (simp add: views_ok_def fits_def)
  obtain buffer1 where b1: "bvl_remove_prefix buffer (word_of_int n) = Inr buffer1"
    using views.remove_ok [OF ok, of "word_of_int n"] round by auto
  then have c1: "concat buffer1 = drop (nat n) (concat buffer)"
    using views.remove_InrD [OF ok b1] round by simp
  have guards: "\<not> (n = 0 \<and> bvl_size buffer \<noteq> 0)" "\<not> n > sint (bvl_size buffer)"
    using "1.prems"(3) unfolding fd_write_loop.simps [of os k w buffer] call Let_def prod.case n bindE_Inr
    by (meson Inl_Inr_False)+
  let ?t1 = "t + word_of_int n"
  note step = fd_write_step [OF call n guards b1, of write_all t]
  have word: "word_of_int n = (word_of_nat (nat n) :: u64)" using round(1) by simp
  show ?case
  proof (cases "write_all \<and> bvl_size buffer1 \<noteq> 0")
    case True
    have eq: "fd_write_loop os k1 (register_write w) buffer1 write_all ?t1 = Inr (k', w', t')"
      using "1.prems"(3) unfolding step if_P [OF True] .
    have len: "length (concat buffer1) < 9223372036854775808" using "1.prems"(2) c1 by simp
    obtain m where m: "fd_num w' = fd_num w" "m \<le> length (concat buffer1)" "t' = ?t1 + word_of_nat m"
        "out k' (fd_num w) = out k1 (fd_num w) @ take m (concat buffer1)" "m = length (concat buffer1)"
      using "1.IH" [OF refl call [symmetric] n guards refl b1 refl True "1.prems"(1) len eq] True
      unfolding register_write_num by blast
    have "nat n + m = length (concat buffer)" using m(5) round(2) by (simp add: c1)
    moreover have "out k' (fd_num w) = out k (fd_num w) @ concat buffer"
      using m(4,5) round(4) by (simp add: c1)
    moreover have "t' = t + word_of_nat (nat n + m)" using m(3) word by simp
    ultimately show ?thesis using m(1) by (intro conjI exI [of _ "nat n + m"]) simp_all
  next
    case False
    have "k' = k1" "w' = register_write w" "t' = ?t1"
      using "1.prems"(3) unfolding step if_not_P [OF False] by simp_all
    moreover have "write_all \<longrightarrow> nat n = length (concat buffer)"
    proof
      assume write_all
      then have "sz (concat buffer1) = 0" using False by (simp add: bvl_size_eq)
      then have "unat (sz (concat buffer1)) = 0" by simp
      then have "concat buffer1 = []" using "1.prems"(2) by (simp add: unat_sz fits_def c1)
      then show "nat n = length (concat buffer)" using c1 round(2) by simp
    qed
    ultimately show ?thesis
      using round(2,4) by (intro conjI exI [of _ "nat n"]) (simp_all only: word register_write_num)
  qed
qed

lemma fd_write_loop_returns:
  assumes "writev_contract os out" "writev_progress os" "length (concat buffer) < 9223372036854775808"
  shows "\<exists>res. fd_write_loop os k w buffer write_all t = Inr res"
  using assms
proof (induction os k w buffer write_all t rule: fd_write_loop.induct)
  case (1 os k w buffer write_all t)
  obtain k1 n e where call: "os_writev os k (fd_num w) (as_iovecs buffer) = (k1, n, e)"
    by (cases "os_writev os k (fd_num w) (as_iovecs buffer)") auto
  have pos: "0 \<le> n" "n = 0 \<longrightarrow> concat buffer = []"
    using "1.prems"(2) call unfolding writev_progress_def
    by (metis (mono_tags, lifting) case_prod_conv concat_iovecs)+
  have le: "n < 2147483648" "nat n \<le> length (concat buffer)"
    using "1.prems"(1) call pos unfolding writev_contract_def by (fastforce simp: as_iovecs_eq comp_def)+
  have n: "SystemCall ''writev'' (n, e) 0 = Inr n" using pos le by (simp add: SystemCall_def to_int32_id)
  note round = writev_round [OF "1.prems"(1) call n]
  have ok: "views_ok buffer" using "1.prems"(3) by (simp add: views_ok_def fits_def)
  obtain buffer1 where b1: "bvl_remove_prefix buffer (word_of_int n) = Inr buffer1"
    using views.remove_ok [OF ok, of "word_of_int n"] round by auto
  then have "length (concat buffer1) < 9223372036854775808"
    using views.remove_InrD [OF ok b1] "1.prems"(3) by simp
  moreover have size: "sint (bvl_size buffer) = int (length (concat buffer))"
  proof -
    have "sz (concat buffer) = word_of_int (int (length (concat buffer)))" by (simp add: sz_def)
    then show ?thesis using "1.prems"(3)
      by (simp only: bvl_size_eq sint_sbintrunc') (intro signed_take_bit_int_eq_self; simp)
  qed
  moreover have g: "\<not> (n = 0 \<and> bvl_size buffer \<noteq> 0)"
    using pos by (auto simp: bvl_size_eq simp del: concat_eq_Nil_conv)
  moreover have g': "\<not> n > sint (bvl_size buffer)" using le pos size by linarith
  ultimately have len: "length (concat buffer1) < 9223372036854775808" by blast
  show ?case
  proof (cases "write_all \<and> bvl_size buffer1 \<noteq> 0")
    case True
    show ?thesis
      unfolding fd_write_step [OF call n g g' b1, of write_all t] if_P [OF True]
      by (rule "1.IH" [OF refl call [symmetric] n g g' refl b1 refl True "1.prems"(1,2) len])
  next
    case False
    show ?thesis unfolding fd_write_step [OF call n g g' b1, of write_all t] if_not_P [OF False] by blast
  qed
qed

text \<open>What holds before the loop and is kept by every successful call holds after it.\<close>

lemma fd_write_loop_keeps:
  assumes "\<And>k iov k' r n. P k \<Longrightarrow> os_writev os k (fd_num w) iov = (k', r) \<Longrightarrow>
      SystemCall ''writev'' r 0 = Inr n \<Longrightarrow> P k'"
    and "P k" "fd_write_loop os k w buffer write_all t = Inr (k', w', t')"
  shows "P k' \<and> fd_num w' = fd_num w \<and> fd_eof w' = fd_eof w"
  using assms
proof (induction os k w buffer write_all t rule: fd_write_loop.induct)
  case (1 os k w buffer write_all t)
  obtain k1 r where call: "os_writev os k (fd_num w) (as_iovecs buffer) = (k1, r)"
    by (cases "os_writev os k (fd_num w) (as_iovecs buffer)") auto
  obtain n where n: "SystemCall ''writev'' r 0 = Inr n"
    using "1.prems"(3) by (subst (asm) fd_write_loop.simps) (auto simp: call bindE_eq_Inr)
  have P1: "P k1" using "1.prems"(1) [OF "1.prems"(2) call n] .
  have guards: "\<not> (n = 0 \<and> bvl_size buffer \<noteq> 0)" "\<not> n > sint (bvl_size buffer)"
    using "1.prems"(3) unfolding fd_write_loop.simps [of os k w buffer] call Let_def prod.case n bindE_Inr
    by (meson Inl_Inr_False)+
  obtain buffer1 where b1: "bvl_remove_prefix buffer (word_of_int n) = Inr buffer1"
    using "1.prems"(3) guards by (subst (asm) fd_write_loop.simps) (auto simp: call n bindE_eq_Inr Let_def)
  note step = fd_write_step [OF call n guards b1, of write_all t]
  show ?case
  proof (cases "write_all \<and> bvl_size buffer1 \<noteq> 0")
    case True
    have eq: "fd_write_loop os k1 (register_write w) buffer1 write_all (t + word_of_int n) = Inr (k', w', t')"
      using "1.prems"(3) unfolding step if_P [OF True] .
    have "P k' \<and> fd_num w' = fd_num (register_write w) \<and> fd_eof w' = fd_eof (register_write w)"
      using "1.prems"(1)
      by (intro "1.IH" [OF refl call [symmetric] n guards refl b1 refl True _ P1 eq]) simp
    then show ?thesis by (simp add: register_write_def)
  next
    case False
    then show ?thesis
      using "1.prems"(3) P1 unfolding step if_not_P [OF False] by (auto simp: register_write_def)
  qed
qed

section \<open>Byte streams through descriptors\<close>

text \<open>
  \<open>inp k fd\<close> stands for everything that was read from a descriptor and \<open>out k fd\<close> for everything
  written to it with \<open>read\<close> and \<open>writev\<close>. These calls change the record of their descriptor only;
  the calls that configure, poll, shut down or close a descriptor, the datagram calls and the clock
  do not change it.
\<close>

definition stream_kernel :: "'k os \<Rightarrow> ('k \<Rightarrow> int \<Rightarrow> bytes) \<Rightarrow> ('k \<Rightarrow> int \<Rightarrow> bytes) \<Rightarrow> bool" where
  "stream_kernel os inp out \<longleftrightarrow>
     (\<forall>k fd n k' r e str. os_read os k fd n = (k', (r, e), str) \<longrightarrow>
       r = - 1 \<and> e \<noteq> 0 \<or>
       r = int (length str) \<and> length str \<le> unat n \<and>
         inp k' = (inp k)(fd := inp k fd @ str) \<and> out k' = out k) \<and>
     (\<forall>k fd iov k' r e. os_writev os k fd iov = (k', r, e) \<longrightarrow>
       r = - 1 \<and> e \<noteq> 0 \<or>
       0 \<le> r \<and> r < 2147483648 \<and> nat r \<le> length (concat (map fst iov)) \<and> inp k' = inp k \<and>
         out k' = (out k)(fd := out k fd @ take (nat r) (concat (map fst iov)))) \<and>
     (\<forall>k fd k' r. os_close os k fd = (k', r) \<longrightarrow> inp k' = inp k \<and> out k' = out k) \<and>
     (\<forall>k fd k' r. os_getfl os k fd = (k', r) \<longrightarrow> inp k' = inp k \<and> out k' = out k) \<and>
     (\<forall>k fd fl k' r. os_setfl os k fd fl = (k', r) \<longrightarrow> inp k' = inp k \<and> out k' = out k) \<and>
     (\<forall>k fds t k' r. os_poll os k fds t = (k', r) \<longrightarrow> inp k' = inp k \<and> out k' = out k) \<and>
     (\<forall>k fd how k' r. os_shutdown os k fd how = (k', r) \<longrightarrow> inp k' = inp k \<and> out k' = out k) \<and>
     (\<forall>k fd n k' r. os_recvfrom os k fd n = (k', r) \<longrightarrow> inp k' = inp k \<and> out k' = out k) \<and>
     (\<forall>k fd a n iov k' r. os_sendmsg os k fd a n iov = (k', r) \<longrightarrow> inp k' = inp k \<and> out k' = out k) \<and>
     (\<forall>k k' t. os_clock os k = (k', t) \<longrightarrow> inp k' = inp k \<and> out k' = out k)"

lemma stream_kernel_writev: "stream_kernel os inp out \<Longrightarrow> writev_contract os out"
  unfolding stream_kernel_def writev_contract_def by (metis fun_upd_same)

lemma stream_kernel_readD:
  assumes "stream_kernel os inp out" "os_read os k fd n = (k', (r, e), str)"
  shows "r = - 1 \<and> e \<noteq> 0 \<or> r = int (length str) \<and> length str \<le> unat n \<and>
    inp k' = (inp k)(fd := inp k fd @ str) \<and> out k' = out k"
  using assms(1) [unfolded stream_kernel_def, THEN conjunct1, rule_format, OF assms(2)] .

lemma stream_kernel_writeD:
  assumes "stream_kernel os inp out" "os_writev os k fd iov = (k', r, e)"
  shows "r = - 1 \<and> e \<noteq> 0 \<or> inp k' = inp k \<and>
    out k' = (out k)(fd := out k fd @ take (nat r) (concat (map fst iov)))"
  using assms(1) [unfolded stream_kernel_def, THEN conjunct2, THEN conjunct1, rule_format, OF assms(2)] by blast

lemma SystemCall_fails: "e \<noteq> 0 \<Longrightarrow> SystemCall a (- 1, e) 0 = Inl (Tagged_Error a e)"
  using to_int32_id [of "- 1"] by (simp add: SystemCall_def)

lemma stream_fd_write_frame:
  assumes ker: "stream_kernel os inp out" and wr: "fd_write os k w buffer write_all = Inr (k', w', n)"
  shows "fd_num w' = fd_num w" "inp k' = inp k" "fd \<noteq> fd_num w \<Longrightarrow> out k' fd = out k fd" "fd_eof w' = fd_eof w"
proof -
  let ?P = "\<lambda>k'. inp k' = inp k \<and> (\<forall>fd. fd \<noteq> fd_num w \<longrightarrow> out k' fd = out k fd)"
  have "?P k1'" if "?P k1" "os_writev os k1 (fd_num w) iov = (k1', r)" "SystemCall ''writev'' r 0 = Inr i"
    for k1 iov k1' r i
  proof -
    obtain x e where r: "r = (x, e)" by (cases r) auto
    have "\<not> (x = - 1 \<and> e \<noteq> 0)" using that(3) r by (metis SystemCall_fails Inl_Inr_False)
    moreover have "x = - 1 \<and> e \<noteq> 0 \<or> inp k1' = inp k1 \<and>
        out k1' = (out k1)(fd_num w := out k1 (fd_num w) @ take (nat x) (concat (map fst iov)))"
      using stream_kernel_writeD [OF ker that(2) [unfolded r]] .
    ultimately show ?thesis using that(1) by auto
  qed
  then have "?P k' \<and> fd_num w' = fd_num w \<and> fd_eof w' = fd_eof w"
    using fd_write_loop_keeps [of ?P os w k buffer write_all 0 k' w' n] wr [unfolded fd_write_def] by blast
  then show "fd_num w' = fd_num w" "inp k' = inp k" "fd \<noteq> fd_num w \<Longrightarrow> out k' fd = out k fd" "fd_eof w' = fd_eof w"
    by simp_all
qed

lemma stream_fd_write:
  assumes ker: "stream_kernel os inp out" and len: "length (concat buffer) < 9223372036854775808"
    and wr: "fd_write os k w buffer write_all = Inr (k', w', n)"
  shows "fd_num w' = fd_num w" "unat n \<le> length (concat buffer)" "inp k' = inp k"
    "out k' = (out k)(fd_num w := out k (fd_num w) @ take (unat n) (concat buffer))"
proof -
  obtain m where m: "m \<le> length (concat buffer)" "n = word_of_nat m"
      "out k' (fd_num w) = out k (fd_num w) @ take m (concat buffer)"
    using fd_write_loop_sound [OF stream_kernel_writev [OF ker] len wr [unfolded fd_write_def]] by auto
  have "unat n = m" using m len by (simp add: unat_u64_of_nat)
  then show "fd_num w' = fd_num w" "unat n \<le> length (concat buffer)" "inp k' = inp k"
      "out k' = (out k)(fd_num w := out k (fd_num w) @ take (unat n) (concat buffer))"
    using stream_fd_write_frame [OF ker wr] m by (auto simp: fun_eq_iff)
qed

lemma stream_fd_read:
  assumes ker: "stream_kernel os inp out" and rd: "fd_read os k w limit = Inr (k', w', str)"
  shows "fd_num w' = fd_num w" "length str \<le> unat limit" "length str \<le> 1048576"
    "inp k' = (inp k)(fd_num w := inp k (fd_num w) @ str)" "out k' = out k"
proof -
  let ?n = "min 1048576 limit"
  obtain k1 r e s where call: "os_read os k (fd_num w) ?n = (k1, (r, e), s)"
    by (cases "os_read os k (fd_num w) ?n") auto
  obtain i where i: "SystemCall ''read'' (r, e) 0 = Inr i"
    using rd by (auto simp: fd_read_def call bindE_eq_Inr)
  then have "\<not> (r = - 1 \<and> e \<noteq> 0)" by (metis SystemCall_fails Inl_Inr_False)
  then have c: "r = int (length s)" "length s \<le> unat ?n"
      "inp k1 = (inp k)(fd_num w := inp k (fd_num w) @ s)" "out k1 = out k"
    using stream_kernel_readD [OF ker call] by auto
  have "unat ?n \<le> 1048576" by (simp add: unat_min)
  then have "i = int (length s)" using i c by (simp add: SystemCall_def to_int32_id)
  moreover have "unat (word_of_nat (length s) :: u64) = length s"
    using c(2) \<open>unat ?n \<le> 1048576\<close> by (simp add: unat_u64_of_nat)
  ultimately have "k' = k1" "str = s" "fd_num w' = fd_num w"
    using rd by (auto simp: fd_read_def call i Let_def register_read_def str_resize_def split: if_splits)
  then show "fd_num w' = fd_num w" "length str \<le> unat limit" "length str \<le> 1048576"
      "inp k' = (inp k)(fd_num w := inp k (fd_num w) @ str)" "out k' = out k"
    using c \<open>unat ?n \<le> 1048576\<close> by (auto simp: unat_min)
qed

lemma stream_kernel_frame:
  assumes "stream_kernel os inp out"
  shows "inp (fst (os_close os k fd)) = inp k \<and> out (fst (os_close os k fd)) = out k"
    "inp (fst (os_getfl os k fd)) = inp k \<and> out (fst (os_getfl os k fd)) = out k"
    "inp (fst (os_setfl os k fd fl)) = inp k \<and> out (fst (os_setfl os k fd fl)) = out k"
    "inp (fst (os_poll os k fds t)) = inp k \<and> out (fst (os_poll os k fds t)) = out k"
    "inp (fst (os_shutdown os k fd how)) = inp k \<and> out (fst (os_shutdown os k fd how)) = out k"
    "inp (fst (os_recvfrom os k fd n)) = inp k \<and> out (fst (os_recvfrom os k fd n)) = out k"
    "inp (fst (os_sendmsg os k fd a m iov)) = inp k \<and> out (fst (os_sendmsg os k fd a m iov)) = out k"
    "inp (fst (os_clock os k)) = inp k \<and> out (fst (os_clock os k)) = out k"
  using assms unfolding stream_kernel_def by (metis prod.collapse)+

lemma stream_set_blocking:
  assumes "stream_kernel os inp out" "set_blocking os k w b = Inr k'"
  shows "inp k' = inp k \<and> out k' = out k"
  using assms stream_kernel_frame(2,3) [OF assms(1)]
  by (auto simp: set_blocking_def Let_def bindE_eq_Inr split_def)

lemma stream_close:
  assumes "stream_kernel os inp out" "fd_close os k w = Inr (k', w')"
  shows "inp k' = inp k" "out k' = out k" "fd_num w' = fd_num w"
  using assms(2) stream_kernel_frame(1) [OF assms(1), of k "fd_num w"]
  by (auto simp: fd_close_def bindE_eq_Inr split_def Let_def)

section \<open>Properties\<close>

text \<open>
  C30. \<open>FileDescriptor::write\<close> loses nothing: whatever part of the data each call of \<open>writev\<close>
  takes, the bytes that reach the descriptor are a prefix of the buffer, in order and without
  gap, and their number is returned; with \<open>write_all\<close> they are the whole buffer. On a descriptor
  that always takes at least one byte, the loop ends and returns.
\<close>

theorem fd_write_complete:
  assumes "writev_contract os out" and "length (concat buffer) < 9223372036854775808"
  shows "(fd_write os k w buffer write_all = Inr (k', w', n) \<longrightarrow>
      unat n \<le> length (concat buffer) \<and> (write_all \<longrightarrow> unat n = length (concat buffer)) \<and>
      out k' (fd_num w) = out k (fd_num w) @ take (unat n) (concat buffer)) \<and>
    (writev_progress os \<longrightarrow> (\<exists>res. fd_write os k w buffer write_all = Inr res))"
proof (intro conjI impI)
  assume "fd_write os k w buffer write_all = Inr (k', w', n)"
  then obtain m where m: "m \<le> length (concat buffer)" "n = word_of_nat m"
      "out k' (fd_num w) = out k (fd_num w) @ take m (concat buffer)" "write_all \<longrightarrow> m = length (concat buffer)"
    using fd_write_loop_sound [OF assms] unfolding fd_write_def by fastforce
  then have "unat n = m" using assms(2) by (simp add: unat_u64_of_nat)
  then show "unat n \<le> length (concat buffer)" "write_all \<Longrightarrow> unat n = length (concat buffer)"
    "out k' (fd_num w) = out k (fd_num w) @ take (unat n) (concat buffer)" using m by simp_all
next
  assume "writev_progress os"
  then show "\<exists>res. fd_write os k w buffer write_all = Inr res"
    unfolding fd_write_def using assms by (intro fd_write_loop_returns)
qed

text \<open>A kernel that only knows \<open>writev\<close> and takes at most two bytes at a time.\<close>

definition two_byte_os :: "(int \<Rightarrow> bytes) os" where
  "two_byte_os = \<lparr>os_read = \<lambda>k fd n. (k, (- 1, 5), []),
     os_writev = \<lambda>k fd iov. (k(fd := k fd @ take 2 (concat (map fst iov))),
       (min 2 (int (length (concat (map fst iov)))), 0)),
     os_close = \<lambda>k fd. (k, (0, 0)), os_getfl = \<lambda>k fd. (k, (0, 0)), os_setfl = \<lambda>k fd fl. (k, (0, 0)),
     os_poll = \<lambda>k fds t. (k, (- 1, 5), []), os_socket = \<lambda>k d t. (k, (- 1, 5)),
     os_getsockopt = \<lambda>k fd o'. (k, (- 1, 5), 0, 0), os_setsockopt = \<lambda>k fd l o'. (k, (- 1, 5)),
     os_getname = \<lambda>k p fd. (k, (- 1, 5), [], 0), os_bind = \<lambda>k fd a n. (k, (- 1, 5)),
     os_connect = \<lambda>k fd a n. (k, (- 1, 5)), os_shutdown = \<lambda>k fd h. (k, (- 1, 5)),
     os_recvfrom = \<lambda>k fd n. (k, (- 1, 5), [], [], 0), os_sendmsg = \<lambda>k fd a n iov. (k, (- 1, 5)),
     os_listen = \<lambda>k fd b. (k, (- 1, 5)), os_accept = \<lambda>k fd. (k, (- 1, 5)),
     os_open = \<lambda>k p. (k, (- 1, 5)), os_ioctl = \<lambda>k fd f n. (k, (- 1, 5)),
     os_socketpair = \<lambda>k d t. (k, (- 1, 5), 0, 0), os_clock = \<lambda>k. (k, 0)\<rparr>"

lemma two_byte_os_ok: "writev_contract two_byte_os (\<lambda>k. k)" "writev_progress two_byte_os"
proof -
  have "take (nat (min 2 (int (length xs)))) xs = take 2 xs" for xs :: bytes
    by (auto simp: min_def nat_le_iff)
  then show "writev_contract two_byte_os (\<lambda>k. k)"
    unfolding writev_contract_def two_byte_os_def by (auto simp: min_def)
  show "writev_progress two_byte_os"
    unfolding writev_progress_def two_byte_os_def by (auto simp: min_def split: if_splits)
qed

theorem fd_write_complete_witness:
  "\<exists>k' w' n. fd_write two_byte_os (\<lambda>fd. []) \<lparr>fd_num = 1, fd_eof = False, fd_closed = False,
       fd_read_count = 0, fd_write_count = 0\<rparr> [[1, 2], [3]] True = Inr (k', w', n) \<and>
     unat n = 3 \<and> k' 1 = [1, 2, 3]"
proof -
  let ?w = "\<lparr>fd_num = 1, fd_eof = False, fd_closed = False, fd_read_count = 0, fd_write_count = 0\<rparr>"
  obtain k' w' n where r: "fd_write two_byte_os (\<lambda>fd. []) ?w [[1, 2], [3]] True = Inr (k', w', n)"
    using fd_write_complete [OF two_byte_os_ok(1), of "[[1, 2], [3]]" "\<lambda>fd. []" ?w True] two_byte_os_ok(2)
    by force
  then show ?thesis
    using fd_write_complete [OF two_byte_os_ok(1), of "[[1, 2], [3]]" "\<lambda>fd. []" ?w True k' w' n] by simp
qed

end
