(* ===== verification/Sockets.thy ===== *)
theory Sockets
  imports File_Descriptor Socket_Address
begin

text \<open>
  \<open>Socket\<close>, \<open>UDPSocket\<close>, \<open>TCPSocket\<close>, \<open>LocalStreamSocket\<close> (\<open>src/libsponge/util/socket.hh\<close>,
  \<open>socket.cc\<close>) and \<open>TunTapFD\<close> (\<open>util/tun.hh\<close>, \<open>tun.cc\<close>): checked wrappers around the socket calls
  of the kernel. Constants have their values on Linux.
\<close>

section \<open>Construction\<close>

definition AF_UNIX :: int where "AF_UNIX = 1"
definition SOCK_STREAM :: int where "SOCK_STREAM = 1"
definition SOCK_DGRAM :: int where "SOCK_DGRAM = 2"
definition SO_DOMAIN :: int where "SO_DOMAIN = 39"
definition SO_TYPE :: int where "SO_TYPE = 3"
definition SOL_SOCKET :: int where "SOL_SOCKET = 1"
definition SO_REUSEADDR :: int where "SO_REUSEADDR = 2"

definition Socket_init :: "'k os \<Rightarrow> 'k \<Rightarrow> int \<Rightarrow> int \<Rightarrow> ('k \<times> FDWrapper) res" where
  "Socket_init os k domain typ =
     (let (k, r) = os_socket os k domain typ in
      bindE (SystemCall ''socket'' r 0) (\<lambda>fd. bindE (FDWrapper_init fd) (\<lambda>w. Inr (k, w))))"

definition Socket_of_fd :: "'k os \<Rightarrow> 'k \<Rightarrow> FDWrapper \<Rightarrow> int \<Rightarrow> int \<Rightarrow> ('k \<times> FDWrapper) res" where
  "Socket_of_fd os k w domain typ =
     (let (k, r, actual_value, len) = os_getsockopt os k (fd_num w) SO_DOMAIN in
      bindE (SystemCall ''getsockopt'' r 0) (\<lambda>_.
      if len \<noteq> 4 \<or> actual_value \<noteq> domain then Inl (Runtime_Error ''socket domain mismatch'')
      else
        let (k, r, actual_value, len) = os_getsockopt os k (fd_num w) SO_TYPE in
        bindE (SystemCall ''getsockopt'' r 0) (\<lambda>_.
        if len \<noteq> 4 \<or> actual_value \<noteq> typ then Inl (Runtime_Error ''socket type mismatch'')
        else Inr (k, w))))"

definition UDPSocket_init :: "'k os \<Rightarrow> 'k \<Rightarrow> ('k \<times> FDWrapper) res" where
  "UDPSocket_init os k = Socket_init os k (uint AF_INET) SOCK_DGRAM"

definition TCPSocket_init :: "'k os \<Rightarrow> 'k \<Rightarrow> ('k \<times> FDWrapper) res" where
  "TCPSocket_init os k = Socket_init os k (uint AF_INET) SOCK_STREAM"

definition TCPSocket_of_fd :: "'k os \<Rightarrow> 'k \<Rightarrow> FDWrapper \<Rightarrow> ('k \<times> FDWrapper) res" where
  "TCPSocket_of_fd os k w = Socket_of_fd os k w (uint AF_INET) SOCK_STREAM"

definition LocalStreamSocket_of_fd :: "'k os \<Rightarrow> 'k \<Rightarrow> FDWrapper \<Rightarrow> ('k \<times> FDWrapper) res" where
  "LocalStreamSocket_of_fd os k w = Socket_of_fd os k w AF_UNIX SOCK_STREAM"

section \<open>Addresses and connections\<close>

text \<open>The flag chooses between \<open>getsockname\<close> and \<open>getpeername\<close>; the storage of 128 bytes is zero
  where the call stores nothing.\<close>

definition get_address :: "'k os \<Rightarrow> 'k \<Rightarrow> FDWrapper \<Rightarrow> string \<Rightarrow> bool \<Rightarrow> ('k \<times> Address) res" where
  "get_address os k w name_of_function peer =
     (let (k, r, address, sze) = os_getname os k peer (fd_num w) in
      bindE (SystemCall name_of_function r 0) (\<lambda>_.
      bindE (Address_of_sockaddr (str_resize address sizeof_sockaddr_storage) (ucast sze)) (\<lambda>a. Inr (k, a))))"

definition local_address :: "'k os \<Rightarrow> 'k \<Rightarrow> FDWrapper \<Rightarrow> ('k \<times> Address) res" where
  "local_address os k w = get_address os k w ''getsockname'' False"

definition peer_address :: "'k os \<Rightarrow> 'k \<Rightarrow> FDWrapper \<Rightarrow> ('k \<times> Address) res" where
  "peer_address os k w = get_address os k w ''getpeername'' True"

definition sock_bind :: "'k os \<Rightarrow> 'k \<Rightarrow> FDWrapper \<Rightarrow> Address \<Rightarrow> 'k res" where
  "sock_bind os k w address =
     (let (k, r) = os_bind os k (fd_num w) (ad_storage address) (ad_size address) in
      bindE (SystemCall ''bind'' r 0) (\<lambda>_. Inr k))"

definition sock_connect :: "'k os \<Rightarrow> 'k \<Rightarrow> FDWrapper \<Rightarrow> Address \<Rightarrow> 'k res" where
  "sock_connect os k w address =
     (let (k, r) = os_connect os k (fd_num w) (ad_storage address) (ad_size address) in
      bindE (SystemCall ''connect'' r 0) (\<lambda>_. Inr k))"

definition SHUT_RD :: int where "SHUT_RD = 0"
definition SHUT_WR :: int where "SHUT_WR = 1"
definition SHUT_RDWR :: int where "SHUT_RDWR = 2"

definition sock_shutdown :: "'k os \<Rightarrow> 'k \<Rightarrow> FDWrapper \<Rightarrow> int \<Rightarrow> ('k \<times> FDWrapper) res" where
  "sock_shutdown os k w how =
     (let (k, r) = os_shutdown os k (fd_num w) how in
      bindE (SystemCall ''shutdown'' r 0) (\<lambda>_.
      if how = SHUT_RD then Inr (k, register_read w)
      else if how = SHUT_WR then Inr (k, register_write w)
      else if how = SHUT_RDWR then Inr (k, register_write (register_read w))
      else Inl (Runtime_Error ''Socket::shutdown() called with invalid `how`'')))"

definition sock_setsockopt :: "'k os \<Rightarrow> 'k \<Rightarrow> FDWrapper \<Rightarrow> int \<Rightarrow> int \<Rightarrow> 'k res" where
  "sock_setsockopt os k w level opt =
     (let (k, r) = os_setsockopt os k (fd_num w) level opt in
      bindE (SystemCall ''setsockopt'' r 0) (\<lambda>_. Inr k))"

definition set_reuseaddr :: "'k os \<Rightarrow> 'k \<Rightarrow> FDWrapper \<Rightarrow> 'k res" where
  "set_reuseaddr os k w = sock_setsockopt os k w SOL_SOCKET SO_REUSEADDR"

definition tcp_listen :: "'k os \<Rightarrow> 'k \<Rightarrow> FDWrapper \<Rightarrow> int \<Rightarrow> 'k res" where
  "tcp_listen os k w backlog =
     (let (k, r) = os_listen os k (fd_num w) backlog in
      bindE (SystemCall ''listen'' r 0) (\<lambda>_. Inr k))"

text \<open>The listening socket and the new one.\<close>

definition tcp_accept :: "'k os \<Rightarrow> 'k \<Rightarrow> FDWrapper \<Rightarrow> ('k \<times> FDWrapper \<times> FDWrapper) res" where
  "tcp_accept os k w =
     (let w = register_read w; (k, r) = os_accept os k (fd_num w) in
      bindE (SystemCall ''accept'' r 0) (\<lambda>fd.
      bindE (FDWrapper_init fd) (\<lambda>n.
      bindE (TCPSocket_of_fd os k n) (\<lambda>(k, n). Inr (k, w, n)))))"

section \<open>Datagrams\<close>

record received_datagram =
  rd_source_address :: Address
  rd_payload :: bytes

definition udp_recv :: "'k os \<Rightarrow> 'k \<Rightarrow> FDWrapper \<Rightarrow> u64 \<Rightarrow> ('k \<times> FDWrapper \<times> received_datagram) res" where
  "udp_recv os k w mtu =
     (let (k, r, payload, address, fromlen) = os_recvfrom os k (fd_num w) mtu in
      bindE (SystemCall ''recvfrom'' r 0) (\<lambda>recv_len.
      if recv_len > sint mtu then Inl (Runtime_Error ''recvfrom (oversized datagram)'')
      else
        let w = register_read w in
        bindE (Address_of_sockaddr (str_resize address sizeof_sockaddr_storage) (ucast fromlen)) (\<lambda>source.
        if recv_len < 0 then Inl Length_Error
        else Inr (k, w, \<lparr>rd_source_address = source,
                    rd_payload = str_resize (str_resize payload (unat mtu)) (unat (word_of_int recv_len :: u64))\<rparr>))))"

definition sendmsg_helper :: "'k os \<Rightarrow> 'k \<Rightarrow> int \<Rightarrow> bytes \<Rightarrow> u32 \<Rightarrow> BufferViewList \<Rightarrow> 'k res" where
  "sendmsg_helper os k num destination_address destination_address_len payload =
     (let (k, r) = os_sendmsg os k num destination_address destination_address_len (as_iovecs payload) in
      bindE (SystemCall ''sendmsg'' r 0) (\<lambda>bytes_sent.
      if (word_of_int bytes_sent :: u64) \<noteq> bvl_size payload
      then Inl (Runtime_Error ''datagram payload too big for sendmsg()'')
      else Inr k))"

definition udp_sendto :: "'k os \<Rightarrow> 'k \<Rightarrow> FDWrapper \<Rightarrow> Address \<Rightarrow> BufferViewList \<Rightarrow> ('k \<times> FDWrapper) res" where
  "udp_sendto os k w destination payload =
     bindE (sendmsg_helper os k (fd_num w) (ad_storage destination) (ad_size destination) payload) (\<lambda>k.
       Inr (k, register_write w))"

text \<open>Without a destination the kernel gets a null pointer and length 0.\<close>

definition udp_send :: "'k os \<Rightarrow> 'k \<Rightarrow> FDWrapper \<Rightarrow> BufferViewList \<Rightarrow> ('k \<times> FDWrapper) res" where
  "udp_send os k w payload =
     bindE (sendmsg_helper os k (fd_num w) [] 0 payload) (\<lambda>k. Inr (k, register_write w))"

section \<open>TUN and TAP devices\<close>

definition IFF_TUN :: u16 where "IFF_TUN = 1"
definition IFF_TAP :: u16 where "IFF_TAP = 2"
definition IFF_NO_PI :: u16 where "IFF_NO_PI = 0x1000"

definition CLONEDEV :: string where
  "CLONEDEV = ''/dev/net/tun''"

text \<open>The device name is cut off after 15 characters, the size of \<open>ifr_name\<close> less one.\<close>

definition TunTapFD_init :: "'k os \<Rightarrow> 'k \<Rightarrow> string \<Rightarrow> bool \<Rightarrow> ('k \<times> FDWrapper) res" where
  "TunTapFD_init os k devname is_tun =
     (let (k, r) = os_open os k CLONEDEV in
      bindE (SystemCall ''open'' r 0) (\<lambda>fd.
      bindE (FDWrapper_init fd) (\<lambda>w.
        let flags = (if is_tun then IFF_TUN else IFF_TAP) OR IFF_NO_PI;
            (k, r) = os_ioctl os k (fd_num w) flags (take 15 devname)
        in bindE (SystemCall ''ioctl'' r 0) (\<lambda>_. Inr (k, w)))))"

definition TunFD_init :: "'k os \<Rightarrow> 'k \<Rightarrow> string \<Rightarrow> ('k \<times> FDWrapper) res" where
  "TunFD_init os k devname = TunTapFD_init os k devname True"

definition TapFD_init :: "'k os \<Rightarrow> 'k \<Rightarrow> string \<Rightarrow> ('k \<times> FDWrapper) res" where
  "TapFD_init os k devname = TunTapFD_init os k devname False"

section \<open>Shutting down moves no data\<close>

lemma stream_shutdown:
  assumes "stream_kernel os inp out" "sock_shutdown os k w how = Inr (k', w')"
  shows "inp k' = inp k" "out k' = out k" "fd_num w' = fd_num w"
  using assms(2) stream_kernel_frame(5) [OF assms(1), of k "fd_num w" how]
  by (auto simp: sock_shutdown_def bindE_eq_Inr split_def Let_def register_read_def register_write_def
      split: if_splits)

end
