(* ===== verification/Adapters.thy ===== *)
theory Adapters
  imports TCP_Over_IP Network_Interface Sockets
begin

text \<open>
  The datagram adapters of the socket: \<open>TCPOverUDPSocketAdapter\<close>
  (\<open>src/libsponge/tcp_helpers/fd_adapter.hh\<close>, \<open>fd_adapter.cc\<close>), \<open>TCPOverIPv4OverTunFdAdapter\<close> and
  \<open>TCPOverIPv4OverEthernetAdapter\<close> (\<open>tuntap_adapter.hh\<close>, \<open>tuntap_adapter.cc\<close>), and the wrapper
  \<open>LossyFdAdapter\<close> (\<open>lossy_fd_adapter.hh\<close>). They are used as the template argument of
  \<open>TCPSpongeSocket\<close>, through the operations collected in the record \<open>adapter\<close>.
\<close>

section \<open>The interface\<close>

text \<open>A segment passed to \<open>write\<close> by reference is not used again by any caller.\<close>

record ('k, 'a) adapter =
  ad_read :: "'k \<Rightarrow> 'a \<Rightarrow> ('k \<times> 'a \<times> TCPSegment option) res"
  ad_write :: "'k \<Rightarrow> 'a \<Rightarrow> TCPSegment \<Rightarrow> ('k \<times> 'a) res"
  ad_tick :: "'k \<Rightarrow> 'a \<Rightarrow> u64 \<Rightarrow> ('k \<times> 'a) res"
  ad_base :: "'a \<Rightarrow> FdAdapterBase"
  ad_set_base :: "'a \<Rightarrow> FdAdapterBase \<Rightarrow> 'a"
  ad_fd :: "'a \<Rightarrow> FDWrapper"

section \<open>TCP over UDP\<close>

record TCPOverUDPSocketAdapter =
  ua_base :: FdAdapterBase
  ua_sock :: FDWrapper

definition udp_adapter_read :: "'k os \<Rightarrow> 'k \<Rightarrow> TCPOverUDPSocketAdapter \<Rightarrow>
    ('k \<times> TCPOverUDPSocketAdapter \<times> TCPSegment option) res" where
  "udp_adapter_read os k a =
     bindE (udp_recv os k (ua_sock a) 65536) (\<lambda>(k, w, datagram).
     let a = a\<lparr>ua_sock := w\<rparr>; base = ua_base a in
     if \<not> fa_listen base \<and> \<not> address_eq (rd_source_address datagram) (fc_destination (fa_cfg base))
     then Inr (k, a, None)
     else
       let (result, seg) = tcp_segment_parse TCPSegment_init (rd_payload datagram) 0 in
       if result \<noteq> NoError then Inr (k, a, None)
       else if fa_listen base then
         if th_syn (ts_header seg) \<and> \<not> th_rst (ts_header seg)
         then Inr (k, a\<lparr>ua_base := set_listening
                (base\<lparr>fa_cfg := (fa_cfg base)\<lparr>fc_destination := rd_source_address datagram\<rparr>\<rparr>) False\<rparr>, Some seg)
         else Inr (k, a, None)
       else Inr (k, a, Some seg))"

definition udp_adapter_write :: "getnameinfo \<Rightarrow> 'k os \<Rightarrow> 'k \<Rightarrow> TCPOverUDPSocketAdapter \<Rightarrow> TCPSegment \<Rightarrow>
    ('k \<times> TCPOverUDPSocketAdapter) res" where
  "udp_adapter_write gni os k a seg =
     (let cfg = fa_cfg (ua_base a) in
      bindE (address_port gni (fc_source cfg)) (\<lambda>sport.
      bindE (address_port gni (fc_destination cfg)) (\<lambda>dport.
      let seg = seg\<lparr>ts_header := (ts_header seg)\<lparr>th_sport := sport, th_dport := dport\<rparr>\<rparr> in
      bindE (tcp_segment_serialize seg 0) (\<lambda>payload.
      bindE (udp_sendto os k (ua_sock a) (fc_destination cfg) payload) (\<lambda>(k, w).
        Inr (k, a\<lparr>ua_sock := w\<rparr>))))))"

definition udp_adapter :: "getnameinfo \<Rightarrow> 'k os \<Rightarrow> ('k, TCPOverUDPSocketAdapter) adapter" where
  "udp_adapter gni os = \<lparr>ad_read = udp_adapter_read os, ad_write = udp_adapter_write gni os,
     ad_tick = \<lambda>k a ms. Inr (k, a), ad_base = ua_base, ad_set_base = \<lambda>a b. a\<lparr>ua_base := b\<rparr>, ad_fd = ua_sock\<rparr>"

section \<open>TCP over IPv4 over a TUN device\<close>

record TCPOverIPv4OverTunFdAdapter =
  ta_base :: FdAdapterBase
  ta_tun :: FDWrapper

text \<open>The default limit of \<open>FileDescriptor::read\<close>, the largest \<open>size_t\<close>.\<close>

definition max_size :: u64 where
  "max_size = - 1"

definition tun_adapter_read :: "getaddrinfo \<Rightarrow> getnameinfo \<Rightarrow> 'k os \<Rightarrow> 'k \<Rightarrow> TCPOverIPv4OverTunFdAdapter \<Rightarrow>
    ('k \<times> TCPOverIPv4OverTunFdAdapter \<times> TCPSegment option) res" where
  "tun_adapter_read gai gni os k a =
     bindE (fd_read os k (ta_tun a) max_size) (\<lambda>(k, w, str).
     let a = a\<lparr>ta_tun := w\<rparr>;
         (result, ip_dgram) = ipv4_datagram_parse IPv4Datagram_init str
     in
     if result \<noteq> NoError then Inr (k, a, None)
     else bindE (unwrap_tcp_in_ip gai gni (ta_base a) ip_dgram) (\<lambda>(base, seg). Inr (k, a\<lparr>ta_base := base\<rparr>, seg)))"

definition tun_adapter_write :: "getnameinfo \<Rightarrow> 'k os \<Rightarrow> 'k \<Rightarrow> TCPOverIPv4OverTunFdAdapter \<Rightarrow> TCPSegment \<Rightarrow>
    ('k \<times> TCPOverIPv4OverTunFdAdapter) res" where
  "tun_adapter_write gni os k a seg =
     bindE (wrap_tcp_in_ip gni (ta_base a) seg) (\<lambda>(seg, ip_dgram).
     bindE (ipv4_datagram_serialize ip_dgram) (\<lambda>pieces.
     bindE (fd_write os k (ta_tun a) pieces True) (\<lambda>(k, w, _). Inr (k, a\<lparr>ta_tun := w\<rparr>))))"

definition tun_adapter ::
    "getaddrinfo \<Rightarrow> getnameinfo \<Rightarrow> 'k os \<Rightarrow> ('k, TCPOverIPv4OverTunFdAdapter) adapter" where
  "tun_adapter gai gni os = \<lparr>ad_read = tun_adapter_read gai gni os, ad_write = tun_adapter_write gni os,
     ad_tick = \<lambda>k a ms. Inr (k, a), ad_base = ta_base, ad_set_base = \<lambda>a b. a\<lparr>ta_base := b\<rparr>, ad_fd = ta_tun\<rparr>"

section \<open>TCP over IPv4 over Ethernet\<close>

record TCPOverIPv4OverEthernetAdapter =
  ea_base :: FdAdapterBase
  ea_tap :: FDWrapper
  ea_interface :: NetworkInterface
  ea_next_hop :: Address

text \<open>The loop of \<open>send_pending\<close>, over the queue of the interface.\<close>

fun send_pending_loop :: "'k os \<Rightarrow> 'k \<Rightarrow> EthernetFrame list \<Rightarrow> TCPOverIPv4OverEthernetAdapter \<Rightarrow>
    ('k \<times> TCPOverIPv4OverEthernetAdapter) res" where
  "send_pending_loop os k [] a = Inr (k, a\<lparr>ea_interface := (ea_interface a)\<lparr>ni_frames_out := []\<rparr>\<rparr>)"
| "send_pending_loop os k (f # fs) a =
     bindE (fd_write os k (ea_tap a) (ethernet_frame_serialize f) True) (\<lambda>(k, w, _).
       send_pending_loop os k fs (a\<lparr>ea_tap := w, ea_interface := (ea_interface a)\<lparr>ni_frames_out := fs\<rparr>\<rparr>))"

definition send_pending :: "'k os \<Rightarrow> 'k \<Rightarrow> TCPOverIPv4OverEthernetAdapter \<Rightarrow>
    ('k \<times> TCPOverIPv4OverEthernetAdapter) res" where
  "send_pending os k a = send_pending_loop os k (ni_frames_out (ea_interface a)) a"

definition TCPOverIPv4OverEthernetAdapter_init :: "getaddrinfo \<Rightarrow> 'k os \<Rightarrow> 'k \<Rightarrow> FDWrapper \<Rightarrow> EthernetAddress \<Rightarrow>
    Address \<Rightarrow> Address \<Rightarrow> ('k \<times> TCPOverIPv4OverEthernetAdapter) res" where
  "TCPOverIPv4OverEthernetAdapter_init gai os k tap eth_address ip_address next_hop =
     bindE (FdAdapterBase_init gai) (\<lambda>base.
     bindE (fd_write os k tap (ethernet_frame_serialize EthernetFrame_init) True) (\<lambda>(k, tap, _).
       Inr (k, \<lparr>ea_base = base, ea_tap = tap, ea_interface = NetworkInterface_init eth_address ip_address,
                ea_next_hop = next_hop\<rparr>)))"

definition eth_adapter_read :: "getaddrinfo \<Rightarrow> getnameinfo \<Rightarrow> 'k os \<Rightarrow> 'k \<Rightarrow> TCPOverIPv4OverEthernetAdapter \<Rightarrow>
    ('k \<times> TCPOverIPv4OverEthernetAdapter \<times> TCPSegment option) res" where
  "eth_adapter_read gai gni os k a =
     bindE (fd_read os k (ea_tap a) max_size) (\<lambda>(k, w, str).
     let a = a\<lparr>ea_tap := w\<rparr>;
         (result, frame) = ethernet_frame_parse EthernetFrame_init str
     in
     if result \<noteq> NoError then Inr (k, a, None)
     else
     bindE (ni_recv_frame (ea_interface a) frame) (\<lambda>(i, ip_dgram).
     bindE (send_pending os k (a\<lparr>ea_interface := i\<rparr>)) (\<lambda>(k, a).
     case ip_dgram of
       None \<Rightarrow> Inr (k, a, None)
     | Some d \<Rightarrow>
       bindE (unwrap_tcp_in_ip gai gni (ea_base a) d) (\<lambda>(base, seg). Inr (k, a\<lparr>ea_base := base\<rparr>, seg)))))"

definition eth_adapter_tick :: "'k os \<Rightarrow> 'k \<Rightarrow> TCPOverIPv4OverEthernetAdapter \<Rightarrow> u64 \<Rightarrow>
    ('k \<times> TCPOverIPv4OverEthernetAdapter) res" where
  "eth_adapter_tick os k a ms_since_last_tick =
     send_pending os k (a\<lparr>ea_interface := ni_tick (ea_interface a) ms_since_last_tick\<rparr>)"

definition eth_adapter_write :: "getnameinfo \<Rightarrow> 'k os \<Rightarrow> 'k \<Rightarrow> TCPOverIPv4OverEthernetAdapter \<Rightarrow> TCPSegment \<Rightarrow>
    ('k \<times> TCPOverIPv4OverEthernetAdapter) res" where
  "eth_adapter_write gni os k a seg =
     bindE (wrap_tcp_in_ip gni (ea_base a) seg) (\<lambda>(seg, ip_dgram).
     bindE (send_datagram (ea_interface a) ip_dgram (ea_next_hop a)) (\<lambda>i.
       send_pending os k (a\<lparr>ea_interface := i\<rparr>)))"

definition eth_adapter ::
    "getaddrinfo \<Rightarrow> getnameinfo \<Rightarrow> 'k os \<Rightarrow> ('k, TCPOverIPv4OverEthernetAdapter) adapter" where
  "eth_adapter gai gni os = \<lparr>ad_read = eth_adapter_read gai gni os, ad_write = eth_adapter_write gni os,
     ad_tick = eth_adapter_tick os, ad_base = ea_base, ad_set_base = \<lambda>a b. a\<lparr>ea_base := b\<rparr>, ad_fd = ea_tap\<rparr>"

section \<open>Random losses\<close>

text \<open>The Mersenne twister is an argument: it turns a state into the next one and a number.\<close>

record ('r, 'a) LossyFdAdapter =
  lo_rand :: 'r
  lo_adapter :: 'a

definition should_drop :: "('r \<Rightarrow> 'r \<times> u32) \<Rightarrow> FdAdapterConfig \<Rightarrow> 'r \<Rightarrow> bool \<Rightarrow> bool \<times> 'r" where
  "should_drop gen cfg r uplink =
     (let loss = (if uplink then fc_loss_rate_up cfg else fc_loss_rate_dn cfg) in
      if loss = 0 then (False, r)
      else let (r, x) = gen r in (ucast x < loss, r))"

definition lossy_read :: "('r \<Rightarrow> 'r \<times> u32) \<Rightarrow> ('k, 'a) adapter \<Rightarrow> 'k \<Rightarrow> ('r, 'a) LossyFdAdapter \<Rightarrow>
    ('k \<times> ('r, 'a) LossyFdAdapter \<times> TCPSegment option) res" where
  "lossy_read gen ad k l =
     bindE (ad_read ad k (lo_adapter l)) (\<lambda>(k, a, ret).
     let (drop, r) = should_drop gen (fa_cfg (ad_base ad a)) (lo_rand l) False;
         l = \<lparr>lo_rand = r, lo_adapter = a\<rparr>
     in if drop then Inr (k, l, None) else Inr (k, l, ret))"

definition lossy_write :: "('r \<Rightarrow> 'r \<times> u32) \<Rightarrow> ('k, 'a) adapter \<Rightarrow> 'k \<Rightarrow> ('r, 'a) LossyFdAdapter \<Rightarrow> TCPSegment \<Rightarrow>
    ('k \<times> ('r, 'a) LossyFdAdapter) res" where
  "lossy_write gen ad k l seg =
     (let (drop, r) = should_drop gen (fa_cfg (ad_base ad (lo_adapter l))) (lo_rand l) True;
          l = l\<lparr>lo_rand := r\<rparr>
      in if drop then Inr (k, l)
         else bindE (ad_write ad k (lo_adapter l) seg) (\<lambda>(k, a). Inr (k, l\<lparr>lo_adapter := a\<rparr>)))"

definition lossy_adapter :: "('r \<Rightarrow> 'r \<times> u32) \<Rightarrow> ('k, 'a) adapter \<Rightarrow> ('k, ('r, 'a) LossyFdAdapter) adapter" where
  "lossy_adapter gen ad = \<lparr>ad_read = lossy_read gen ad, ad_write = lossy_write gen ad,
     ad_tick = \<lambda>k l ms. bindE (ad_tick ad k (lo_adapter l) ms) (\<lambda>(k, a). Inr (k, l\<lparr>lo_adapter := a\<rparr>)),
     ad_base = \<lambda>l. ad_base ad (lo_adapter l),
     ad_set_base = \<lambda>l b. l\<lparr>lo_adapter := ad_set_base ad (lo_adapter l) b\<rparr>,
     ad_fd = \<lambda>l. ad_fd ad (lo_adapter l)\<rparr>"

section \<open>What the socket relies on\<close>

text \<open>
  An adapter does its input and output on its own descriptor: no operation changes \<open>obs\<close>, an
  observation of the kernel such as what passed through the socket's other descriptor.
\<close>

locale quiet_adapter =
  fixes ad :: "('k, 'a) adapter"
    and ok :: "'a \<Rightarrow> bool"
    and obs :: "'k \<Rightarrow> 'o"
  assumes read_quiet: "ok a \<Longrightarrow> ad_read ad k a = Inr (k', a', seg) \<Longrightarrow> ok a' \<and> obs k' = obs k"
    and write_quiet: "ok a \<Longrightarrow> ad_write ad k a s = Inr (k', a') \<Longrightarrow> ok a' \<and> obs k' = obs k"
    and tick_quiet: "ok a \<Longrightarrow> ad_tick ad k a ms = Inr (k', a') \<Longrightarrow> ok a' \<and> obs k' = obs k"
    and set_base_ok: "ok a \<Longrightarrow> ok (ad_set_base ad a b)"

text \<open>The traffic on one descriptor.\<close>

definition fd_traffic :: "('k \<Rightarrow> int \<Rightarrow> bytes) \<Rightarrow> ('k \<Rightarrow> int \<Rightarrow> bytes) \<Rightarrow> int \<Rightarrow> 'k \<Rightarrow> bytes \<times> bytes" where
  "fd_traffic inp out fd k = (inp k fd, out k fd)"

lemma fd_write_quiet:
  assumes "stream_kernel os inp out" "fd_num w \<noteq> fd" "fd_write os k w buffer b = Inr (k', w', n)"
  shows "fd_num w' \<noteq> fd \<and> fd_traffic inp out fd k' = fd_traffic inp out fd k"
  using stream_fd_write_frame(1,2) [OF assms(1,3)] stream_fd_write_frame(3) [OF assms(1,3), of fd] assms(2)
  by (auto simp: fd_traffic_def)

lemma fd_read_quiet:
  assumes "stream_kernel os inp out" "fd_num w \<noteq> fd" "fd_read os k w n = Inr (k', w', str)"
  shows "fd_num w' \<noteq> fd \<and> fd_traffic inp out fd k' = fd_traffic inp out fd k"
  using stream_fd_read [OF assms(1,3)] assms(2) by (auto simp: fd_traffic_def)

lemma udp_recv_quiet:
  assumes "stream_kernel os inp out" "udp_recv os k w n = Inr (k', w', d)"
  shows "fd_num w' = fd_num w \<and> fd_traffic inp out fd k' = fd_traffic inp out fd k"
  using assms(2) stream_kernel_frame(6) [OF assms(1), of k "fd_num w" n]
  by (auto simp: udp_recv_def bindE_eq_Inr Let_def register_read_def fd_traffic_def split_def split: if_splits)

lemma udp_sendto_quiet:
  assumes "stream_kernel os inp out" "udp_sendto os k w a d = Inr (k', w')"
  shows "fd_num w' = fd_num w \<and> fd_traffic inp out fd k' = fd_traffic inp out fd k"
  using assms(2) stream_kernel_frame(7) [OF assms(1)]
  by (auto simp: udp_sendto_def sendmsg_helper_def bindE_eq_Inr Let_def fd_traffic_def split_def split: if_splits)

lemma send_pending_quiet:
  assumes "stream_kernel os inp out" "fd_num (ea_tap a) \<noteq> fd" "send_pending_loop os k fs a = Inr (k', a')"
  shows "fd_num (ea_tap a') \<noteq> fd \<and> fd_traffic inp out fd k' = fd_traffic inp out fd k"
  using assms(2,3)
proof (induction fs arbitrary: k a)
  case (Cons f fs)
  obtain k1 w1 n where w: "fd_write os k (ea_tap a) (ethernet_frame_serialize f) True = Inr (k1, w1, n)"
      "send_pending_loop os k1 fs (a\<lparr>ea_tap := w1, ea_interface := (ea_interface a)\<lparr>ni_frames_out := fs\<rparr>\<rparr>) = Inr (k', a')"
    using Cons.prems(2) by (auto simp: bindE_eq_Inr)
  then show ?case
    using Cons.IH [OF _ w(2)] fd_write_quiet [OF assms(1) Cons.prems(1) w(1)] by auto
qed auto

interpretation udp: quiet_adapter "udp_adapter gni os" "\<lambda>a. stream_kernel os inp out" "fd_traffic inp out fd"
  for gni os inp out fd
proof (unfold_locales, goal_cases)
  case (1 a k k' a' seg)
  then obtain k1 w d where "udp_recv os k (ua_sock a) 65536 = Inr (k1, w, d)" "k' = k1"
    by (auto simp: udp_adapter_def udp_adapter_read_def bindE_eq_Inr Let_def split_def split: if_splits)
  then show ?case using 1 udp_recv_quiet [of os inp out k "ua_sock a" 65536 k' w d fd] by simp
next
  case (2 a k s k' a')
  then obtain addr p w where "udp_sendto os k (ua_sock a) addr p = Inr (k', w)"
    by (auto simp: udp_adapter_def udp_adapter_write_def bindE_eq_Inr Let_def)
  then show ?case using 2 udp_sendto_quiet [of os inp out k "ua_sock a" addr p k' w fd] by simp
qed (auto simp: udp_adapter_def)

interpretation tun: quiet_adapter "tun_adapter gai gni os"
    "\<lambda>a. stream_kernel os inp out \<and> fd_num (ta_tun a) \<noteq> fd" "fd_traffic inp out fd"
  for gai gni os inp out fd
proof (unfold_locales, goal_cases)
  case (1 a k k' a' seg)
  then obtain w str where "fd_read os k (ta_tun a) max_size = Inr (k', w, str)" "ta_tun a' = w"
    by (auto simp: tun_adapter_def tun_adapter_read_def bindE_eq_Inr Let_def split_def split: if_splits)
  then show ?case using 1 fd_read_quiet [of os inp out "ta_tun a" fd k max_size k' w str] by simp
next
  case (2 a k s k' a')
  then obtain p w n where "fd_write os k (ta_tun a) p True = Inr (k', w, n)" "ta_tun a' = w"
    by (auto simp: tun_adapter_def tun_adapter_write_def bindE_eq_Inr Let_def)
  then show ?case using 2 fd_write_quiet [of os inp out "ta_tun a" fd k p True k' w n] by simp
qed (auto simp: tun_adapter_def)

lemma eth_adapter_read_cases:
  assumes "eth_adapter_read gai gni os k a = Inr (k', a', seg)"
  obtains (dropped) w str where "fd_read os k (ea_tap a) max_size = Inr (k', w, str)" "ea_tap a' = w"
  | (handled) k1 w str i a1 where "fd_read os k (ea_tap a) max_size = Inr (k1, w, str)"
      "send_pending os k1 (a\<lparr>ea_tap := w, ea_interface := i\<rparr>) = Inr (k', a1)" "ea_tap a' = ea_tap a1"
proof -
  obtain k1 w str where r: "fd_read os k (ea_tap a) max_size = Inr (k1, w, str)"
    using assms by (auto simp: eth_adapter_read_def bindE_eq_Inr)
  obtain result frame where p: "ethernet_frame_parse EthernetFrame_init str = (result, frame)" by fastforce
  note eq = assms [unfolded eth_adapter_read_def r bindE_Inr prod.case Let_def p]
  show ?thesis
  proof (cases "result = NoError")
    case True
    then obtain i dg a1 where "send_pending os k1 (a\<lparr>ea_tap := w, ea_interface := i\<rparr>) = Inr (k', a1)"
        "ea_tap a' = ea_tap a1"
      using eq by (auto simp: bindE_eq_Inr split: option.splits)
    with r that(2) show thesis by blast
  qed (use eq r that(1) in auto)
qed

interpretation tap: quiet_adapter "eth_adapter gai gni os"
    "\<lambda>a. stream_kernel os inp out \<and> fd_num (ea_tap a) \<noteq> fd" "fd_traffic inp out fd"
  for gai gni os inp out fd
proof (unfold_locales, goal_cases)
  case (1 a k k' a' seg)
  then have "eth_adapter_read gai gni os k a = Inr (k', a', seg)" by (simp add: eth_adapter_def)
  then show ?case
  proof (cases rule: eth_adapter_read_cases)
    case (dropped w str)
    then show ?thesis using 1 fd_read_quiet by metis
  next
    case (handled k1 w str i a1)
    then show ?thesis
      using 1 fd_read_quiet [OF _ _ handled(1), of inp out fd]
        send_pending_quiet [of os inp out "a\<lparr>ea_tap := w, ea_interface := i\<rparr>" fd k1 _ k' a1]
      by (simp add: send_pending_def)
  qed
next
  case (2 a k s k' a')
  then obtain i where "send_pending os k (a\<lparr>ea_interface := i\<rparr>) = Inr (k', a')"
    by (auto simp: eth_adapter_def eth_adapter_write_def bindE_eq_Inr)
  then show ?case
    using 2 send_pending_quiet [of os inp out "a\<lparr>ea_interface := i\<rparr>" fd k _ k' a'] by (simp add: send_pending_def)
next
  case (3 a k ms k' a')
  then show ?case
    using send_pending_quiet [of os inp out "a\<lparr>ea_interface := ni_tick (ea_interface a) ms\<rparr>" fd k _ k' a']
    by (auto simp: eth_adapter_def eth_adapter_tick_def send_pending_def)
qed (auto simp: eth_adapter_def)

text \<open>Adding losses to a quiet adapter gives a quiet adapter.\<close>

interpretation lossy: quiet_adapter "lossy_adapter gen ad"
    "\<lambda>l. quiet_adapter ad ok obs \<and> ok (lo_adapter l)" obs
  for gen ad ok obs
proof (unfold_locales, goal_cases)
  case (1 l k k' l' seg)
  then obtain a s where "ad_read ad k (lo_adapter l) = Inr (k', a, s)" "lo_adapter l' = a"
    by (auto simp: lossy_adapter_def lossy_read_def bindE_eq_Inr Let_def split_def split: if_splits)
  then show ?case using 1 quiet_adapter.read_quiet by metis
next
  case (2 l k s k' l')
  then have "k' = k \<and> lo_adapter l' = lo_adapter l \<or> ad_write ad k (lo_adapter l) s = Inr (k', lo_adapter l')"
    by (auto simp: lossy_adapter_def lossy_write_def bindE_eq_Inr Let_def split_def split: if_splits)
  then show ?case using 2 quiet_adapter.write_quiet by metis
next
  case (3 l k ms k' l')
  then have "ad_tick ad k (lo_adapter l) ms = Inr (k', lo_adapter l')"
    by (auto simp: lossy_adapter_def bindE_eq_Inr)
  then show ?case using 3 quiet_adapter.tick_quiet by metis
next
  case (4 l b)
  then show ?case using quiet_adapter.set_base_ok by (auto simp: lossy_adapter_def)
qed

text \<open>With both loss rates 0 nothing is dropped and the generator is not used.\<close>

lemma should_drop_zero: "fc_loss_rate_up cfg = 0 \<Longrightarrow> fc_loss_rate_dn cfg = 0 \<Longrightarrow> should_drop gen cfg r up = (False, r)"
  by (simp add: should_drop_def)

end
