(* ===== verification/Event_Loop.thy ===== *)
theory Event_Loop
  imports File_Descriptor "HOL-Library.Sublist"
begin

text \<open>
  \<open>EventLoop\<close> (\<open>src/libsponge/util/eventloop.hh\<close>, \<open>eventloop.cc\<close>). The callbacks of a rule are
  functions on the state \<open>'s\<close> of the program that owns the loop; the descriptor of a rule shares
  its counters and flags with the owner's handle, so the rule holds the way to find it in that
  state. \<open>poll(2)\<close> is an argument that acts on the same state.
\<close>

unbundle bit_operations_syntax

section \<open>State and operations\<close>

datatype Direction = In | Out

definition POLLIN :: u16 where "POLLIN = 1"
definition POLLOUT :: u16 where "POLLOUT = 4"
definition POLLERR :: u16 where "POLLERR = 8"
definition POLLHUP :: u16 where "POLLHUP = 16"
definition POLLNVAL :: u16 where "POLLNVAL = 32"
definition EINTR :: int where "EINTR = 4"

fun direction_events :: "Direction \<Rightarrow> u16" where
  "direction_events In = POLLIN"
| "direction_events Out = POLLOUT"

record 's Rule =
  rl_fd :: "'s \<Rightarrow> FDWrapper"
  rl_direction :: Direction
  rl_callback :: "'s \<Rightarrow> 's res"
  rl_interest :: "'s \<Rightarrow> bool res"
  rl_cancel :: "'s \<Rightarrow> 's res"

datatype Result = Success | Timeout | Exit

type_synonym 's poll = "'s \<Rightarrow> pollfd list \<Rightarrow> int \<Rightarrow> 's \<times> sysret \<times> u16 list"

definition service_count :: "'s Rule \<Rightarrow> 's \<Rightarrow> u32" where
  "service_count rule s =
     (case rl_direction rule of In \<Rightarrow> fd_read_count (rl_fd rule s) | Out \<Rightarrow> fd_write_count (rl_fd rule s))"

definition add_rule :: "'s Rule list \<Rightarrow> ('s \<Rightarrow> FDWrapper) \<Rightarrow> Direction \<Rightarrow> ('s \<Rightarrow> 's res) \<Rightarrow>
    ('s \<Rightarrow> bool res) \<Rightarrow> ('s \<Rightarrow> 's res) \<Rightarrow> 's Rule list" where
  "add_rule rules fd direction callback interest cancel =
     rules @ [\<lparr>rl_fd = fd, rl_direction = direction, rl_callback = callback, rl_interest = interest,
               rl_cancel = cancel\<rparr>]"

text \<open>The first loop: cancel the rules that cannot fire any more, ask the others for their interest.
  The rules that stay are paired with their entry of \<open>pollfds\<close>.\<close>

definition rule_defunct :: "'s Rule \<Rightarrow> 's \<Rightarrow> bool" where
  "rule_defunct rule s \<longleftrightarrow> rl_direction rule = In \<and> fd_eof (rl_fd rule s) \<or> fd_closed (rl_fd rule s)"

fun setup_pollfds :: "'s Rule list \<Rightarrow> 's \<Rightarrow> ('s \<times> ('s Rule \<times> pollfd) list \<times> bool) res" where
  "setup_pollfds [] s = Inr (s, [], False)"
| "setup_pollfds (rule # rules) s =
     (if rule_defunct rule s then bindE (rl_cancel rule s) (setup_pollfds rules)
      else
        bindE (rl_interest rule s) (\<lambda>interested.
        bindE (setup_pollfds rules s) (\<lambda>(s', polled, something_to_poll).
          Inr (s', (rule, fd_num (rl_fd rule s), if interested then direction_events (rl_direction rule) else 0) # polled,
               interested \<or> something_to_poll))))"

text \<open>The second loop, over the rules with the events asked for and the events returned.\<close>

fun process_results :: "('s Rule \<times> u16 \<times> u16) list \<Rightarrow> 's \<Rightarrow> ('s \<times> 's Rule list) res" where
  "process_results [] s = Inr (s, [])"
| "process_results ((rule, events, revents) # rest) s =
     (let poll_error = revents AND (POLLERR OR POLLNVAL) \<noteq> 0;
          poll_ready = revents AND events \<noteq> 0;
          poll_hup = revents AND POLLHUP \<noteq> 0
      in
      if poll_error then Inl (Runtime_Error ''EventLoop: error on polled file descriptor'')
      else if poll_hup \<and> events \<noteq> 0 \<and> \<not> poll_ready
      then bindE (rl_cancel rule s) (process_results rest)
      else
        bindE (if poll_ready then
                 let count_before = service_count rule s in
                 bindE (rl_callback rule s) (\<lambda>s.
                 bindE (if count_before = service_count rule s then rl_interest rule s else Inr False) (\<lambda>busy.
                   if busy then Inl (Runtime_Error
                     ''EventLoop: busy wait detected: callback did not read/write fd and is still interested'')
                   else Inr s))
               else Inr s) (\<lambda>s.
        bindE (process_results rest s) (\<lambda>(s, kept). Inr (s, rule # kept))))"

text \<open>\<open>revents\<close> is 0 in the entries that \<open>poll\<close> does not fill in.\<close>

definition poll_results :: "('s Rule \<times> pollfd) list \<Rightarrow> u16 list \<Rightarrow> ('s Rule \<times> u16 \<times> u16) list" where
  "poll_results polled revents =
     map2 (\<lambda>(rule, _, events) revents. (rule, events, revents)) polled (revents @ replicate (length polled) 0)"

definition wait_next_event :: "'s poll \<Rightarrow> 's Rule list \<Rightarrow> int \<Rightarrow> 's \<Rightarrow> ('s \<times> 's Rule list \<times> Result) res" where
  "wait_next_event poll rules timeout_ms s =
     bindE (setup_pollfds rules s) (\<lambda>(s, polled, something_to_poll).
     if \<not> something_to_poll then Inr (s, map fst polled, Exit)
     else
       let (s, r, revents) = poll s (map snd polled) timeout_ms;
           go_on = bindE (process_results (poll_results polled revents) s) (\<lambda>(s, rules). Inr (s, rules, Success))
       in
       case SystemCall ''poll'' r 0 of
         Inr n \<Rightarrow> if n = 0 then Inr (s, map fst polled, Timeout) else go_on
       | Inl (Tagged_Error attempt e) \<Rightarrow> if e = EINTR then Inr (s, map fst polled, Exit) else go_on
       | Inl e \<Rightarrow> Inl e)"

lemma poll_results_fst [simp]: "map fst (poll_results polled revents) = map fst polled"
proof -
  let ?ys = "revents @ replicate (length polled) 0"
  have "map fst (poll_results polled revents) = map fst (map fst (zip polled ?ys))"
    by (simp add: poll_results_def comp_def split_def)
  then show ?thesis by (simp only: map_fst_zip_take) simp
qed

lemma subseq_set: "subseq xs ys \<Longrightarrow> set xs \<subseteq> set ys"
  by (induction rule: list_emb.induct) auto

section \<open>Clients of the loop\<close>

text \<open>Repeated calls, until the loop says \<open>Exit\<close> or the bound is reached; the flag tells whether it ended.\<close>

fun event_rounds :: "'s poll \<Rightarrow> int \<Rightarrow> nat \<Rightarrow> 's Rule list \<Rightarrow> 's \<Rightarrow> ('s \<times> 's Rule list \<times> bool) res" where
  "event_rounds poll timeout_ms 0 rules s = Inr (s, rules, False)"
| "event_rounds poll timeout_ms (Suc n) rules s =
     bindE (wait_next_event poll rules timeout_ms s) (\<lambda>(s, rules, result).
       if result = Exit then Inr (s, rules, True) else event_rounds poll timeout_ms n rules s)"

text \<open>
  The interface between the loop and its client: an invariant of the client's state that the
  callbacks, the cancellations and \<open>poll\<close> keep. The loop then keeps it, whatever \<open>poll\<close> reports,
  and it never invents or reorders a rule.
\<close>

locale loop_client =
  fixes inv :: "'s \<Rightarrow> bool"
    and rules :: "'s Rule list"
    and poll :: "'s poll"
  assumes callback_keeps: "rule \<in> set rules \<Longrightarrow> inv s \<Longrightarrow> rl_callback rule s = Inr s' \<Longrightarrow> inv s'"
    and cancel_keeps: "rule \<in> set rules \<Longrightarrow> inv s \<Longrightarrow> rl_cancel rule s = Inr s' \<Longrightarrow> inv s'"
    and poll_keeps: "inv s \<Longrightarrow> poll s fds t = (s', r) \<Longrightarrow> inv s'"
begin

lemma setup_keeps:
  "set rs \<subseteq> set rules \<Longrightarrow> inv s \<Longrightarrow> setup_pollfds rs s = Inr (s', polled, b) \<Longrightarrow>
    inv s' \<and> subseq (map fst polled) rs"
proof (induction rs arbitrary: s s' polled b)
  case (Cons rule rs)
  show ?case
  proof (cases "rule_defunct rule s")
    case True
    then obtain s1 where "rl_cancel rule s = Inr s1" "setup_pollfds rs s1 = Inr (s', polled, b)"
      using Cons.prems(3) by (auto simp: bindE_eq_Inr)
    then show ?thesis using Cons.IH [of s1 s' polled b] Cons.prems cancel_keeps [of rule s s1] by auto
  next
    case False
    then obtain p b' i where "setup_pollfds rs s = Inr (s', p, b')" "map fst polled = rule # map fst p"
      using Cons.prems(3) by (fastforce simp: bindE_eq_Inr)
    then show ?thesis using Cons.IH [of s s' p b'] Cons.prems by auto
  qed
qed auto

lemma process_keeps:
  "set (map fst xs) \<subseteq> set rules \<Longrightarrow> inv s \<Longrightarrow> process_results xs s = Inr (s', kept) \<Longrightarrow>
    inv s' \<and> subseq kept (map fst xs)"
proof (induction xs arbitrary: s s' kept)
  case (Cons x xs)
  obtain rule ev rev where x: "x = (rule, ev, rev)" by (cases x)
  have rule: "rule \<in> set rules" using Cons.prems(1) x by simp
  note prem = Cons.prems(3) [unfolded x process_results.simps Let_def]
  show ?case
  proof (cases "rev AND POLLHUP \<noteq> 0 \<and> ev \<noteq> 0 \<and> \<not> rev AND ev \<noteq> 0")
    case True
    then obtain s1 where "rl_cancel rule s = Inr s1" "process_results xs s1 = Inr (s', kept)"
      using prem by (auto simp: bindE_eq_Inr split: if_splits)
    then show ?thesis using Cons.IH [of s1 s' kept] Cons.prems x cancel_keeps [OF rule, of s s1] by auto
  next
    case False
    then obtain s1 kept' where s1: "s1 = s \<or> rl_callback rule s = Inr s1"
        "process_results xs s1 = Inr (s', kept')" "kept = rule # kept'"
      using prem by (auto simp: bindE_eq_Inr split: if_splits prod.splits)
    then have "inv s1" using callback_keeps [OF rule, of s s1] Cons.prems(2) by blast
    then show ?thesis using Cons.IH [of s1 s' kept'] Cons.prems x s1 by auto
  qed
qed auto

lemma wait_keeps:
  assumes "set rs \<subseteq> set rules" "inv s" "wait_next_event poll rs t s = Inr (s', rs', result)"
  shows "inv s' \<and> subseq rs' rs"
proof -
  obtain s1 polled b where s1: "setup_pollfds rs s = Inr (s1, polled, b)"
    using assms(3) by (auto simp: wait_next_event_def bindE_eq_Inr)
  then have keep: "inv s1" "subseq (map fst polled) rs" using setup_keeps assms by blast+
  obtain s2 r revents where p: "poll s1 (map snd polled) t = (s2, r, revents)"
    by (cases "poll s1 (map snd polled) t") auto
  then have "inv s2" using poll_keeps keep(1) by blast
  moreover have "s' = s1 \<and> rs' = map fst polled \<or> s' = s2 \<and> rs' = map fst polled \<or>
      process_results (poll_results polled revents) s2 = Inr (s', rs')"
    using assms(3) unfolding wait_next_event_def s1 bindE_Inr prod.case p Let_def
    by (auto simp: bindE_eq_Inr split: if_splits sum.splits exn.splits)
  moreover have "set (map fst polled) \<subseteq> set rules"
    using keep(2) assms(1) using subseq_set by blast
  ultimately show ?thesis
    using process_keeps [of "poll_results polled revents" s2 s' rs'] keep subseq_order.trans
    unfolding poll_results_fst by blast
qed

lemma rounds_keep:
  "set rs \<subseteq> set rules \<Longrightarrow> inv s \<Longrightarrow> event_rounds poll t n rs s = Inr (s', rs', fin) \<Longrightarrow>
    inv s' \<and> subseq rs' rs"
proof (induction n arbitrary: rs s)
  case (Suc n)
  then obtain s1 rs1 result where w: "wait_next_event poll rs t s = Inr (s1, rs1, result)"
      "(if result = Exit then Inr (s1, rs1, True) else event_rounds poll t n rs1 s1) = Inr (s', rs', fin)"
    by (auto simp: bindE_eq_Inr)
  then have k: "inv s1" "subseq rs1 rs" using wait_keeps Suc.prems by blast+
  then have "set rs1 \<subseteq> set rules" using Suc.prems(1) subseq_set by blast
  with Suc.IH [of rs1 s1] k w show ?case by (auto split: if_splits intro: subseq_order.trans)
qed auto

end

section \<open>Clients with queues\<close>

text \<open>
  A callback may rely on what made its rule interested, such as a queue with something in it. The
  interests are asked for before \<open>poll\<close>, and other callbacks run in between, so the client promises
  that no callback ends the interest of a rule after its own. Then every callback runs while
  its rule is still interested.
\<close>

lemma sorted_wrt_subseq: "subseq xs ys \<Longrightarrow> sorted_wrt P ys \<Longrightarrow> sorted_wrt P xs"
proof (induction rule: list_emb.induct)
  case (list_emb_Cons2 x y xs ys)
  then show ?case using subseq_set [of xs ys] by auto
qed auto

lemma poll_results_events:
  "(r, ev, v) \<in> set (poll_results polled revents) \<Longrightarrow> \<exists>fd. (r, fd, ev) \<in> set polled"
  by (auto simp: poll_results_def dest!: set_zip_leftD)

definition keeps_interest :: "'s Rule \<Rightarrow> 's \<Rightarrow> 's \<Rightarrow> bool" where
  "keeps_interest r s s' \<longleftrightarrow> (rl_interest r s = Inr True \<longrightarrow> rl_interest r s' = Inr True)"

locale steady_client = loop_client inv rules poll
  for inv :: "'s \<Rightarrow> bool" and rules :: "'s Rule list" and poll :: "'s poll" +
  assumes interest_defined: "rule \<in> set rules \<Longrightarrow> inv s \<Longrightarrow> defined (rl_interest rule s)"
    and callback_defined: "rule \<in> set rules \<Longrightarrow> inv s \<Longrightarrow> rl_interest rule s = Inr True \<Longrightarrow>
      defined (rl_callback rule s)"
    and cancel_defined: "rule \<in> set rules \<Longrightarrow> inv s \<Longrightarrow> defined (rl_cancel rule s)"
    and cancel_steady: "rule \<in> set rules \<Longrightarrow> r \<in> set rules \<Longrightarrow> inv s \<Longrightarrow> rl_cancel rule s = Inr s' \<Longrightarrow>
      keeps_interest r s s'"
    and poll_steady: "r \<in> set rules \<Longrightarrow> inv s \<Longrightarrow> poll s fds t = (s', x) \<Longrightarrow> keeps_interest r s s'"
    and callback_steady: "sorted_wrt (\<lambda>r r'. \<forall>s s'. inv s \<longrightarrow> rl_callback r s = Inr s' \<longrightarrow> keeps_interest r' s s') rules"
begin

lemma setup_defined:
  "set rs \<subseteq> set rules \<Longrightarrow> inv s \<Longrightarrow> defined (setup_pollfds rs s) \<and>
    (\<forall>s' polled b. setup_pollfds rs s = Inr (s', polled, b) \<longrightarrow>
      (\<forall>r \<in> set rules. keeps_interest r s s') \<and>
      (\<forall>(r, _, ev) \<in> set polled. ev \<noteq> 0 \<longrightarrow> rl_interest r s' = Inr True))"
proof (induction rs arbitrary: s)
  case (Cons rule rs)
  then have rule: "rule \<in> set rules" "set rs \<subseteq> set rules" by auto
  show ?case
  proof (cases "rule_defunct rule s")
    case True
    show ?thesis
    proof (cases "rl_cancel rule s")
      case (Inr s1)
      have "inv s1" "\<forall>r \<in> set rules. keeps_interest r s s1"
        using cancel_keeps [OF rule(1) Cons.prems(2) Inr] cancel_steady [OF rule(1) _ Cons.prems(2) Inr] by auto
      with Cons.IH [OF rule(2), of s1] show ?thesis using True Inr by (auto simp: keeps_interest_def)
    qed (use True cancel_defined [OF rule(1) Cons.prems(2)] in auto)
  next
    case False
    show ?thesis
    proof (cases "rl_interest rule s")
      case (Inr i)
      with Cons.IH [OF rule(2) Cons.prems(2)] show ?thesis
        using False rule(1) by (fastforce simp: keeps_interest_def bindE_eq_Inr intro!: defined_bind)
    qed (use False interest_defined [OF rule(1) Cons.prems(2)] in auto)
  qed
qed (simp add: keeps_interest_def)

lemma process_defined:
  "subseq (map fst xs) rules \<Longrightarrow> inv s \<Longrightarrow> \<forall>(r, ev, _) \<in> set xs. ev \<noteq> 0 \<longrightarrow> rl_interest r s = Inr True \<Longrightarrow>
    defined (process_results xs s)"
proof (induction xs arbitrary: s)
  case (Cons x xs)
  obtain rule ev rev where x: "x = (rule, ev, rev)" by (cases x)
  have rule: "rule \<in> set rules" "subseq (map fst xs) rules"
    using Cons.prems(1) x subseq_set [OF Cons.prems(1)] subseq_Cons' by auto
  have "sorted_wrt (\<lambda>r r'. \<forall>s s'. inv s \<longrightarrow> rl_callback r s = Inr s' \<longrightarrow> keeps_interest r' s s') (map fst (x # xs))"
    using callback_steady Cons.prems(1) sorted_wrt_subseq by blast
  then have steady: "keeps_interest (fst y) s s'" if "y \<in> set xs" "inv s" "rl_callback rule s = Inr s'" for y s s'
    using that x by auto
  have rest: "defined (process_results xs s')" if "inv s'" "\<forall>y \<in> set xs. keeps_interest (fst y) s s'" for s'
    using Cons.IH [OF rule(2) that(1)] Cons.prems(3) that(2) by (fastforce simp: keeps_interest_def)
  have same: "defined (process_results xs s)" using rest [OF Cons.prems(2)] by (simp add: keeps_interest_def)
  have cancel: "defined (bindE (rl_cancel rule s) (process_results xs))"
    using cancel_defined [OF rule(1) Cons.prems(2)] cancel_keeps [OF rule(1) Cons.prems(2)]
      cancel_steady [OF rule(1) _ Cons.prems(2)] subseq_set [OF rule(2)]
    by (intro defined_bind rest) auto
  have fire: "defined (bindE (rl_callback rule s) (\<lambda>s'.
      bindE (if count = service_count rule s' then rl_interest rule s' else Inr False) (\<lambda>busy.
        if busy then Inl (Runtime_Error msg) else Inr s')))" if "rev AND ev \<noteq> 0" for count msg
  proof (rule defined_bind)
    have "ev \<noteq> 0" using that by auto
    then have "rl_interest rule s = Inr True" using Cons.prems(3) x by auto
    then show "defined (rl_callback rule s)" using callback_defined rule(1) Cons.prems(2) by blast
    fix s' assume "rl_callback rule s = Inr s'"
    then have "inv s'" using callback_keeps rule(1) Cons.prems(2) by blast
    then show "defined (bindE (if count = service_count rule s' then rl_interest rule s' else Inr False) (\<lambda>busy.
        if busy then Inl (Runtime_Error msg) else Inr s'))"
      using interest_defined [OF rule(1)] by (auto intro!: defined_bind)
  qed
  have next_ok: "defined (bindE (process_results xs s') (\<lambda>(s, kept). Inr (s, rule # kept)))"
    if "s' = s \<or> rl_callback rule s = Inr s'" for s'
  proof -
    have "defined (process_results xs s')"
      using that
    proof
      assume c: "rl_callback rule s = Inr s'"
      then have "inv s'" using callback_keeps rule(1) Cons.prems(2) by blast
      then show ?thesis using rest steady [OF _ Cons.prems(2) c] by blast
    qed (simp add: same)
    then show ?thesis by (intro defined_bind) auto
  qed
  let ?fire = "\<lambda>msg. if rev AND ev \<noteq> 0 then bindE (rl_callback rule s) (\<lambda>s'.
      bindE (if service_count rule s = service_count rule s' then rl_interest rule s' else Inr False) (\<lambda>busy.
        if busy then Inl (Runtime_Error msg) else Inr s')) else Inr s"
  have fired: "s' = s \<or> rl_callback rule s = Inr s'" if "?fire msg = Inr s'" for s' msg
    using that by (auto simp: bindE_eq_Inr split: if_splits)
  have step: "defined (bindE (?fire msg) (\<lambda>s. bindE (process_results xs s) (\<lambda>(s, kept). Inr (s, rule # kept))))" for msg
  proof (rule defined_bind)
    show "defined (?fire msg)" using fire by simp
  qed (rule next_ok, erule fired)
  show ?case
  proof (cases "rev AND (POLLERR OR POLLNVAL) \<noteq> 0")
    case no_error: False
    show ?thesis
    proof (cases "rev AND POLLHUP \<noteq> 0 \<and> ev \<noteq> 0 \<and> \<not> rev AND ev \<noteq> 0")
      case True
      then have "process_results (x # xs) s = bindE (rl_cancel rule s) (process_results xs)"
        using no_error unfolding x process_results.simps Let_def by simp
      then show ?thesis using cancel by simp
    next
      case False
      show ?thesis
        unfolding x process_results.simps Let_def if_not_P [OF no_error] if_not_P [OF False] by (rule step)
    qed
  qed (simp add: x)
qed simp

lemma wait_defined:
  assumes "subseq rs rules" "inv s"
  shows "defined (wait_next_event poll rs t s)"
  unfolding wait_next_event_def
proof (rule defined_bind)
  note set = subseq_set [OF assms(1)]
  show "defined (setup_pollfds rs s)" using setup_defined [OF set assms(2)] by blast
  fix x assume x: "setup_pollfds rs s = Inr x"
  obtain s1 polled b where eq: "x = (s1, polled, b)" by (cases x)
  have s1: "inv s1" "subseq (map fst polled) rules"
    using setup_keeps [OF set assms(2) x [unfolded eq]] assms(1) subseq_order.trans by blast+
  have ev: "\<forall>(r, _, ev) \<in> set polled. ev \<noteq> 0 \<longrightarrow> rl_interest r s1 = Inr True"
    using setup_defined [OF set assms(2)] x eq by blast
  obtain s2 r revents where p: "poll s1 (map snd polled) t = (s2, r, revents)" by (metis prod_cases3)
  have s2: "inv s2" "\<forall>r \<in> set rules. keeps_interest r s1 s2" using poll_keeps poll_steady s1(1) p by blast+
  have "rl_interest q s2 = Inr True" if q: "(q, e, v) \<in> set (poll_results polled revents)" "e \<noteq> 0" for q e v
  proof -
    obtain fd where fd: "(q, fd, e) \<in> set polled" using poll_results_events [OF q(1)] by blast
    then have "q \<in> set rules" using subseq_set [OF s1(2)] by force
    moreover have "rl_interest q s1 = Inr True" using ev fd q(2) by blast
    ultimately show ?thesis using s2(2) by (simp add: keeps_interest_def)
  qed
  then have "\<forall>(r, ev, _) \<in> set (poll_results polled revents). ev \<noteq> 0 \<longrightarrow> rl_interest r s2 = Inr True" by blast
  then have "defined (process_results (poll_results polled revents) s2)"
    using s1(2) s2(1) by (intro process_defined) simp_all
  then have go_on: "defined (bindE (process_results (poll_results polled revents) s2) (\<lambda>(s, rules). Inr (s, rules, Success)))"
    by (intro defined_bind) auto
  have call: "defined (SystemCall ''poll'' r 0)" by (simp add: SystemCall_def Let_def)
  show "defined (case x of (s, polled, something_to_poll) \<Rightarrow>
      if \<not> something_to_poll then Inr (s, map fst polled, Exit)
      else let (s, r, revents) = poll s (map snd polled) t;
               go_on = bindE (process_results (poll_results polled revents) s) (\<lambda>(s, rules). Inr (s, rules, Success))
           in (case SystemCall ''poll'' r 0 of
                Inr n \<Rightarrow> if n = 0 then Inr (s, map fst polled, Timeout) else go_on
              | Inl (Tagged_Error attempt e) \<Rightarrow> if e = EINTR then Inr (s, map fst polled, Exit) else go_on
              | Inl e \<Rightarrow> Inl e))"
    unfolding eq prod.case p Let_def
    using go_on call by (cases "SystemCall ''poll'' r 0") (auto split: exn.splits)
qed

end

section \<open>A failed \<open>poll\<close>\<close>

text \<open>
  The comment above \<open>wait_next_event\<close> promises an exception when polling fails. The code catches
  the exception of \<open>SystemCall\<close> and only looks for \<open>EINTR\<close>: on every other error it goes through
  the untouched results and reports success, so that the caller polls again.
\<close>

lemma process_idle:
  "(\<And>x. x \<in> set xs \<Longrightarrow> snd (snd x) = 0) \<Longrightarrow> process_results xs s = Inr (s, map fst xs)"
proof (induction xs)
  case (Cons x xs)
  obtain rule ev where "x = (rule, ev, 0)" using Cons.prems [of x] by (cases x) auto
  moreover have "process_results xs s = Inr (s, map fst xs)" using Cons by simp
  ultimately show ?case by (simp add: Let_def)
qed simp

theorem poll_failure_ignored:
  assumes "setup_pollfds rules s = Inr (s1, polled, True)"
    and "poll s1 (map snd polled) t = (s2, (- 1, e), [])" "e \<noteq> EINTR" "e \<noteq> 0"
  shows "wait_next_event poll rules t s = Inr (s2, map fst polled, Success)"
proof -
  have "to_int32 (- 1) = - 1" by (rule to_int32_id) simp_all
  then have call: "SystemCall ''poll'' (- 1, e) 0 = Inl (Tagged_Error ''poll'' e)"
    using assms(4) by (simp add: SystemCall_def)
  have "process_results (poll_results polled []) s2 = Inr (s2, map fst (poll_results polled []))"
    by (rule process_idle) (auto simp: poll_results_def set_zip)
  then show ?thesis
    unfolding wait_next_event_def assms(1) bindE_Inr prod.case assms(2) Let_def call
    using assms(3) by simp
qed

end
