(* ===== verification/Byte_Stream.thy ===== *)
theory Byte_Stream
  imports Prelude
begin

text \<open>
  \<open>ByteStream\<close> (\<open>src/libsponge/byte_stream.hh\<close>, \<open>byte_stream.cc\<close>): the bounded
  in-order byte queue that the sender reads from, the reassembler writes to and the
  application sits at the other end of.

  The record has the class's members, one definition per method. The interface
  \<open>byte_pipe\<close> states what a client may rely on (a bounded first-in first-out queue), its
  lemmas are proved once there, and the stream is shown to provide it.
\<close>

section \<open>State and operations\<close>

record ByteStream =
  bs_end :: bool
  bs_error :: bool
  bs_cap :: u64
  bs_bytes_wrote :: u64
  bs_bytes_readed :: u64
  bs_deq :: bytes

definition ByteStream_init :: "u64 \<Rightarrow> ByteStream" where
  "ByteStream_init capacity =
     \<lparr>bs_end = False, bs_error = False, bs_cap = capacity, bs_bytes_wrote = 0,
      bs_bytes_readed = 0, bs_deq = []\<rparr>"

definition remaining_capacity :: "ByteStream \<Rightarrow> u64" where
  "remaining_capacity s = bs_cap s - sz (bs_deq s)"

text \<open>The loop that pushes \<open>data[0] \<dots> data[size - 1]\<close> at the back appends that prefix.\<close>

definition bs_write :: "ByteStream \<Rightarrow> bytes \<Rightarrow> ByteStream \<times> u64" where
  "bs_write s data =
     (let size = min (sz data) (remaining_capacity s)
      in (s\<lparr>bs_bytes_wrote := bs_bytes_wrote s + size,
            bs_deq := bs_deq s @ take (unat size) data\<rparr>, size))"

definition peek_output :: "ByteStream \<Rightarrow> u64 \<Rightarrow> bytes" where
  "peek_output s len = (let size = min len (sz (bs_deq s)) in take (unat size) (bs_deq s))"

definition pop_output :: "ByteStream \<Rightarrow> u64 \<Rightarrow> ByteStream" where
  "pop_output s len =
     (let size = min len (sz (bs_deq s))
      in s\<lparr>bs_deq := drop (unat size) (bs_deq s),
           bs_bytes_readed := bs_bytes_readed s + size\<rparr>)"

definition bs_read :: "ByteStream \<Rightarrow> u64 \<Rightarrow> ByteStream \<times> bytes" where
  "bs_read s len = (let str_readed = peek_output s len in (pop_output s len, str_readed))"

definition end_input :: "ByteStream \<Rightarrow> ByteStream" where
  "end_input s = s\<lparr>bs_end := True\<rparr>"

definition set_error :: "ByteStream \<Rightarrow> ByteStream" where
  "set_error s = s\<lparr>bs_error := True\<rparr>"

definition input_ended :: "ByteStream \<Rightarrow> bool" where
  "input_ended s = bs_end s"

definition buffer_size :: "ByteStream \<Rightarrow> u64" where
  "buffer_size s = sz (bs_deq s)"

definition buffer_empty :: "ByteStream \<Rightarrow> bool" where
  "buffer_empty s = (sz (bs_deq s) = 0)"

definition bs_eof :: "ByteStream \<Rightarrow> bool" where
  "bs_eof s = (buffer_empty s \<and> input_ended s)"

definition bytes_written :: "ByteStream \<Rightarrow> u64" where
  "bytes_written s = bs_bytes_wrote s"

definition bytes_read :: "ByteStream \<Rightarrow> u64" where
  "bytes_read s = bs_bytes_readed s"

section \<open>Invariant\<close>

text \<open>The buffer never exceeds the capacity, and the two counters differ by what is buffered.\<close>

definition bs_wf :: "ByteStream \<Rightarrow> bool" where
  "bs_wf s \<longleftrightarrow> length (bs_deq s) \<le> unat (bs_cap s) \<and>
     bs_bytes_wrote s = bs_bytes_readed s + sz (bs_deq s)"

text \<open>Free space as a number.\<close>

definition bs_room :: "ByteStream \<Rightarrow> nat" where
  "bs_room s = unat (bs_cap s) - length (bs_deq s)"

section \<open>The interface: a bounded first-in first-out queue of bytes\<close>

datatype pipe_op = Put bytes | Get u64

text \<open>Run a client's operations and log the bytes accepted and the bytes handed out.\<close>

fun pipe_run :: "('s \<Rightarrow> bytes \<Rightarrow> 's \<times> u64) \<Rightarrow> ('s \<Rightarrow> u64 \<Rightarrow> 's \<times> bytes) \<Rightarrow>
    's \<Rightarrow> pipe_op list \<Rightarrow> 's \<times> bytes \<times> bytes" where
  "pipe_run put get s [] = (s, [], [])"
| "pipe_run put get s (Put d # ops) =
     (let r = put s d; q = pipe_run put get (fst r) ops
      in (fst q, take (unat (snd r)) d @ fst (snd q), snd (snd q)))"
| "pipe_run put get s (Get k # ops) =
     (let r = get s k; q = pipe_run put get (fst r) ops
      in (fst q, fst (snd q), snd r @ snd (snd q)))"

fun pipe_op_fits :: "pipe_op \<Rightarrow> bool" where
  "pipe_op_fits (Put d) = fits d"
| "pipe_op_fits (Get k) = True"

locale byte_pipe =
  fixes ok :: "'s \<Rightarrow> bool"
    and contents :: "'s \<Rightarrow> bytes"
    and room :: "'s \<Rightarrow> nat"
    and put :: "'s \<Rightarrow> bytes \<Rightarrow> 's \<times> u64"
    and get :: "'s \<Rightarrow> u64 \<Rightarrow> 's \<times> bytes"
  assumes put_ok: "ok s \<Longrightarrow> fits d \<Longrightarrow> ok (fst (put s d))"
    and put_count: "ok s \<Longrightarrow> fits d \<Longrightarrow> unat (snd (put s d)) = min (length d) (room s)"
    and put_contents:
      "ok s \<Longrightarrow> fits d \<Longrightarrow> contents (fst (put s d)) = contents s @ take (room s) d"
    and get_ok: "ok s \<Longrightarrow> ok (fst (get s k))"
    and get_bytes: "ok s \<Longrightarrow> snd (get s k) = take (unat k) (contents s)"
    and get_contents: "ok s \<Longrightarrow> contents (fst (get s k)) = drop (unat k) (contents s)"
begin

lemma put_accepted:
  "ok s \<Longrightarrow> fits d \<Longrightarrow> contents (fst (put s d)) = contents s @ take (unat (snd (put s d))) d"
  by (simp add: put_contents put_count min_def)

lemma run_ok:
  "ok s \<Longrightarrow> list_all pipe_op_fits ops \<Longrightarrow> ok (fst (pipe_run put get s ops))"
proof (induction ops arbitrary: s)
  case (Cons x ops)
  then show ?case by (cases x) (simp_all add: Let_def put_ok get_ok)
qed simp

lemma run_fifo:
  "ok s \<Longrightarrow> list_all pipe_op_fits ops \<Longrightarrow>
    contents s @ fst (snd (pipe_run put get s ops)) =
    snd (snd (pipe_run put get s ops)) @ contents (fst (pipe_run put get s ops))"
proof (induction ops arbitrary: s)
  case (Cons x ops)
  show ?case
  proof (cases x)
    case (Put d)
    then show ?thesis
      using Cons.prems Cons.IH [of "fst (put s d)"] put_accepted [of s d] put_ok [of s d]
      by (simp add: Let_def)
  next
    case (Get k)
    have "contents s = snd (get s k) @ contents (fst (get s k))"
      using Cons.prems by (simp add: get_bytes get_contents)
    then show ?thesis
      using Get Cons.prems Cons.IH [of "fst (get s k)"] get_ok [of s k]
      by (simp add: Let_def)
  qed
qed simp

end

section \<open>The stream provides the interface\<close>

lemma bs_wf_fits: "bs_wf s \<Longrightarrow> fits (bs_deq s)"
  by (auto simp: bs_wf_def intro: fitsI)

lemma unat_remaining_capacity: "bs_wf s \<Longrightarrow> unat (remaining_capacity s) = bs_room s"
  by (simp add: remaining_capacity_def bs_room_def bs_wf_fits bs_wf_def word_nat)

lemma unat_buffer_size: "bs_wf s \<Longrightarrow> unat (buffer_size s) = length (bs_deq s)"
  by (simp add: buffer_size_def bs_wf_fits word_nat)

lemma buffer_empty_iff: "bs_wf s \<Longrightarrow> buffer_empty s \<longleftrightarrow> bs_deq s = []"
  using unat_buffer_size [of s]
  by (auto simp: buffer_empty_def buffer_size_def)

lemma buffer_size_0_iff: "bs_wf s \<Longrightarrow> buffer_size s = 0 \<longleftrightarrow> bs_deq s = []"
  using buffer_empty_iff [of s] by (simp add: buffer_empty_def buffer_size_def)

lemma peek_output_eq: "bs_wf s \<Longrightarrow> peek_output s n = take (unat n) (bs_deq s)"
  by (simp add: peek_output_def Let_def unat_min unat_sz bs_wf_fits)

lemma pop_output_deq: "bs_wf s \<Longrightarrow> bs_deq (pop_output s n) = drop (unat n) (bs_deq s)"
  by (simp add: pop_output_def Let_def unat_min unat_sz bs_wf_fits)

lemma bs_write_count:
  "bs_wf s \<Longrightarrow> fits d \<Longrightarrow> unat (snd (bs_write s d)) = min (length d) (bs_room s)"
  by (simp add: bs_write_def Let_def unat_min unat_remaining_capacity word_nat)

lemma bs_write_deq:
  "bs_wf s \<Longrightarrow> fits d \<Longrightarrow> bs_deq (fst (bs_write s d)) = bs_deq s @ take (bs_room s) d"
  by (simp add: bs_write_def Let_def unat_min unat_remaining_capacity unat_sz)

lemma bs_write_frame [simp]:
  "bs_end (fst (bs_write s d)) = bs_end s" "bs_error (fst (bs_write s d)) = bs_error s"
  "bs_cap (fst (bs_write s d)) = bs_cap s"
  "bs_bytes_readed (fst (bs_write s d)) = bs_bytes_readed s"
  "bs_bytes_wrote (fst (bs_write s d)) = bs_bytes_wrote s + snd (bs_write s d)"
  by (simp_all add: bs_write_def Let_def)

lemma pop_output_frame [simp]:
  "bs_end (pop_output s n) = bs_end s" "bs_error (pop_output s n) = bs_error s"
  "bs_cap (pop_output s n) = bs_cap s"
  "bs_bytes_wrote (pop_output s n) = bs_bytes_wrote s"
  by (simp_all add: pop_output_def Let_def)

lemma bs_read_simps [simp]:
  "fst (bs_read s n) = pop_output s n" "snd (bs_read s n) = peek_output s n"
  by (simp_all add: bs_read_def Let_def)

lemma ByteStream_init_wf [wf_intros]: "bs_wf (ByteStream_init c)"
  by (simp add: bs_wf_def ByteStream_init_def)

lemma bs_write_wf [wf_intros]:
  assumes "bs_wf s" and "fits d" shows "bs_wf (fst (bs_write s d))"
proof -
  have "sz (take (bs_room s) d) = snd (bs_write s d)"
    using bs_write_count [OF assms]
    by (metis length_take sz_def word_unat_eq_iff unat_sz fits_take assms(2) min.commute)
  then show ?thesis
    using assms bs_write_deq [OF assms]
    by (auto simp: bs_wf_def bs_room_def sz_append)
qed

lemma pop_output_wf [wf_intros]: "bs_wf s \<Longrightarrow> bs_wf (pop_output s n)"
proof -
  assume wf: "bs_wf s"
  let ?k = "min n (sz (bs_deq s))"
  have "unat ?k \<le> length (bs_deq s)"
    by (simp add: unat_min unat_sz wf bs_wf_fits)
  then have "sz (drop (unat ?k) (bs_deq s)) = sz (bs_deq s) - ?k"
    by (simp add: sz_def)
  then show ?thesis using wf by (auto simp: bs_wf_def pop_output_def Let_def)
qed

lemma end_input_wf [wf_intros]: "bs_wf s \<Longrightarrow> bs_wf (end_input s)"
  by (simp add: bs_wf_def end_input_def)

lemma set_error_wf [wf_intros]: "bs_wf s \<Longrightarrow> bs_wf (set_error s)"
  by (simp add: bs_wf_def set_error_def)

interpretation stream: byte_pipe bs_wf bs_deq bs_room bs_write bs_read
  by unfold_locales
    (simp_all add: wf_intros bs_write_count bs_write_deq peek_output_eq pop_output_deq)

lemma pipe_run_cap: "bs_cap (fst (pipe_run bs_write bs_read s ops)) = bs_cap s"
proof (induction ops arbitrary: s)
  case (Cons x ops)
  then show ?case by (cases x) (simp_all add: Let_def)
qed simp

lemmas bs_eval = bs_write_def bs_read_def pop_output_def peek_output_def remaining_capacity_def
  ByteStream_init_def end_input_def sz_def Let_def

text \<open>
  C18. A byte stream is a first-in first-out queue: after any sequence of writes and reads on
  a new stream, the bytes accepted so far are exactly the bytes read so far followed by the
  bytes still in the buffer, and the buffer stays within the capacity.
\<close>

theorem byte_stream_fifo:
  assumes "list_all pipe_op_fits ops"
    and "pipe_run bs_write bs_read (ByteStream_init c) ops = (s, accepted, delivered)"
  shows "accepted = delivered @ bs_deq s \<and> length (bs_deq s) \<le> unat c"
proof -
  have wf: "bs_wf (ByteStream_init c)" by (rule ByteStream_init_wf)
  then show ?thesis
    using stream.run_fifo [OF wf assms(1)] stream.run_ok [OF wf assms(1)] assms(2)
      pipe_run_cap [of "ByteStream_init c" ops]
    by (simp add: ByteStream_init_def bs_wf_def)
qed

theorem byte_stream_fifo_witness:
  "list_all pipe_op_fits [Put [1, 2, 3], Get 2, Put [4, 5, 6, 7]] \<and>
   (\<exists>s. pipe_run bs_write bs_read (ByteStream_init 4) [Put [1, 2, 3], Get 2, Put [4, 5, 6, 7]] =
      (s, [1, 2, 3, 4, 5, 6], [1, 2]) \<and>
      [1, 2, 3, 4, 5, 6] = [1, 2] @ bs_deq s \<and> length (bs_deq s) \<le> unat (4 :: u64))"
proof -
  let ?ops = "[Put [1, 2, 3], Get 2, Put [4, 5, 6, 7]]"
  have "\<exists>s. pipe_run bs_write bs_read (ByteStream_init 4) ?ops = (s, [1, 2, 3, 4, 5, 6], [1, 2])"
    by (simp add: bs_eval)
  moreover have "list_all pipe_op_fits ?ops" by (simp add: fits_def)
  ultimately show ?thesis using byte_stream_fifo [of ?ops 4] by blast
qed

end
