(* ===== verification/Stream_Copy.thy ===== *)
theory Stream_Copy
  imports Event_Loop Sockets Byte_Stream
begin

text \<open>
  \<open>bidirectional_stream_copy\<close> (\<open>src/apps/bidirectional_stream_copy.cc\<close>): copies the standard
  input to a socket and the socket to the standard output, with an event loop of four rules.
  The infinite loop of the function runs for a given number of rounds; the theorem holds for
  every number. The two standard descriptors are closed when the last handle goes away, after
  the loop.
\<close>

section \<open>State and rules\<close>

definition max_copy_length :: u64 where
  "max_copy_length = 65536"

definition copy_buffer_size :: u64 where
  "copy_buffer_size = 1048576"

record 'k copy_state =
  cp_kernel :: 'k
  cp_socket :: FDWrapper
  cp_input :: FDWrapper
  cp_output :: FDWrapper
  cp_outbound :: ByteStream
  cp_inbound :: ByteStream
  cp_outbound_shutdown :: bool
  cp_inbound_shutdown :: bool

definition copy_rule1_callback :: "'k os \<Rightarrow> 'k copy_state \<Rightarrow> 'k copy_state res" where
  "copy_rule1_callback os s =
     bindE (fd_read os (cp_kernel s) (cp_input s) (remaining_capacity (cp_outbound s))) (\<lambda>(k, w, data).
     let outbound = fst (bs_write (cp_outbound s) data);
         outbound = (if fd_eof w then end_input outbound else outbound)
     in Inr (s\<lparr>cp_kernel := k, cp_input := w, cp_outbound := outbound\<rparr>))"

definition copy_rule1_interest :: "'k copy_state \<Rightarrow> bool res" where
  "copy_rule1_interest s = Inr (\<not> bs_error (cp_outbound s) \<and> remaining_capacity (cp_outbound s) > 0 \<and>
     \<not> bs_error (cp_inbound s))"

definition copy_end_outbound :: "'k copy_state \<Rightarrow> 'k copy_state res" where
  "copy_end_outbound s = Inr (s\<lparr>cp_outbound := end_input (cp_outbound s)\<rparr>)"

definition copy_rule2_callback :: "'k os \<Rightarrow> 'k copy_state \<Rightarrow> 'k copy_state res" where
  "copy_rule2_callback os s =
     (let bytes_to_write = min max_copy_length (buffer_size (cp_outbound s)) in
      bindE (fd_write os (cp_kernel s) (cp_socket s)
               (bvl_of_string (peek_output (cp_outbound s) bytes_to_write)) False) (\<lambda>(k, w, bytes_written).
      let outbound = pop_output (cp_outbound s) bytes_written;
          s = s\<lparr>cp_kernel := k, cp_socket := w, cp_outbound := outbound\<rparr>
      in
      if bs_eof outbound
      then bindE (sock_shutdown os k w SHUT_WR) (\<lambda>(k, w).
             Inr (s\<lparr>cp_kernel := k, cp_socket := w, cp_outbound_shutdown := True\<rparr>))
      else Inr s))"

definition copy_rule2_interest :: "'k copy_state \<Rightarrow> bool res" where
  "copy_rule2_interest s = Inr (\<not> buffer_empty (cp_outbound s) \<or>
     bs_eof (cp_outbound s) \<and> \<not> cp_outbound_shutdown s)"

definition copy_rule3_callback :: "'k os \<Rightarrow> 'k copy_state \<Rightarrow> 'k copy_state res" where
  "copy_rule3_callback os s =
     bindE (fd_read os (cp_kernel s) (cp_socket s) (remaining_capacity (cp_inbound s))) (\<lambda>(k, w, data).
     let inbound = fst (bs_write (cp_inbound s) data);
         inbound = (if fd_eof w then end_input inbound else inbound)
     in Inr (s\<lparr>cp_kernel := k, cp_socket := w, cp_inbound := inbound\<rparr>))"

definition copy_rule3_interest :: "'k copy_state \<Rightarrow> bool res" where
  "copy_rule3_interest s = Inr (\<not> bs_error (cp_inbound s) \<and> remaining_capacity (cp_inbound s) > 0 \<and>
     \<not> bs_error (cp_outbound s))"

definition copy_end_inbound :: "'k copy_state \<Rightarrow> 'k copy_state res" where
  "copy_end_inbound s = Inr (s\<lparr>cp_inbound := end_input (cp_inbound s)\<rparr>)"

definition copy_rule4_callback :: "'k os \<Rightarrow> 'k copy_state \<Rightarrow> 'k copy_state res" where
  "copy_rule4_callback os s =
     (let bytes_to_write = min max_copy_length (buffer_size (cp_inbound s)) in
      bindE (fd_write os (cp_kernel s) (cp_output s)
               (bvl_of_string (peek_output (cp_inbound s) bytes_to_write)) False) (\<lambda>(k, w, bytes_written).
      let inbound = pop_output (cp_inbound s) bytes_written;
          s = s\<lparr>cp_kernel := k, cp_output := w, cp_inbound := inbound\<rparr>
      in
      if bs_eof inbound
      then bindE (fd_close os k w) (\<lambda>(k, w).
             Inr (s\<lparr>cp_kernel := k, cp_output := w, cp_inbound_shutdown := True\<rparr>))
      else Inr s))"

definition copy_rule4_interest :: "'k copy_state \<Rightarrow> bool res" where
  "copy_rule4_interest s = Inr (\<not> buffer_empty (cp_inbound s) \<or>
     bs_eof (cp_inbound s) \<and> \<not> cp_inbound_shutdown s)"

definition copy_rules :: "'k os \<Rightarrow> 'k copy_state Rule list" where
  "copy_rules os =
     (let rules = add_rule [] cp_input In (copy_rule1_callback os) copy_rule1_interest copy_end_outbound;
          rules = add_rule rules cp_socket Out (copy_rule2_callback os) copy_rule2_interest copy_end_outbound;
          rules = add_rule rules cp_socket In (copy_rule3_callback os) copy_rule3_interest copy_end_inbound
      in add_rule rules cp_output Out (copy_rule4_callback os) copy_rule4_interest copy_end_inbound)"

definition copy_poll :: "'k os \<Rightarrow> 'k copy_state poll" where
  "copy_poll os s fds timeout_ms =
     (let (k, r) = os_poll os (cp_kernel s) fds timeout_ms in (s\<lparr>cp_kernel := k\<rparr>, r))"

definition bidirectional_stream_copy ::
    "'k os \<Rightarrow> nat \<Rightarrow> 'k \<Rightarrow> FDWrapper \<Rightarrow> ('k copy_state \<times> 'k copy_state Rule list \<times> bool) res" where
  "bidirectional_stream_copy os rounds k socket =
     bindE (FDWrapper_init 0) (\<lambda>inp.
     bindE (FDWrapper_init 1) (\<lambda>out.
     bindE (set_blocking os k socket False) (\<lambda>k.
     bindE (set_blocking os k inp False) (\<lambda>k.
     bindE (set_blocking os k out False) (\<lambda>k.
       event_rounds (copy_poll os) (- 1) rounds (copy_rules os)
         \<lparr>cp_kernel = k, cp_socket = socket, cp_input = inp, cp_output = out,
          cp_outbound = ByteStream_init copy_buffer_size, cp_inbound = ByteStream_init copy_buffer_size,
          cp_outbound_shutdown = False, cp_inbound_shutdown = False\<rparr>)))))"

section \<open>Invariant\<close>

text \<open>Every byte read so far was written to the other side, in order, or is still buffered.\<close>

definition copy_inv :: "'k os \<Rightarrow> ('k \<Rightarrow> int \<Rightarrow> bytes) \<Rightarrow> ('k \<Rightarrow> int \<Rightarrow> bytes) \<Rightarrow> int \<Rightarrow> 'k copy_state \<Rightarrow> bool" where
  "copy_inv os inp out fd s \<longleftrightarrow> stream_kernel os inp out \<and> fd \<noteq> 0 \<and> fd \<noteq> 1 \<and>
     fd_num (cp_socket s) = fd \<and> fd_num (cp_input s) = 0 \<and> fd_num (cp_output s) = 1 \<and>
     bs_wf (cp_outbound s) \<and> bs_wf (cp_inbound s) \<and>
     inp (cp_kernel s) 0 = out (cp_kernel s) fd @ bs_deq (cp_outbound s) \<and>
     inp (cp_kernel s) fd = out (cp_kernel s) 1 @ bs_deq (cp_inbound s)"

lemma stream_in:
  assumes "stream_kernel os inp out" "bs_wf b" "fd_read os k w (remaining_capacity b) = Inr (k', w', str)"
  shows "fd_num w' = fd_num w" "out k' = out k" "inp k' = (inp k)(fd_num w := inp k (fd_num w) @ str)"
    "bs_wf (fst (bs_write b str))" "bs_deq (fst (bs_write b str)) = bs_deq b @ str"
proof -
  note r = stream_fd_read [OF assms(1,3)]
  show "fd_num w' = fd_num w" "out k' = out k" "inp k' = (inp k)(fd_num w := inp k (fd_num w) @ str)" using r by auto
  have f: "fits str" using r(3) by (simp add: fits_def)
  then show "bs_wf (fst (bs_write b str))" using assms(2) by (intro bs_write_wf)
  have "length str \<le> bs_room b" using r(2) assms(2) by (simp add: unat_remaining_capacity)
  then show "bs_deq (fst (bs_write b str)) = bs_deq b @ str" using f assms(2) by (simp add: bs_write_deq)
qed

lemma stream_out:
  assumes "stream_kernel os inp out" "bs_wf b"
    and "fd_write os k w (bvl_of_string (peek_output b (min 65536 (buffer_size b)))) False = Inr (k', w', n)"
  shows "fd_num w' = fd_num w" "inp k' = inp k" "bs_wf (pop_output b n)"
    "\<exists>d. out k' = (out k)(fd_num w := out k (fd_num w) @ d) \<and> bs_deq b = d @ bs_deq (pop_output b n)"
proof -
  let ?p = "peek_output b (min 65536 (buffer_size b))"
  have c: "concat (bvl_of_string ?p) = ?p" by (simp add: bvl_of_string_def)
  have p: "?p = take (min 65536 (length (bs_deq b))) (bs_deq b)"
    using assms(2) by (simp add: peek_output_eq unat_min unat_buffer_size)
  then have "length (concat (bvl_of_string ?p)) < 9223372036854775808" unfolding c by simp
  note w = stream_fd_write [OF assms(1) this assms(3)]
  show "fd_num w' = fd_num w" "inp k' = inp k" using w by auto
  show "bs_wf (pop_output b n)" using assms(2) by (intro pop_output_wf)
  have "bs_deq b = take (unat n) ?p @ bs_deq (pop_output b n)"
    using w(2) [unfolded c, unfolded p] assms(2) unfolding p
    by (auto simp: pop_output_deq min_def split: if_splits)
  then show "\<exists>d. out k' = (out k)(fd_num w := out k (fd_num w) @ d) \<and> bs_deq b = d @ bs_deq (pop_output b n)"
    using w(4) unfolding c by blast
qed

lemma end_input_deq [simp]: "bs_deq (end_input b) = bs_deq b"
  by (simp add: end_input_def)

lemma copy_rule1_keeps:
  assumes "copy_inv os inp out fd s" "copy_rule1_callback os s = Inr s'"
  shows "copy_inv os inp out fd s'"
proof -
  obtain k w str where r: "fd_read os (cp_kernel s) (cp_input s) (remaining_capacity (cp_outbound s)) = Inr (k, w, str)"
      "s' = s\<lparr>cp_kernel := k, cp_input := w, cp_outbound :=
        (if fd_eof w then end_input (fst (bs_write (cp_outbound s) str)) else fst (bs_write (cp_outbound s) str))\<rparr>"
    using assms(2) by (auto simp: copy_rule1_callback_def bindE_eq_Inr Let_def)
  then show ?thesis
    using assms(1) stream_in [OF _ _ r(1), of inp out] by (auto simp: copy_inv_def end_input_wf)
qed

lemma copy_rule3_keeps:
  assumes "copy_inv os inp out fd s" "copy_rule3_callback os s = Inr s'"
  shows "copy_inv os inp out fd s'"
proof -
  obtain k w str where r: "fd_read os (cp_kernel s) (cp_socket s) (remaining_capacity (cp_inbound s)) = Inr (k, w, str)"
      "s' = s\<lparr>cp_kernel := k, cp_socket := w, cp_inbound :=
        (if fd_eof w then end_input (fst (bs_write (cp_inbound s) str)) else fst (bs_write (cp_inbound s) str))\<rparr>"
    using assms(2) by (auto simp: copy_rule3_callback_def bindE_eq_Inr Let_def)
  then show ?thesis
    using assms(1) stream_in [OF _ _ r(1), of inp out] by (auto simp: copy_inv_def end_input_wf)
qed

lemma copy_rule2_keeps:
  assumes "copy_inv os inp out fd s" "copy_rule2_callback os s = Inr s'"
  shows "copy_inv os inp out fd s'"
proof -
  have inv: "stream_kernel os inp out" "bs_wf (cp_outbound s)" using assms(1) by (auto simp: copy_inv_def)
  note cb = assms(2) [unfolded copy_rule2_callback_def max_copy_length_def Let_def]
  obtain k w n where r: "fd_write os (cp_kernel s) (cp_socket s) (bvl_of_string
        (peek_output (cp_outbound s) (min 65536 (buffer_size (cp_outbound s))))) False = Inr (k, w, n)"
    using cb by (auto simp: bindE_eq_Inr)
  note w = stream_out [OF inv r]
  let ?s = "s\<lparr>cp_kernel := k, cp_socket := w, cp_outbound := pop_output (cp_outbound s) n\<rparr>"
  have step: "copy_inv os inp out fd ?s" using assms(1) w by (auto simp: copy_inv_def)
  show ?thesis
  proof (cases "bs_eof (pop_output (cp_outbound s) n)")
    case True
    then obtain k1 w1 where "sock_shutdown os k w SHUT_WR = Inr (k1, w1)"
        "s' = ?s\<lparr>cp_kernel := k1, cp_socket := w1, cp_outbound_shutdown := True\<rparr>"
      using cb r by (auto simp: bindE_eq_Inr)
    then show ?thesis using step stream_shutdown [OF inv(1), of k w SHUT_WR k1 w1] by (simp add: copy_inv_def)
  qed (use cb r step in simp)
qed

lemma copy_rule4_keeps:
  assumes "copy_inv os inp out fd s" "copy_rule4_callback os s = Inr s'"
  shows "copy_inv os inp out fd s'"
proof -
  have inv: "stream_kernel os inp out" "bs_wf (cp_inbound s)" using assms(1) by (auto simp: copy_inv_def)
  note cb = assms(2) [unfolded copy_rule4_callback_def max_copy_length_def Let_def]
  obtain k w n where r: "fd_write os (cp_kernel s) (cp_output s) (bvl_of_string
        (peek_output (cp_inbound s) (min 65536 (buffer_size (cp_inbound s))))) False = Inr (k, w, n)"
    using cb by (auto simp: bindE_eq_Inr)
  note w = stream_out [OF inv r]
  let ?s = "s\<lparr>cp_kernel := k, cp_output := w, cp_inbound := pop_output (cp_inbound s) n\<rparr>"
  have step: "copy_inv os inp out fd ?s" using assms(1) w by (auto simp: copy_inv_def)
  show ?thesis
  proof (cases "bs_eof (pop_output (cp_inbound s) n)")
    case True
    then obtain k1 w1 where "fd_close os k w = Inr (k1, w1)"
        "s' = ?s\<lparr>cp_kernel := k1, cp_output := w1, cp_inbound_shutdown := True\<rparr>"
      using cb r by (auto simp: bindE_eq_Inr)
    then show ?thesis using step stream_close [OF inv(1), of k w k1 w1] by (simp add: copy_inv_def)
  qed (use cb r step in simp)
qed

lemma copy_cancel_keeps:
  "copy_inv os inp out fd s \<Longrightarrow> copy_end_outbound s = Inr s' \<Longrightarrow> copy_inv os inp out fd s'"
  "copy_inv os inp out fd s \<Longrightarrow> copy_end_inbound s = Inr s' \<Longrightarrow> copy_inv os inp out fd s'"
  by (auto simp: copy_inv_def copy_end_outbound_def copy_end_inbound_def end_input_wf)

interpretation copying: loop_client "copy_inv os inp out fd" "copy_rules os" "copy_poll os" for os inp out fd
proof (unfold_locales, goal_cases)
  case (1 rule s s')
  then show ?case
    using copy_rule1_keeps copy_rule2_keeps copy_rule3_keeps copy_rule4_keeps
    by (auto simp: copy_rules_def add_rule_def Let_def)
next
  case (2 rule s s')
  then show ?case using copy_cancel_keeps by (auto simp: copy_rules_def add_rule_def Let_def)
next
  case (3 s fds t s' r)
  then show ?case
    using stream_kernel_frame(4) [of os inp out "cp_kernel s" fds t]
    by (auto simp: copy_poll_def copy_inv_def split: prod.splits)
qed

section \<open>Properties\<close>

text \<open>
  C31. The copy program loses, invents and reorders nothing: whatever the kernel reports and
  however it splits reads and writes, after any number of rounds of the event loop the bytes
  read from the standard input are the bytes written to the socket followed by those still
  buffered, and the bytes read from the socket are those written to the standard output
  followed by those still buffered. Rules are only ever removed.
\<close>

theorem stream_copy_faithful:
  assumes "stream_kernel os inp out" "fd_num socket \<noteq> 0" "fd_num socket \<noteq> 1"
    and "inp k = (\<lambda>fd. [])" "out k = (\<lambda>fd. [])"
    and "bidirectional_stream_copy os rounds k socket = Inr (s, rules, finished)"
  shows "inp (cp_kernel s) 0 = out (cp_kernel s) (fd_num socket) @ bs_deq (cp_outbound s) \<and>
    inp (cp_kernel s) (fd_num socket) = out (cp_kernel s) 1 @ bs_deq (cp_inbound s) \<and>
    subseq rules (copy_rules os)"
proof -
  obtain i o' k1 k2 k3 where c: "FDWrapper_init 0 = Inr i" "FDWrapper_init 1 = Inr o'"
      "set_blocking os k socket False = Inr k1" "set_blocking os k1 i False = Inr k2"
      "set_blocking os k2 o' False = Inr k3"
    and r: "event_rounds (copy_poll os) (- 1) rounds (copy_rules os)
        \<lparr>cp_kernel = k3, cp_socket = socket, cp_input = i, cp_output = o',
          cp_outbound = ByteStream_init copy_buffer_size, cp_inbound = ByteStream_init copy_buffer_size,
          cp_outbound_shutdown = False, cp_inbound_shutdown = False\<rparr> = Inr (s, rules, finished)"
    using assms(6) by (auto simp: bidirectional_stream_copy_def bindE_eq_Inr)
  have "inp k3 = (\<lambda>fd. [])" "out k3 = (\<lambda>fd. [])"
    using assms(4,5) c(3-5) stream_set_blocking [OF assms(1)] by metis+
  moreover have "fd_num i = 0" "fd_num o' = 1" using c(1,2) by (auto simp: FDWrapper_init_def)
  ultimately have "copy_inv os inp out (fd_num socket) s \<and> subseq rules (copy_rules os)"
    using assms(1-3)
    by (intro copying.rounds_keep [OF _ _ r]) (auto simp: copy_inv_def ByteStream_init_wf, simp_all add: ByteStream_init_def)
  then show ?thesis by (auto simp: copy_inv_def)
qed

text \<open>A kernel where everything is ready at once: the state is what can still be read from each
  descriptor, what was read and what was written.\<close>

definition ready_os :: "((int \<Rightarrow> bytes) \<times> (int \<Rightarrow> bytes) \<times> (int \<Rightarrow> bytes)) os" where
  "ready_os = \<lparr>os_read = \<lambda>(p, i, w) fd n. let m = (if 2 \<le> n then 2 else unat n); d = take m (p fd) in
       ((p(fd := drop m (p fd)), i(fd := i fd @ d), w), (int (length d), 0), d),
     os_writev = \<lambda>(p, i, w) fd iov. let d = take 2 (concat (map fst iov)) in
       ((p, i, w(fd := w fd @ d)), (int (length d), 0)),
     os_close = \<lambda>k fd. (k, (0, 0)), os_getfl = \<lambda>k fd. (k, (0, 0)), os_setfl = \<lambda>k fd fl. (k, (0, 0)),
     os_poll = \<lambda>k fds t. (k, (int (length fds), 0), map snd fds), os_socket = \<lambda>k d t. (k, (- 1, 5)),
     os_getsockopt = \<lambda>k fd o'. (k, (- 1, 5), 0, 0), os_setsockopt = \<lambda>k fd l o'. (k, (- 1, 5)),
     os_getname = \<lambda>k p fd. (k, (- 1, 5), [], 0), os_bind = \<lambda>k fd a n. (k, (- 1, 5)),
     os_connect = \<lambda>k fd a n. (k, (- 1, 5)), os_shutdown = \<lambda>k fd h. (k, (0, 0)),
     os_recvfrom = \<lambda>k fd n. (k, (- 1, 5), [], [], 0), os_sendmsg = \<lambda>k fd a n iov. (k, (- 1, 5)),
     os_listen = \<lambda>k fd b. (k, (- 1, 5)), os_accept = \<lambda>k fd. (k, (- 1, 5)),
     os_open = \<lambda>k p. (k, (- 1, 5)), os_ioctl = \<lambda>k fd f n. (k, (- 1, 5)),
     os_socketpair = \<lambda>k d t. (k, (- 1, 5), 0, 0), os_clock = \<lambda>k. (k, 0)\<rparr>"

lemma ready_os_ok: "stream_kernel ready_os (\<lambda>k. fst (snd k)) (\<lambda>k. snd (snd k))"
  unfolding stream_kernel_def ready_os_def by (auto simp: Let_def fun_eq_iff word_le_nat_alt)

definition ready_start :: "(int \<Rightarrow> bytes) \<times> (int \<Rightarrow> bytes) \<times> (int \<Rightarrow> bytes)" where
  "ready_start = ((\<lambda>fd. if fd = 0 then [1, 2, 3] else if fd = 5 then [9] else []), (\<lambda>fd. []), (\<lambda>fd. []))"

definition ready_socket :: FDWrapper where
  "ready_socket = \<lparr>fd_num = 5, fd_eof = False, fd_closed = False, fd_read_count = 0, fd_write_count = 0\<rparr>"

lemma ready_run: "case bidirectional_stream_copy ready_os 4 ready_start ready_socket of Inl e \<Rightarrow> False
  | Inr (s, rules, finished) \<Rightarrow> finished \<and> bs_deq (cp_outbound s) = [] \<and> bs_deq (cp_inbound s) = [] \<and>
     fst (snd (cp_kernel s)) 0 = [1, 2, 3] \<and> fst (snd (cp_kernel s)) 5 = [9]"
  by code_simp

theorem stream_copy_faithful_witness:
  "\<exists>s rules. bidirectional_stream_copy ready_os 4 ready_start ready_socket = Inr (s, rules, True) \<and>
     snd (snd (cp_kernel s)) 5 = [1, 2, 3] \<and> snd (snd (cp_kernel s)) 1 = [9] \<and> subseq rules (copy_rules ready_os)"
proof -
  obtain s rules where r: "bidirectional_stream_copy ready_os 4 ready_start ready_socket = Inr (s, rules, True)"
      "bs_deq (cp_outbound s) = []" "bs_deq (cp_inbound s) = []"
      "fst (snd (cp_kernel s)) 0 = [1, 2, 3]" "fst (snd (cp_kernel s)) 5 = [9]"
    using ready_run by (auto split: sum.splits)
  have "fd_num ready_socket = 5" "fst (snd ready_start) = (\<lambda>fd. [])" "snd (snd ready_start) = (\<lambda>fd. [])"
    by (simp_all add: ready_socket_def ready_start_def)
  then show ?thesis using stream_copy_faithful [OF ready_os_ok _ _ _ _ r(1)] r by simp
qed

end
