(* ===== verification/Stream_Reassembler.thy ===== *)
theory Stream_Reassembler
  imports Byte_Stream
begin

text \<open>
  \<open>StreamReassembler\<close> (\<open>src/libsponge/stream_reassembler.hh\<close>, \<open>stream_reassembler.cc\<close>):
  substrings of a byte stream arrive in any order; they are kept in a ring of
  \<open>_capacity\<close> bytes with one "empty" flag per slot, and every contiguous run from the
  first unassembled byte on is moved to the output stream.

  The definitions keep the code's arithmetic on 64-bit words and its calls on
  \<open>std::string\<close> and \<open>std::vector<bool>\<close>, whose failures are values. The lemmas give the
  ring its meaning through a ghost stream \<open>f\<close>: a slot that is not empty holds the byte of
  the one index of the current window that is congruent to it.
\<close>

section \<open>State and operations\<close>

record StreamReassembler =
  sr_aux :: bytes
  sr_output :: ByteStream
  sr_capacity :: u64
  sr_start_aux :: u64
  sr_empty :: "bool list"
  sr_bytes_unass :: u64
  sr_end_stream :: u64
  sr_eof_seen :: bool

definition StreamReassembler_init :: "u64 \<Rightarrow> StreamReassembler" where
  "StreamReassembler_init capacity =
     \<lparr>sr_aux = replicate (unat capacity) 32, sr_output = ByteStream_init capacity,
      sr_capacity = capacity, sr_start_aux = 0, sr_empty = replicate (unat capacity) True,
      sr_bytes_unass = 0, sr_end_stream = - 1, sr_eof_seen = False\<rparr>"

text \<open>The copy into the ring, first the case in which it does not pass the end of the ring.\<close>

definition copy_straight ::
    "StreamReassembler \<Rightarrow> bytes \<Rightarrow> u64 \<Rightarrow> u64 \<Rightarrow> u64 \<Rightarrow> StreamReassembler res" where
  "copy_straight s data loc_data loc_aux len =
     bindE (vec_count (sr_empty s) (unat loc_aux) (unat loc_aux + unat len)) (\<lambda>count_empty.
     bindE (str_substr data loc_data len) (\<lambda>piece.
     bindE (str_replace (sr_aux s) loc_aux len piece) (\<lambda>aux.
     bindE (vec_fill (sr_empty s) (unat loc_aux) (unat loc_aux + unat len) False) (\<lambda>empty.
       Inr (s\<lparr>sr_aux := aux, sr_bytes_unass := sr_bytes_unass s + count_empty,
              sr_empty := empty\<rparr>)))))"

text \<open>The copy that wraps around. The second \<open>substr\<close> starts at \<open>size_right\<close> and asks for
  \<open>size\<close> characters, as the code has it.\<close>

definition copy_wrapping ::
    "StreamReassembler \<Rightarrow> bytes \<Rightarrow> u64 \<Rightarrow> u64 \<Rightarrow> u64 \<Rightarrow> StreamReassembler res" where
  "copy_wrapping s data loc_data loc_aux len =
     (let size_left = loc_aux + len - sr_capacity s;
          size_right = sr_capacity s - loc_aux
      in
     bindE (vec_count (sr_empty s) (unat loc_aux) (length (sr_empty s))) (\<lambda>count_right.
     bindE (vec_count (sr_empty s) 0 (unat size_left)) (\<lambda>count_left.
     bindE (str_substr data loc_data size_right) (\<lambda>piece_right.
     bindE (str_replace (sr_aux s) loc_aux size_right piece_right) (\<lambda>aux1.
     bindE (str_substr data size_right len) (\<lambda>piece_left.
     bindE (str_replace aux1 0 size_left piece_left) (\<lambda>aux2.
     bindE (vec_fill (sr_empty s) (unat loc_aux) (length (sr_empty s)) False) (\<lambda>empty1.
     bindE (vec_fill empty1 0 (unat size_left) False) (\<lambda>empty2.
       Inr (s\<lparr>sr_aux := aux2, sr_bytes_unass := sr_bytes_unass s + (count_right + count_left),
              sr_empty := empty2\<rparr>))))))))))"

definition write_to_aux ::
    "StreamReassembler \<Rightarrow> bytes \<Rightarrow> u64 \<Rightarrow> bool \<Rightarrow> StreamReassembler res" where
  "write_to_aux s data start_data eof =
     (if sz data = 0 then
        Inr (if eof then s\<lparr>sr_output := end_input (sr_output s)\<rparr> else s)
      else
        let end_aux = sr_start_aux s + sr_capacity s;
            end_data = start_data + sz data
        in
        if start_data > end_aux \<or> end_data < sr_start_aux s then Inr s
        else
          let start_copy = max (sr_start_aux s) start_data;
              end_copy = min end_aux end_data;
              size = end_copy - start_copy;
              loc_data = start_copy - start_data
          in
          if sr_capacity s = 0 then Inl Undefined_Behaviour
          else
            let loc_aux = start_copy mod sr_capacity s in
            bindE (if loc_aux + size \<le> sr_capacity s
                   then copy_straight s data loc_data loc_aux size
                   else copy_wrapping s data loc_data loc_aux size)
              (\<lambda>s'. Inr (if eof then s'\<lparr>sr_end_stream := end_data\<rparr> else s')))"

text \<open>One of the two halves of \<open>write_to_bytestream\<close>: hand the run \<open>[first, first + len)\<close> of
  the ring to the output and account for what it took.\<close>

definition emit_run :: "StreamReassembler \<Rightarrow> u64 \<Rightarrow> nat \<Rightarrow> (StreamReassembler \<times> u64) res" where
  "emit_run s first len =
     bindE (str_substr (sr_aux s) first (word_of_nat len)) (\<lambda>piece.
       let w = bs_write (sr_output s) piece in
       Inr (s\<lparr>sr_output := fst w, sr_start_aux := sr_start_aux s + snd w,
              sr_bytes_unass := sr_bytes_unass s - snd w\<rparr>, snd w))"

definition write_to_bytestream :: "StreamReassembler \<Rightarrow> StreamReassembler res" where
  "write_to_bytestream s =
     (if sr_capacity s = 0 then Inl Undefined_Behaviour
      else
        let start = sr_start_aux s mod sr_capacity s;
            it_start = unat start;
            size = find_true (drop it_start (sr_empty s));
            it_end = it_start + size
        in
        bindE (emit_run s start size) (\<lambda>(s1, num_wrote).
        bindE (vec_fill (sr_empty s1) it_start (it_start + unat num_wrote) True) (\<lambda>empty1.
          let s2 = s1\<lparr>sr_empty := empty1\<rparr> in
          if it_end = length (sr_empty s) then
            let size2 = find_true (take it_start (sr_empty s2)) in
            bindE (emit_run s2 0 size2) (\<lambda>(s3, num_wrote2).
            bindE (vec_fill (sr_empty s3) 0 it_start True) (\<lambda>empty2.
              Inr (s3\<lparr>sr_empty := empty2\<rparr>)))
          else Inr s2)))"

definition push_substring ::
    "StreamReassembler \<Rightarrow> bytes \<Rightarrow> u64 \<Rightarrow> bool \<Rightarrow> StreamReassembler res" where
  "push_substring s data index eof =
     bindE (write_to_aux s data index eof) (\<lambda>s1.
     bindE (write_to_bytestream s1) (\<lambda>s2.
       let s3 = (if \<not> sr_eof_seen s2 then s2\<lparr>sr_eof_seen := eof\<rparr> else s2)
       in Inr (if sr_start_aux s3 = sr_end_stream s3
               then s3\<lparr>sr_output := end_input (sr_output s3)\<rparr> else s3)))"

definition unassembled_bytes :: "StreamReassembler \<Rightarrow> u64" where
  "unassembled_bytes s = sr_bytes_unass s"

definition sr_is_empty :: "StreamReassembler \<Rightarrow> bool" where
  "sr_is_empty s = (unassembled_bytes s = 0)"

section \<open>Well-formedness\<close>

definition sr_wf :: "StreamReassembler \<Rightarrow> bool" where
  "sr_wf s \<longleftrightarrow> 0 < unat (sr_capacity s) \<and> unat (sr_capacity s) < 9223372036854775808 \<and>
     length (sr_empty s) = unat (sr_capacity s) \<and>
     unat (sr_capacity s) \<le> length (sr_aux s) \<and> bs_wf (sr_output s) \<and>
     bs_cap (sr_output s) = sr_capacity s \<and> bs_bytes_wrote (sr_output s) = sr_start_aux s"

text \<open>The 64-bit index space is not exhausted: the window ends below \<open>2 ^ 64\<close>, and so does the
  substring unless it starts past the window.\<close>

definition push_ok :: "StreamReassembler \<Rightarrow> bytes \<Rightarrow> u64 \<Rightarrow> bool" where
  "push_ok s data index \<longleftrightarrow> fits data \<and>
     unat (sr_start_aux s) + unat (sr_capacity s) < 18446744073709551616 \<and>
     (unat index + length data < 18446744073709551616 \<or>
      unat (sr_start_aux s) + unat (sr_capacity s) < unat index)"

text \<open>The part of a substring that falls into the window.\<close>

definition copy_lo :: "StreamReassembler \<Rightarrow> u64 \<Rightarrow> nat" where
  "copy_lo s index = max (unat (sr_start_aux s)) (unat index)"

definition copy_hi :: "StreamReassembler \<Rightarrow> bytes \<Rightarrow> u64 \<Rightarrow> nat" where
  "copy_hi s data index =
     min (unat (sr_start_aux s) + unat (sr_capacity s)) (unat index + length data)"

definition misses :: "StreamReassembler \<Rightarrow> bytes \<Rightarrow> u64 \<Rightarrow> bool" where
  "misses s data index \<longleftrightarrow> data = [] \<or>
     unat (sr_start_aux s) + unat (sr_capacity s) < unat index \<or>
     unat index + length data < unat (sr_start_aux s)"

text \<open>The copies the code gets right: those that stay within the ring, and those that wrap
  around but take the whole substring.\<close>

definition clean_copy :: "StreamReassembler \<Rightarrow> bytes \<Rightarrow> u64 \<Rightarrow> bool" where
  "clean_copy s data index \<longleftrightarrow> misses s data index \<or>
     copy_lo s index mod unat (sr_capacity s) + (copy_hi s data index - copy_lo s index)
       \<le> unat (sr_capacity s) \<or>
     unat (sr_start_aux s) \<le> unat index \<and>
     unat index + length data \<le> unat (sr_start_aux s) + unat (sr_capacity s)"

section \<open>The copy into the ring\<close>

lemma copy_straight_eq:
  assumes "unat la + unat len \<le> length (sr_empty s)" "length (sr_empty s) \<le> length (sr_aux s)"
    and "unat ld + unat len \<le> length data"
  shows "copy_straight s data ld la len = Inr (s\<lparr>
    sr_aux := take (unat la) (sr_aux s) @ take (unat len) (drop (unat ld) data) @
      drop (unat la + unat len) (sr_aux s),
    sr_bytes_unass := sr_bytes_unass s + word_of_nat (length (filter id
      (take (unat len) (drop (unat la) (sr_empty s))))),
    sr_empty := take (unat la) (sr_empty s) @ replicate (unat len) False @
      drop (unat la + unat len) (sr_empty s)\<rparr>)"
  using assms
  by (simp add: copy_straight_def vec_count_def str_substr_def str_replace_def vec_fill_def)

lemma copy_wrapping_eq:
  fixes s :: StreamReassembler and la len :: u64
  defines "C \<equiv> unat (sr_capacity s)"
  defines "right \<equiv> C - unat la" and "left \<equiv> unat la + unat len - C"
  assumes la: "unat la < C" and len: "unat len \<le> C" and over: "C < unat la + unat len"
    and lens: "length (sr_empty s) = C" "C \<le> length (sr_aux s)"
    and data: "unat ld + unat len \<le> length data"
    and cap: "2 * C < 18446744073709551616"
  shows "copy_wrapping s data ld la len = Inr (s\<lparr>
    sr_aux := take (unat len) (drop right data) @
      drop left (take (unat la) (sr_aux s) @ take right (drop (unat ld) data) @ drop C (sr_aux s)),
    sr_bytes_unass := sr_bytes_unass s +
      (word_of_nat (length (filter id (drop (unat la) (sr_empty s)))) +
       word_of_nat (length (filter id (take left (sr_empty s))))),
    sr_empty := replicate left False @ drop left (take (unat la) (sr_empty s)) @
      replicate right False\<rparr>)"
proof -
  have right: "unat (sr_capacity s - la) = right"
    using la by (simp add: word_nat right_def C_def)
  have left: "unat (la + len - sr_capacity s) = left"
    using la len over cap by (simp add: word_nat left_def C_def)
  have "left \<le> unat la" "right \<le> length data" "right + left = unat len"
    using la len over data by (auto simp: left_def right_def)
  then show ?thesis
    using la lens data over
    by (simp add: copy_wrapping_def Let_def right left vec_count_def str_substr_def
        str_replace_def vec_fill_def right_def C_def [symmetric])
qed

lemma write_to_aux_misses:
  assumes "sr_wf s" "push_ok s data index" "misses s data index"
  shows "write_to_aux s data index eof =
    Inr (if data = [] \<and> eof then s\<lparr>sr_output := end_input (sr_output s)\<rparr> else s)"
proof -
  have end_aux: "unat (sr_start_aux s + sr_capacity s) =
      unat (sr_start_aux s) + unat (sr_capacity s)"
    using assms(2) by (simp add: push_ok_def word_nat)
  have nil: "sz data = 0 \<longleftrightarrow> data = []"
    using assms(2) unat_sz [of data] by (auto simp: push_ok_def)
  have end_data: "unat (index + sz data) = unat index + length data"
    if "\<not> unat (sr_start_aux s) + unat (sr_capacity s) < unat index"
    using that assms(2) by (simp add: push_ok_def word_nat)
  show ?thesis
    using assms(3) end_aux end_data
    by (auto simp: write_to_aux_def nil Let_def misses_def word_less_nat_alt)
qed

lemma write_to_aux_hits:
  fixes s :: StreamReassembler and data :: bytes and index :: u64
  defines "C \<equiv> unat (sr_capacity s)" and "lo \<equiv> copy_lo s index" and "hi \<equiv> copy_hi s data index"
  assumes wf: "sr_wf s" and ok: "push_ok s data index" and hit: "\<not> misses s data index"
  shows "write_to_aux s data index eof =
    bindE (if lo mod C + (hi - lo) \<le> C
           then copy_straight s data (word_of_nat (lo - unat index)) (word_of_nat (lo mod C))
                  (word_of_nat (hi - lo))
           else copy_wrapping s data (word_of_nat (lo - unat index)) (word_of_nat (lo mod C))
                  (word_of_nat (hi - lo)))
      (\<lambda>s'. Inr (if eof then s'\<lparr>sr_end_stream := index + sz data\<rparr> else s'))"
proof -
  let ?S = "unat (sr_start_aux s)" and ?X = "unat index"
  have C: "0 < C" "C < 9223372036854775808" "?S + C < 18446744073709551616"
    using wf ok by (simp_all add: sr_wf_def push_ok_def C_def)
  have X: "?X \<le> ?S + C" "?S \<le> ?X + length data" "?X + length data < 18446744073709551616"
      and ne: "sz data \<noteq> 0"
    using hit ok unat_sz [of data] by (auto simp: misses_def push_ok_def C_def)
  have fits: "fits data" using ok by (simp add: push_ok_def)
  have end_aux: "unat (sr_start_aux s + sr_capacity s) = ?S + C"
    using C by (simp add: C_def word_nat)
  have end_data: "unat (index + sz data) = ?X + length data"
    using X fits by (simp add: word_nat)
  have lo: "unat (max (sr_start_aux s) index) = lo"
    by (simp add: unat_max lo_def copy_lo_def)
  have hi: "unat (min (sr_start_aux s + sr_capacity s) (index + sz data)) = hi"
    by (simp add: unat_min end_aux end_data hi_def copy_hi_def C_def)
  have le: "lo \<le> hi" "?X \<le> lo" "hi \<le> ?S + C" "hi - lo \<le> C" "lo < 18446744073709551616"
    using X C by (auto simp: lo_def hi_def copy_lo_def copy_hi_def C_def)
  have len: "min (sr_start_aux s + sr_capacity s) (index + sz data) -
      max (sr_start_aux s) index = word_of_nat (hi - lo)"
    using le C by (simp add: word_unat_eq_iff word_nat lo hi)
  have ld: "max (sr_start_aux s) index - index = word_of_nat (lo - ?X)"
    using le by (simp add: word_unat_eq_iff word_nat lo)
  have la: "max (sr_start_aux s) index mod sr_capacity s = word_of_nat (lo mod C)"
    using le C less_trans [OF mod_less_divisor [of C lo]]
    by (simp add: word_unat_eq_iff word_nat unat_mod lo C_def)
  have "unat (word_of_nat (lo mod C) + word_of_nat n :: u64) = lo mod C + n" if "n \<le> C" for n
  proof -
    have "lo mod C < C" using C by simp
    then have "lo mod C + n < 18446744073709551616" using that C by linarith
    then show ?thesis using unat_u64_of_nat [of "lo mod C + n"] by simp
  qed
  from this [OF le(4)] have cond: "(word_of_nat (lo mod C) + word_of_nat (hi - lo) \<le> sr_capacity s) \<longleftrightarrow>
      lo mod C + (hi - lo) \<le> C"
    by (simp add: word_le_nat_alt C_def)
  have "\<not> (sr_start_aux s + sr_capacity s < index \<or> index + sz data < sr_start_aux s)"
    "sr_capacity s \<noteq> 0"
    using X C by (auto simp: word_less_nat_alt end_aux end_data C_def)
  then show ?thesis
    unfolding write_to_aux_def Let_def len ld la cond using ne by simp
qed

section \<open>What the ring holds\<close>

lemma splice_nth:
  assumes "length ys = n" "a + n \<le> length xs" "j < length xs"
  shows "(take a xs @ ys @ drop (a + n) xs) ! j =
    (if j < a then xs ! j else if j < a + n then ys ! (j - a) else xs ! j)"
  using assms by (auto simp: nth_append)

lemma wrap_splice_nth:
  assumes "length ys = b" "length zs = c - a" "b \<le> a" "a < c" "c \<le> length xs" "j < c"
  shows "(ys @ drop b (take a xs @ zs @ ws)) ! j =
    (if j < b then ys ! j else if j < a then xs ! j else zs ! (j - a))"
  using assms by (auto simp: nth_append)

lemma mod_add_low: "(a :: nat) mod c + d < c \<Longrightarrow> (a + d) mod c = a mod c + d"
  by (metis mod_add_left_eq mod_less)

lemma mod_add_high:
  assumes "(c :: nat) \<le> a mod c + d" "a mod c + d < 2 * c"
  shows "(a + d) mod c = a mod c + d - c"
proof -
  have "(a + d) mod c = (a mod c + d) mod c" by (simp add: mod_add_left_eq)
  also have "\<dots> = (a mod c + d - c) mod c" using assms(1) by (simp add: le_mod_geq)
  finally show ?thesis using assms by simp
qed

text \<open>Two indices of one window that share a slot are equal.\<close>

lemma window_slot_inj:
  "S \<le> i \<Longrightarrow> i < S + c \<Longrightarrow> S \<le> j \<Longrightarrow> j < S + c \<Longrightarrow> i mod c = j mod c \<Longrightarrow> i = (j :: nat)"
  using mod_eq_apart [of i c j] by linarith

text \<open>The slots from the first index of the copy on, up to the end, take the new bytes.\<close>

definition ring_update :: "StreamReassembler \<Rightarrow> StreamReassembler \<Rightarrow> bytes \<Rightarrow> u64 \<Rightarrow> bool" where
  "ring_update s s' data index \<longleftrightarrow>
     (\<forall>i. copy_lo s index \<le> i \<and> i < copy_hi s data index \<longrightarrow>
        \<not> sr_empty s' ! (i mod unat (sr_capacity s)) \<and>
        sr_aux s' ! (i mod unat (sr_capacity s)) = data ! (i - unat index)) \<and>
     (\<forall>j < unat (sr_capacity s).
        (\<forall>i. copy_lo s index \<le> i \<and> i < copy_hi s data index \<longrightarrow>
           i mod unat (sr_capacity s) \<noteq> j) \<longrightarrow>
        sr_empty s' ! j = sr_empty s ! j \<and> sr_aux s' ! j = sr_aux s ! j)"

text \<open>What a copy leaves alone.\<close>

definition copy_frame :: "StreamReassembler \<Rightarrow> StreamReassembler \<Rightarrow> bool" where
  "copy_frame s s' \<longleftrightarrow> sr_output s' = sr_output s \<and> sr_capacity s' = sr_capacity s \<and>
     sr_start_aux s' = sr_start_aux s \<and> sr_eof_seen s' = sr_eof_seen s \<and>
     length (sr_empty s') = length (sr_empty s) \<and> unat (sr_capacity s) \<le> length (sr_aux s')"

lemma copy_straight_update:
  fixes s :: StreamReassembler and data :: bytes and index :: u64
  defines "C \<equiv> unat (sr_capacity s)" and "lo \<equiv> copy_lo s index" and "hi \<equiv> copy_hi s data index"
  assumes wf: "sr_wf s" and ok: "push_ok s data index" and hit: "\<not> misses s data index"
    and straight: "lo mod C + (hi - lo) \<le> C"
  obtains s' where
    "copy_straight s data (word_of_nat (lo - unat index)) (word_of_nat (lo mod C))
       (word_of_nat (hi - lo)) = Inr s'"
    and "copy_frame s s'" and "ring_update s s' data index"
    and "length (sr_aux s') = length (sr_aux s)"
proof -
  have C: "length (sr_empty s) = C" "C \<le> length (sr_aux s)" "0 < C"
      "C < 18446744073709551616"
    using wf u64_bound [of "sr_capacity s"] by (auto simp: sr_wf_def C_def)
  have le: "lo \<le> hi" "unat index \<le> lo" "hi \<le> unat index + length data"
      "unat index + length data < 18446744073709551616"
    using hit ok by (auto simp: misses_def push_ok_def lo_def hi_def copy_lo_def copy_hi_def)
  define la ld n where "la = lo mod C" and "ld = lo - unat index" and "n = hi - lo"
  have hi: "hi = lo + n" and lo: "lo = unat index + ld" and fit: "la + n \<le> C" "ld + n \<le> length data"
      and small: "la < 18446744073709551616" "ld < 18446744073709551616" "n < 18446744073709551616"
    using le straight C by (auto simp: la_def ld_def n_def)
  note u = unat_u64_of_nat [OF small(1)] unat_u64_of_nat [OF small(2)] unat_u64_of_nat [OF small(3)]
  let ?s' = "s\<lparr>
    sr_aux := take la (sr_aux s) @ take n (drop ld data) @ drop (la + n) (sr_aux s),
    sr_bytes_unass := sr_bytes_unass s + word_of_nat (length (filter id
      (take n (drop la (sr_empty s))))),
    sr_empty := take la (sr_empty s) @ replicate n False @ drop (la + n) (sr_empty s)\<rparr>"
  have eq: "copy_straight s data (word_of_nat ld) (word_of_nat la) (word_of_nat n) = Inr ?s'"
    using copy_straight_eq [of "word_of_nat la" "word_of_nat n" s "word_of_nat ld" data]
      fit C unfolding u by simp
  have len: "length (take n (drop ld data)) = n" using fit by simp
  have empty: "sr_empty ?s' ! j = (if j < la then sr_empty s ! j else if j < la + n then False
      else sr_empty s ! j)" if "j < C" for j
    using that fit C by (simp add: splice_nth)
  have aux: "sr_aux ?s' ! j = (if j < la then sr_aux s ! j
      else if j < la + n then data ! (ld + (j - la)) else sr_aux s ! j)" if "j < C" for j
    using that fit C by (simp add: splice_nth [OF len])
  have slot: "(lo + d) mod C = la + d" if "d < n" for d
    unfolding la_def using that fit by (intro mod_add_low) (simp add: la_def)
  have "ring_update s ?s' data index"
    unfolding ring_update_def lo_def [symmetric] hi_def [symmetric] C_def [symmetric]
  proof (intro conjI allI impI)
    fix i assume "lo \<le> i \<and> i < hi"
    then obtain d where d: "i = lo + d" "d < n" using hi by (auto simp: le_iff_add)
    then have i: "i mod C = la + d" "i - unat index = ld + d" using slot lo by auto
    show "\<not> sr_empty ?s' ! (i mod C)" and "sr_aux ?s' ! (i mod C) = data ! (i - unat index)"
      unfolding i using empty [of "la + d"] aux [of "la + d"] d fit by auto
  next
    fix j assume j: "j < C" and no: "\<forall>i. lo \<le> i \<and> i < hi \<longrightarrow> i mod C \<noteq> j"
    have no_slot: "j \<noteq> la + d" if "d < n" for d
      using no [rule_format, of "lo + d"] slot [OF that] that hi by auto
    have "\<not> (la \<le> j \<and> j < la + n)"
      using no_slot by (metis add_less_cancel_left le_iff_add)
    then show "sr_empty ?s' ! j = sr_empty s ! j" and "sr_aux ?s' ! j = sr_aux s ! j"
      using empty [OF j] aux [OF j] by auto
  qed
  moreover have "copy_frame s ?s'" and "length (sr_aux ?s') = length (sr_aux s)"
    using C fit by (simp_all add: copy_frame_def C_def)
  ultimately show thesis using that eq unfolding la_def ld_def n_def by blast
qed

lemma copy_wrapping_update:
  fixes s :: StreamReassembler and data :: bytes and index :: u64
  defines "C \<equiv> unat (sr_capacity s)" and "lo \<equiv> copy_lo s index" and "hi \<equiv> copy_hi s data index"
  assumes wf: "sr_wf s" and ok: "push_ok s data index" and hit: "\<not> misses s data index"
    and over: "C < lo mod C + (hi - lo)"
  obtains s' where
    "copy_wrapping s data (word_of_nat (lo - unat index)) (word_of_nat (lo mod C))
       (word_of_nat (hi - lo)) = Inr s'"
    and "copy_frame s s'"
    and "clean_copy s data index \<Longrightarrow> length (sr_aux s) = C \<Longrightarrow>
      ring_update s s' data index \<and> length (sr_aux s') = C"
proof -
  have C: "length (sr_empty s) = C" "C \<le> length (sr_aux s)" "0 < C" "C < 9223372036854775808"
    using wf by (auto simp: sr_wf_def C_def)
  have le: "lo \<le> hi" "unat index \<le> lo" "hi \<le> unat index + length data" "hi - lo \<le> C"
      "unat index + length data < 18446744073709551616"
    using hit ok C
    by (auto simp: misses_def push_ok_def lo_def hi_def copy_lo_def copy_hi_def C_def)
  define la ld n where "la = lo mod C" and "ld = lo - unat index" and "n = hi - lo"
  define right left where "right = C - la" and "left = la + n - C"
  have hi: "hi = lo + n" and lo: "lo = unat index + ld"
      and fit: "la < C" "n \<le> C" "C < la + n" "ld + n \<le> length data" "left \<le> la"
        "right + left = n" "la + right = C"
      and small: "la < 18446744073709551616" "ld < 18446744073709551616" "n < 18446744073709551616"
    using le over C less_trans [of la C] by (auto simp: la_def ld_def n_def left_def right_def)
  note u = unat_u64_of_nat [OF small(1)] unat_u64_of_nat [OF small(2)] unat_u64_of_nat [OF small(3)]
  let ?s' = "s\<lparr>
    sr_aux := take n (drop right data) @
      drop left (take la (sr_aux s) @ take right (drop ld data) @ drop C (sr_aux s)),
    sr_bytes_unass := sr_bytes_unass s + (word_of_nat (length (filter id (drop la (sr_empty s)))) +
       word_of_nat (length (filter id (take left (sr_empty s))))),
    sr_empty := replicate left False @ drop left (take la (sr_empty s)) @ replicate right False\<rparr>"
  have eq: "copy_wrapping s data (word_of_nat ld) (word_of_nat la) (word_of_nat n) = Inr ?s'"
    using copy_wrapping_eq [of "word_of_nat la" s "word_of_nat n" "word_of_nat ld" data] fit C
    unfolding u C_def [symmetric] left_def right_def by simp
  have frame: "copy_frame s ?s'"
    using C fit by (simp add: copy_frame_def flip: C_def)
  have "ring_update s ?s' data index \<and> length (sr_aux ?s') = C"
    if clean: "clean_copy s data index" and len: "length (sr_aux s) = C"
  proof -
    have "unat (sr_start_aux s) \<le> unat index"
        "unat index + length data \<le> unat (sr_start_aux s) + C"
      using clean hit over by (auto simp: clean_copy_def lo_def hi_def C_def)
    then have whole: "ld = 0" "n = length data"
      by (auto simp: ld_def n_def lo_def hi_def copy_lo_def copy_hi_def C_def)
    have aux_eq: "sr_aux ?s' = drop right data @
        drop left (take la (sr_aux s) @ take right data @ drop C (sr_aux s))"
      using whole by simp
    have empty: "sr_empty ?s' ! j = (if j < left then False else if j < la then sr_empty s ! j
        else False)" if "j < C" for j
      using that fit C by (auto simp: nth_append)
    have aux: "sr_aux ?s' ! j = (if j < left then data ! (right + j)
        else if j < la then sr_aux s ! j else data ! (j - la))" if "j < C" for j
      unfolding aux_eq using that fit C whole
      by (subst wrap_splice_nth [of _ _ _ C]) auto
    have low: "(lo + d) mod C = la + d" if "d < right" for d
      unfolding la_def using that fit by (intro mod_add_low) (simp add: right_def la_def)
    have high: "(lo + d) mod C = d - right" if "right \<le> d" "d < n" for d
      using that fit mod_add_high [of C lo d] by (simp add: right_def la_def)
    have "ring_update s ?s' data index"
      unfolding ring_update_def lo_def [symmetric] hi_def [symmetric] C_def [symmetric]
    proof (intro conjI allI impI)
      fix i assume "lo \<le> i \<and> i < hi"
      then obtain d where d: "i = lo + d" "d < n" using hi by (auto simp: le_iff_add)
      then have i: "i - unat index = d" using lo whole by auto
      have j: "i mod C < C" using C by simp
      consider (right) "i mod C = la + d" "d < right" | (left) e where "i mod C = e" "d = right + e"
        using low [of d] high [of d] d by (cases "d < right") (auto simp: not_less le_iff_add)
      then have "\<not> sr_empty ?s' ! (i mod C) \<and> sr_aux ?s' ! (i mod C) = data ! (i - unat index)"
        unfolding empty [OF j] aux [OF j] i using d fit by cases auto
      then show "\<not> sr_empty ?s' ! (i mod C)" "sr_aux ?s' ! (i mod C) = data ! (i - unat index)"
        by blast+
    next
      fix j assume j: "j < C" and no: "\<forall>i. lo \<le> i \<and> i < hi \<longrightarrow> i mod C \<noteq> j"
      have no_slot: "j \<noteq> (lo + d) mod C" if "d < n" for d
        using no [rule_format, of "lo + d"] that hi by auto
      have "\<not> j < left" using no_slot [of "right + j"] high [of "right + j"] fit by auto
      moreover have "\<not> la \<le> j"
      proof
        assume "la \<le> j"
        then obtain d where "j = la + d" by (auto simp: le_iff_add)
        then show False using no_slot [of d] low [of d] j fit by simp
      qed
      ultimately show "sr_empty ?s' ! j = sr_empty s ! j" and "sr_aux ?s' ! j = sr_aux s ! j"
        using empty [OF j] aux [OF j] by auto
    qed
    moreover have "length (sr_aux ?s') = C"
      unfolding aux_eq using len fit whole by simp
    ultimately show ?thesis by blast
  qed
  then show thesis using that eq frame unfolding la_def ld_def n_def by blast
qed

text \<open>The ring holds bytes of the stream \<open>f\<close>, and \<open>data\<close> is an excerpt of it.\<close>

definition ring_holds :: "(nat \<Rightarrow> u8) \<Rightarrow> StreamReassembler \<Rightarrow> bool" where
  "ring_holds f s \<longleftrightarrow> length (sr_aux s) = unat (sr_capacity s) \<and>
     (\<forall>i. unat (sr_start_aux s) \<le> i \<and> i < unat (sr_start_aux s) + unat (sr_capacity s) \<and>
        \<not> sr_empty s ! (i mod unat (sr_capacity s)) \<longrightarrow>
        sr_aux s ! (i mod unat (sr_capacity s)) = f i)"

definition excerpt :: "(nat \<Rightarrow> u8) \<Rightarrow> bytes \<Rightarrow> u64 \<Rightarrow> bool" where
  "excerpt f data index \<longleftrightarrow> (\<forall>k < length data. data ! k = f (unat index + k))"

lemma ring_holdsD:
  "ring_holds f s \<Longrightarrow> unat (sr_start_aux s) \<le> i \<Longrightarrow>
    i < unat (sr_start_aux s) + unat (sr_capacity s) \<Longrightarrow>
    \<not> sr_empty s ! (i mod unat (sr_capacity s)) \<Longrightarrow>
    sr_aux s ! (i mod unat (sr_capacity s)) = f i"
  by (simp add: ring_holds_def)

lemma ring_update_holds:
  assumes up: "ring_update s s' data index" and holds: "ring_holds f s"
    and ex: "excerpt f data index" and frame: "copy_frame s s'"
    and len: "length (sr_aux s') = unat (sr_capacity s)" and pos: "0 < unat (sr_capacity s)"
  shows "ring_holds f s'"
proof -
  let ?S = "unat (sr_start_aux s)" and ?C = "unat (sr_capacity s)"
  have "sr_aux s' ! (i mod ?C) = f i"
    if i: "?S \<le> i" "i < ?S + ?C" and full: "\<not> sr_empty s' ! (i mod ?C)" for i
  proof (cases "\<exists>k. copy_lo s index \<le> k \<and> k < copy_hi s data index \<and> k mod ?C = i mod ?C")
    case True
    then obtain k where k: "copy_lo s index \<le> k" "k < copy_hi s data index" "k mod ?C = i mod ?C"
      by blast
    then have w: "?S \<le> k" "k < ?S + ?C" "unat index \<le> k" "k - unat index < length data"
      by (auto simp: copy_lo_def copy_hi_def)
    then have "k = i" using window_slot_inj i k(3) by blast
    moreover have "sr_aux s' ! (k mod ?C) = data ! (k - unat index)"
      using up k(1,2) unfolding ring_update_def by blast
    ultimately show ?thesis using ex w by (simp add: excerpt_def)
  next
    case False
    then have "sr_empty s' ! (i mod ?C) = sr_empty s ! (i mod ?C)"
        "sr_aux s' ! (i mod ?C) = sr_aux s ! (i mod ?C)"
      using up pos by (auto simp: ring_update_def)
    then show ?thesis using holds full i by (simp add: ring_holds_def)
  qed
  then show ?thesis using frame len by (auto simp: ring_holds_def copy_frame_def)
qed

lemma copy_frame_wf: "sr_wf s \<Longrightarrow> copy_frame s s' \<Longrightarrow> sr_wf s'"
  by (auto simp: sr_wf_def copy_frame_def)

lemma write_to_aux_ok:
  assumes wf: "sr_wf s" and ok: "push_ok s data index"
  obtains s' where "write_to_aux s data index eof = Inr s'" and "sr_wf s'"
    and "sr_capacity s' = sr_capacity s" and "sr_start_aux s' = sr_start_aux s"
    and "bs_deq (sr_output s') = bs_deq (sr_output s)"
    and "ring_holds f s \<Longrightarrow> excerpt f data index \<Longrightarrow> clean_copy s data index \<Longrightarrow> ring_holds f s'"
    and "clean_copy s data index \<Longrightarrow> length (sr_aux s) = unat (sr_capacity s) \<Longrightarrow>
      \<not> misses s data index \<Longrightarrow>
      ring_update s s' data index \<and> length (sr_aux s') = unat (sr_capacity s)"
proof (cases "misses s data index")
  case True
  let ?s' = "if data = [] \<and> eof then s\<lparr>sr_output := end_input (sr_output s)\<rparr> else s"
  have "sr_wf ?s'" "ring_holds f ?s' = ring_holds f s" "sr_capacity ?s' = sr_capacity s"
      "sr_start_aux ?s' = sr_start_aux s" "bs_deq (sr_output ?s') = bs_deq (sr_output s)"
    using wf by (auto simp: sr_wf_def ring_holds_def end_input_def bs_wf_def)
  then show thesis using that [of ?s'] write_to_aux_misses [OF wf ok True] True by simp
next
  case False
  let ?C = "unat (sr_capacity s)"
  let ?fin = "\<lambda>s'. if eof then s'\<lparr>sr_end_stream := index + sz data\<rparr> else s'"
  obtain s1 where eq: "write_to_aux s data index eof = Inr (?fin s1)" and frame: "copy_frame s s1"
      and up: "clean_copy s data index \<Longrightarrow> length (sr_aux s) = ?C \<Longrightarrow>
        ring_update s s1 data index \<and> length (sr_aux s1) = ?C"
  proof (cases "copy_lo s index mod ?C + (copy_hi s data index - copy_lo s index) \<le> ?C")
    case True
    obtain s1 where s1: "copy_straight s data (word_of_nat (copy_lo s index - unat index))
          (word_of_nat (copy_lo s index mod ?C))
          (word_of_nat (copy_hi s data index - copy_lo s index)) = Inr s1"
        "copy_frame s s1" "ring_update s s1 data index" "length (sr_aux s1) = length (sr_aux s)"
      using copy_straight_update [OF wf ok False True] by blast
    show ?thesis
    proof (rule that [of s1])
      show "write_to_aux s data index eof = Inr (?fin s1)"
        unfolding write_to_aux_hits [OF wf ok False] if_P [OF True] s1(1) by simp
    qed (use s1 in simp_all)
  next
    case over: False
    then have "?C < copy_lo s index mod ?C + (copy_hi s data index - copy_lo s index)" by simp
    then obtain s1 where s1: "copy_wrapping s data (word_of_nat (copy_lo s index - unat index))
          (word_of_nat (copy_lo s index mod ?C))
          (word_of_nat (copy_hi s data index - copy_lo s index)) = Inr s1"
        "copy_frame s s1" "clean_copy s data index \<Longrightarrow> length (sr_aux s) = ?C \<Longrightarrow>
          ring_update s s1 data index \<and> length (sr_aux s1) = ?C"
      using copy_wrapping_update [OF wf ok False] by blast
    show ?thesis
    proof (rule that [of s1])
      show "write_to_aux s data index eof = Inr (?fin s1)"
        unfolding write_to_aux_hits [OF wf ok False] if_not_P [OF over] s1(1) by simp
    qed (use s1 in simp_all)
  qed
  have fin: "sr_wf (?fin s1) = sr_wf s1" "ring_holds f (?fin s1) = ring_holds f s1"
      "sr_empty (?fin s1) = sr_empty s1"
    by (simp_all add: sr_wf_def ring_holds_def)
  show thesis
  proof (rule that [OF eq])
    show "sr_wf (?fin s1)" using fin copy_frame_wf [OF wf frame] by simp
    show "ring_holds f (?fin s1)"
      if "ring_holds f s" "excerpt f data index" "clean_copy s data index"
      using that up ring_update_holds [OF _ that(1,2) frame] wf fin
      by (auto simp: ring_holds_def sr_wf_def)
    show "ring_update s (?fin s1) data index \<and> length (sr_aux (?fin s1)) = ?C"
      if "clean_copy s data index" "length (sr_aux s) = ?C"
      using that up by (auto simp: ring_update_def)
  qed (use frame in \<open>auto simp: copy_frame_def\<close>)
qed

section \<open>Handing the contiguous run to the output\<close>

lemma emit_run_eq:
  assumes wf: "bs_wf (sr_output s)" and len: "unat first + len \<le> length (sr_aux s)"
    and small: "len < 18446744073709551616"
  obtains s' n where "emit_run s first len = Inr (s', n)"
    and "unat n = min len (bs_room (sr_output s))"
    and "bs_wf (sr_output s')"
    and "bs_deq (sr_output s') = bs_deq (sr_output s) @ take (unat n) (drop (unat first) (sr_aux s))"
    and "bs_room (sr_output s') = bs_room (sr_output s) - unat n"
    and "sr_start_aux s' = sr_start_aux s + n"
    and "bs_bytes_wrote (sr_output s') = bs_bytes_wrote (sr_output s) + n"
    and "bs_cap (sr_output s') = bs_cap (sr_output s)"
    and "bs_end (sr_output s') = bs_end (sr_output s)"
    and "sr_aux s' = sr_aux s" and "sr_empty s' = sr_empty s" and "sr_capacity s' = sr_capacity s"
    and "sr_end_stream s' = sr_end_stream s" and "sr_eof_seen s' = sr_eof_seen s"
proof -
  let ?piece = "take len (drop (unat first) (sr_aux s))"
  have fits: "fits ?piece" using small by (auto simp: fits_def)
  have l: "length ?piece = len" using len by simp
  let ?w = "bs_write (sr_output s) ?piece"
  have u: "unat (word_of_nat len :: u64) = len" using small by (rule unat_u64_of_nat)
  have n: "unat (snd ?w) = min len (bs_room (sr_output s))"
    using bs_write_count [OF wf fits] l by simp
  have deq: "bs_deq (fst ?w) = bs_deq (sr_output s) @ take (unat (snd ?w)) (drop (unat first) (sr_aux s))"
    using bs_write_deq [OF wf fits] n by (simp add: min.commute)
  show thesis
  proof (rule that)
    show "emit_run s first len = Inr (s\<lparr>sr_output := fst ?w,
        sr_start_aux := sr_start_aux s + snd ?w, sr_bytes_unass := sr_bytes_unass s - snd ?w\<rparr>, snd ?w)"
      using len by (simp add: emit_run_def str_substr_def u Let_def)
  qed (use n deq bs_write_wf [OF wf fits] len in \<open>auto simp: bs_room_def\<close>)
qed

text \<open>The lengths of the two runs, and how much of them the output takes.\<close>

definition run_right :: "StreamReassembler \<Rightarrow> nat" where
  "run_right s = find_true (drop (unat (sr_start_aux s) mod unat (sr_capacity s)) (sr_empty s))"

definition run_wraps :: "StreamReassembler \<Rightarrow> bool" where
  "run_wraps s \<longleftrightarrow> unat (sr_start_aux s) mod unat (sr_capacity s) + run_right s = unat (sr_capacity s)"

definition run_left :: "StreamReassembler \<Rightarrow> nat" where
  "run_left s = (if run_wraps s
     then find_true (take (unat (sr_start_aux s) mod unat (sr_capacity s)) (sr_empty s)) else 0)"

definition took_right :: "StreamReassembler \<Rightarrow> nat" where
  "took_right s = min (run_right s) (bs_room (sr_output s))"

definition took_left :: "StreamReassembler \<Rightarrow> nat" where
  "took_left s = min (run_left s) (bs_room (sr_output s) - took_right s)"

lemma write_to_bytestream_ok:
  fixes s :: StreamReassembler
  defines "C \<equiv> unat (sr_capacity s)" and "S \<equiv> unat (sr_start_aux s)"
  defines "st \<equiv> S mod C" and "n \<equiv> took_right s" and "m \<equiv> took_left s"
  assumes wf: "sr_wf s" and small: "S + C < 18446744073709551616"
  obtains s' where "write_to_bytestream s = Inr s'" and "sr_wf s'"
    and "bs_deq (sr_output s') =
      bs_deq (sr_output s) @ take n (drop st (sr_aux s)) @ take m (sr_aux s)"
    and "bs_room (sr_output s') = bs_room (sr_output s) - (n + m)"
    and "unat (sr_start_aux s') = S + (n + m)"
    and "sr_empty s' = (if run_wraps s then replicate st True else take st (sr_empty s)) @
      replicate n True @ drop (st + n) (sr_empty s)"
    and "sr_aux s' = sr_aux s" and "sr_capacity s' = sr_capacity s"
    and "sr_end_stream s' = sr_end_stream s" and "bs_end (sr_output s') = bs_end (sr_output s)"
proof -
  have C: "0 < C" "length (sr_empty s) = C" "C \<le> length (sr_aux s)" "C < 9223372036854775808"
    using wf by (auto simp: sr_wf_def C_def)
  have nonzero: "sr_capacity s \<noteq> 0" using C by (auto simp: C_def)
  have st: "st < C" "unat (sr_start_aux s mod sr_capacity s) = st"
    using C by (simp_all add: st_def unat_mod S_def C_def)
  have right: "st + run_right s \<le> C"
    using find_true_le [of "drop st (sr_empty s)"] st(1) unfolding length_drop C(2)
    by (simp add: run_right_def flip: S_def C_def st_def)
  have left: "run_left s \<le> st"
    using find_true_le [of "take st (sr_empty s)"] C st
    by (simp add: run_left_def st_def S_def C_def)
  obtain s1 n1 where s1: "emit_run s (sr_start_aux s mod sr_capacity s) (run_right s) = Inr (s1, n1)"
      "unat n1 = n" "bs_wf (sr_output s1)"
      "bs_deq (sr_output s1) = bs_deq (sr_output s) @ take n (drop st (sr_aux s))"
      "bs_room (sr_output s1) = bs_room (sr_output s) - n"
      "sr_start_aux s1 = sr_start_aux s + n1"
      "bs_bytes_wrote (sr_output s1) = bs_bytes_wrote (sr_output s) + n1"
      "bs_cap (sr_output s1) = bs_cap (sr_output s)" "bs_end (sr_output s1) = bs_end (sr_output s)"
      "sr_aux s1 = sr_aux s" "sr_empty s1 = sr_empty s" "sr_capacity s1 = sr_capacity s"
      "sr_end_stream s1 = sr_end_stream s"
    by (rule emit_run_eq [of s "sr_start_aux s mod sr_capacity s" "run_right s"])
      (use wf right C st in \<open>auto simp: sr_wf_def n_def took_right_def\<close>)
  have n: "n \<le> run_right s" by (simp add: n_def took_right_def)
  let ?e1 = "take st (sr_empty s) @ replicate n True @ drop (st + n) (sr_empty s)"
  have fill1: "vec_fill (sr_empty s1) st (st + unat n1) True = Inr ?e1"
    using s1 n right C by (simp add: vec_fill_def)
  let ?s2 = "s1\<lparr>sr_empty := ?e1\<rparr>"
  have start: "unat (sr_start_aux s1) = S + n"
    using s1 n right small by (simp add: word_nat S_def)
  have wf2: "sr_wf ?s2"
    using wf s1 C n right st by (auto simp: sr_wf_def C_def)
  have step: "write_to_bytestream s = (if run_wraps s
      then bindE (emit_run ?s2 0 (find_true (take st (sr_empty ?s2)))) (\<lambda>(s3, num_wrote2).
        bindE (vec_fill (sr_empty s3) 0 st True) (\<lambda>empty2. Inr (s3\<lparr>sr_empty := empty2\<rparr>)))
      else Inr ?s2)"
    using nonzero C s1(1) fill1
    by (auto simp: write_to_bytestream_def Let_def st run_right_def run_wraps_def
        st_def [symmetric] S_def [symmetric] C_def [symmetric])
  show thesis
  proof (cases "run_wraps s")
    case False
    then have "m = 0" by (simp add: m_def took_left_def run_left_def)
    then show thesis
      using that [of ?s2] step False wf2 s1 start by simp
  next
    case True
    have e1: "take st (sr_empty ?s2) = take st (sr_empty s)" using st C by simp
    have run: "find_true (take st (sr_empty s)) = run_left s"
      using True by (simp add: run_left_def st_def S_def C_def)
    obtain s3 n2 where s3: "emit_run ?s2 0 (run_left s) = Inr (s3, n2)"
        "unat n2 = m" "bs_wf (sr_output s3)"
        "bs_deq (sr_output s3) = bs_deq (sr_output ?s2) @ take m (sr_aux s)"
        "bs_room (sr_output s3) = bs_room (sr_output s) - n - m"
        "sr_start_aux s3 = sr_start_aux s1 + n2"
        "bs_bytes_wrote (sr_output s3) = bs_bytes_wrote (sr_output s1) + n2"
        "bs_cap (sr_output s3) = bs_cap (sr_output s)" "bs_end (sr_output s3) = bs_end (sr_output s)"
        "sr_aux s3 = sr_aux s" "sr_empty s3 = ?e1" "sr_capacity s3 = sr_capacity s"
        "sr_end_stream s3 = sr_end_stream s"
      by (rule emit_run_eq [of ?s2 0 "run_left s"])
        (use s1 left st C in \<open>auto simp: m_def n_def took_left_def\<close>)
    let ?e2 = "replicate st True @ replicate n True @ drop (st + n) (sr_empty s)"
    have fill2: "vec_fill (sr_empty s3) 0 st True = Inr ?e2"
      using s3(11) st C by (simp add: vec_fill_def)
    have "m \<le> st" using left by (simp add: m_def took_left_def)
    then have "unat (sr_start_aux s3) = S + (n + m)"
      using s3 start n right small by (simp add: word_nat)
    moreover have "sr_wf (s3\<lparr>sr_empty := ?e2\<rparr>)"
      using wf s3 s1 C n right st by (auto simp: sr_wf_def C_def)
    ultimately show thesis
      using that [of "s3\<lparr>sr_empty := ?e2\<rparr>"] step True s1 s3 fill2 unfolding e1 run by simp
  qed
qed

text \<open>The bytes handed out are the next bytes of the stream, and the ring keeps its meaning.\<close>

lemma took_wraps:
  assumes "sr_wf s" "0 < took_left s"
  shows "run_wraps s" "took_right s = run_right s"
  using assms by (auto simp: took_left_def run_left_def took_right_def split: if_splits)

lemma emitted_bytes:
  fixes s :: StreamReassembler
  defines "C \<equiv> unat (sr_capacity s)" and "S \<equiv> unat (sr_start_aux s)"
  defines "st \<equiv> S mod C" and "n \<equiv> took_right s" and "m \<equiv> took_left s"
  assumes wf: "sr_wf s" and holds: "ring_holds f s"
  shows "take n (drop st (sr_aux s)) @ take m (sr_aux s) = map f [S ..< S + (n + m)]"
proof -
  have C: "0 < C" "length (sr_empty s) = C" "length (sr_aux s) = C"
    using wf holds by (auto simp: sr_wf_def ring_holds_def C_def)
  have st: "st < C" using C by (simp add: st_def)
  have run: "n \<le> find_true (drop st (sr_empty s))"
    by (simp add: n_def took_right_def run_right_def st_def S_def C_def)
  have n: "st + n \<le> C"
    using run find_true_le [of "drop st (sr_empty s)"] C st by simp
  have slot: "(S + k) mod C = st + k" if "st + k < C" for k
    using that unfolding st_def by (rule mod_add_low)
  have "take n (drop st (sr_aux s)) = map f [S ..< S + n]"
  proof (rule nth_equalityI)
    fix k assume "k < length (take n (drop st (sr_aux s)))"
    then have k: "k < n" "st + k < C" using n C by auto
    then have "\<not> sr_empty s ! (st + k)"
      using find_true_before [of k "drop st (sr_empty s)"] run C by simp
    then have "sr_aux s ! (st + k) = f (S + k)"
      using ring_holdsD [OF holds, of "S + k"] slot [OF k(2)] k by (simp add: S_def C_def)
    then show "take n (drop st (sr_aux s)) ! k = map f [S ..< S + n] ! k"
      using k C by simp
  qed (use n C in simp)
  moreover have "take m (sr_aux s) = map f [S + n ..< S + (n + m)]"
  proof (cases "m = 0")
    case False
    then have w: "run_wraps s" "n = run_right s"
      using took_wraps [OF wf] by (simp_all add: m_def n_def)
    then have edge: "st + n = C" by (simp add: run_wraps_def st_def S_def C_def)
    have m: "m \<le> find_true (take st (sr_empty s))"
      using w by (simp add: m_def took_left_def run_left_def st_def S_def C_def)
    then have "m \<le> st" using find_true_le [of "take st (sr_empty s)"] C st by simp
    have slot2: "(S + (n + k)) mod C = k" if "k < st" for k
      using mod_add_high [of C S "n + k"] that edge st by (simp flip: st_def)
    show ?thesis
    proof (rule nth_equalityI)
      fix k assume "k < length (take m (sr_aux s))"
      then have k: "k < m" "k < st" using \<open>m \<le> st\<close> C by auto
      then have "\<not> sr_empty s ! k"
        using find_true_before [of k "take st (sr_empty s)"] m by simp
      then have "sr_aux s ! k = f (S + (n + k))"
        using ring_holdsD [OF holds, of "S + (n + k)"] slot2 [OF k(2)] k edge
        by (simp add: S_def C_def)
      then show "take m (sr_aux s) ! k = map f [S + n ..< S + (n + m)] ! k"
        using k C st by (simp add: add.assoc)
    qed (use \<open>m \<le> st\<close> st C in simp)
  qed simp
  ultimately show ?thesis
    by (metis add.assoc le_add1 map_append upt_add_eq_append)
qed

lemma emitted_holds:
  fixes s s' :: StreamReassembler
  defines "C \<equiv> unat (sr_capacity s)" and "S \<equiv> unat (sr_start_aux s)"
  defines "st \<equiv> S mod C" and "n \<equiv> took_right s" and "m \<equiv> took_left s"
  assumes wf: "sr_wf s" and holds: "ring_holds f s"
    and same: "sr_aux s' = sr_aux s" "sr_capacity s' = sr_capacity s"
    and start: "unat (sr_start_aux s') = S + (n + m)"
    and empty: "sr_empty s' = (if run_wraps s then replicate st True else take st (sr_empty s)) @
      replicate n True @ drop (st + n) (sr_empty s)"
  shows "ring_holds f s'"
proof -
  have C: "0 < C" "length (sr_empty s) = C" using wf by (auto simp: sr_wf_def C_def)
  have st: "st < C" using C by (simp add: st_def)
  have run: "run_right s = find_true (drop st (sr_empty s))"
    by (simp add: run_right_def st_def S_def C_def)
  have n: "st + n \<le> C"
    using find_true_le [of "drop st (sr_empty s)"] C st run by (simp add: n_def took_right_def)
  have nth: "sr_empty s' ! j = (if j < st then run_wraps s \<or> sr_empty s ! j
      else j < st + n \<or> sr_empty s ! j)" if "j < C" for j
    unfolding empty using that C st n by (auto simp: nth_append)
  have "sr_aux s ! (i mod C) = f i"
    if i: "S + (n + m) \<le> i" "i < S + (n + m) + C" and full: "\<not> sr_empty s' ! (i mod C)" for i
  proof -
    have j: "i mod C < C" using C by simp
    have old: "\<not> sr_empty s ! (i mod C)" using full nth [OF j] by (auto split: if_splits)
    have "i < S + C"
    proof (rule ccontr)
      assume "\<not> i < S + C"
      then obtain d where d: "i = S + d + C" by (metis add.assoc add.commute le_iff_add not_less)
      then have "i mod C = (S + d) mod C" by simp
      then show False
      proof (cases "d < n")
        case True
        then have "(S + d) mod C = st + d"
          using n unfolding st_def by (intro mod_add_low) (simp add: st_def)
        then show False using full nth [OF j] \<open>i mod C = (S + d) mod C\<close> True by simp
      next
        case False
        then have "0 < took_left s" using d i by (simp add: m_def)
        then have w: "run_wraps s" "n = run_right s" using took_wraps [OF wf] by (simp_all add: n_def)
        then have edge: "st + n = C" by (simp add: run_wraps_def st_def S_def C_def)
        have "m \<le> find_true (take st (sr_empty s))"
          by (simp add: m_def took_left_def run_left_def st_def S_def C_def)
        then have m: "m \<le> st" using find_true_le [of "take st (sr_empty s)"] by simp
        have "(S + d) mod C = d - n"
          using mod_add_high [of C S d] False d i edge m st by (simp flip: st_def)
        then have "i mod C < st" using \<open>i mod C = (S + d) mod C\<close> d i m False by simp
        then show False using full nth [OF j] w by simp
      qed
    qed
    then show ?thesis using ring_holdsD [OF holds, of i] i old by (simp add: S_def C_def)
  qed
  then show ?thesis
    using holds same start by (auto simp: ring_holds_def C_def)
qed

lemma emitted_all:
  fixes s :: StreamReassembler
  defines "C \<equiv> unat (sr_capacity s)" and "S \<equiv> unat (sr_start_aux s)"
  assumes wf: "sr_wf s" and len: "len \<le> bs_room (sr_output s)" "len \<le> C"
    and full: "\<And>i. S \<le> i \<Longrightarrow> i < S + len \<Longrightarrow> \<not> sr_empty s ! (i mod C)"
  shows "len \<le> took_right s + took_left s"
proof -
  define st where "st = S mod C"
  have C: "0 < C" "length (sr_empty s) = C" using wf by (auto simp: sr_wf_def C_def)
  have st: "st < C" using C by (simp add: st_def)
  have run: "run_right s = find_true (drop st (sr_empty s))"
    by (simp add: run_right_def st_def S_def C_def)
  have right: "min len (C - st) \<le> run_right s" unfolding run
  proof (rule find_true_ge)
    fix k assume k: "k < min len (C - st)"
    then have "st + k < C" using st by linarith
    then have "(S + k) mod C = st + k" unfolding st_def by (rule mod_add_low)
    then show "\<not> drop st (sr_empty s) ! k" using full [of "S + k"] k C st by simp
  qed (use C in simp)
  show ?thesis
  proof (cases "len \<le> C - st")
    case True
    then show ?thesis using right len by (simp add: took_right_def)
  next
    case False
    have "run_right s \<le> C - st" using find_true_le [of "drop st (sr_empty s)"] C run by simp
    then have edge: "run_right s = C - st" using right False by simp
    then have w: "run_wraps s" using st by (simp add: run_wraps_def st_def S_def C_def)
    have "len - (C - st) \<le> find_true (take st (sr_empty s))"
    proof (rule find_true_ge)
      fix k assume k: "k < len - (C - st)"
      then have "(S + (C - st + k)) mod C = k"
        using mod_add_high [of C S "C - st + k"] len st by (simp flip: st_def)
      then show "\<not> take st (sr_empty s) ! k"
        using full [of "S + (C - st + k)"] k len st by simp
    qed (use C st len in simp)
    then have "len - (C - st) \<le> run_left s"
      using w by (simp add: run_left_def st_def S_def C_def)
    then show ?thesis
      using edge len False unfolding took_right_def took_left_def min_def by (simp, arith)
  qed
qed

section \<open>Properties\<close>

lemma push_substring_ok:
  assumes wf: "sr_wf s" and ok: "push_ok s data index"
  obtains s1 s' where "write_to_aux s data index eof = Inr s1" "sr_wf s1"
    "push_substring s data index eof = Inr s'" "sr_wf s'" "sr_capacity s' = sr_capacity s"
    "bs_deq (sr_output s') = bs_deq (sr_output s) @
       take (took_right s1) (drop (unat (sr_start_aux s) mod unat (sr_capacity s)) (sr_aux s1)) @
       take (took_left s1) (sr_aux s1)"
    "unat (sr_start_aux s') = unat (sr_start_aux s) + (took_right s1 + took_left s1)"
    "ring_holds f s1 \<Longrightarrow> ring_holds f s'"
    "ring_holds f s \<Longrightarrow> excerpt f data index \<Longrightarrow> clean_copy s data index \<Longrightarrow> ring_holds f s1"
    "clean_copy s data index \<Longrightarrow> length (sr_aux s) = unat (sr_capacity s) \<Longrightarrow>
      \<not> misses s data index \<Longrightarrow>
      ring_update s s1 data index \<and> length (sr_aux s1) = unat (sr_capacity s)"
    "bs_room (sr_output s1) = bs_room (sr_output s)" "sr_capacity s1 = sr_capacity s"
    "sr_start_aux s1 = sr_start_aux s"
proof -
  let ?C = "unat (sr_capacity s)" and ?S = "unat (sr_start_aux s)"
  obtain s1 where s1: "write_to_aux s data index eof = Inr s1" "sr_wf s1"
      "sr_capacity s1 = sr_capacity s" "sr_start_aux s1 = sr_start_aux s"
      "bs_deq (sr_output s1) = bs_deq (sr_output s)"
      "ring_holds f s \<Longrightarrow> excerpt f data index \<Longrightarrow> clean_copy s data index \<Longrightarrow> ring_holds f s1"
      "clean_copy s data index \<Longrightarrow> length (sr_aux s) = ?C \<Longrightarrow> \<not> misses s data index \<Longrightarrow>
        ring_update s s1 data index \<and> length (sr_aux s1) = ?C"
    using write_to_aux_ok [OF wf ok] by metis
  have small: "unat (sr_start_aux s1) + unat (sr_capacity s1) < 18446744073709551616"
    using ok s1 by (simp add: push_ok_def)
  obtain s2 where s2: "write_to_bytestream s1 = Inr s2" "sr_wf s2"
      "bs_deq (sr_output s2) = bs_deq (sr_output s1) @ take (took_right s1)
        (drop (unat (sr_start_aux s1) mod unat (sr_capacity s1)) (sr_aux s1)) @
        take (took_left s1) (sr_aux s1)"
      "unat (sr_start_aux s2) = unat (sr_start_aux s1) + (took_right s1 + took_left s1)"
      "sr_empty s2 = (if run_wraps s1
        then replicate (unat (sr_start_aux s1) mod unat (sr_capacity s1)) True
        else take (unat (sr_start_aux s1) mod unat (sr_capacity s1)) (sr_empty s1)) @
        replicate (took_right s1) True @
        drop (unat (sr_start_aux s1) mod unat (sr_capacity s1) + took_right s1) (sr_empty s1)"
      "sr_aux s2 = sr_aux s1" "sr_capacity s2 = sr_capacity s1"
    using write_to_bytestream_ok [OF s1(2) small] by metis
  let ?s3 = "if \<not> sr_eof_seen s2 then s2\<lparr>sr_eof_seen := eof\<rparr> else s2"
  let ?s' = "if sr_start_aux ?s3 = sr_end_stream ?s3
      then ?s3\<lparr>sr_output := end_input (sr_output ?s3)\<rparr> else ?s3"
  have push: "push_substring s data index eof = Inr ?s'"
    by (simp add: push_substring_def s1(1) s2(1) Let_def)
  have fin: "sr_wf ?s'" "sr_capacity ?s' = sr_capacity s2" "sr_start_aux ?s' = sr_start_aux s2"
      "bs_deq (sr_output ?s') = bs_deq (sr_output s2)" "ring_holds f ?s' = ring_holds f s2"
    using s2(2) by (auto simp: sr_wf_def end_input_def bs_wf_def ring_holds_def)
  have "ring_holds f s1 \<Longrightarrow> ring_holds f s2"
    using emitted_holds [OF s1(2) _ s2(6,7,4,5)] by simp
  moreover have "bs_room (sr_output s1) = bs_room (sr_output s)"
    using wf s1 by (simp add: bs_room_def sr_wf_def)
  ultimately show thesis using that [OF s1(1,2) push] fin s1 s2(3,4,7) by simp
qed

text \<open>
  C16. A push never fails: on a well-formed reassembler (positive capacity, all indices below
  \<open>2 ^ 64\<close>) \<open>push_substring\<close> neither throws nor reads outside its ring, whatever the substring,
  and leaves a well-formed reassembler of the same capacity.
\<close>

theorem push_substring_total:
  assumes "sr_wf s" and "push_ok s data index"
  shows "\<exists>s'. push_substring s data index eof = Inr s' \<and> sr_wf s' \<and> sr_capacity s' = sr_capacity s"
  using push_substring_ok [OF assms] by metis

theorem push_substring_total_witness:
  "sr_wf (StreamReassembler_init 4) \<and> push_ok (StreamReassembler_init 4) [1, 2, 3] 2 \<and>
   (\<exists>s'. push_substring (StreamReassembler_init 4) [1, 2, 3] 2 True = Inr s' \<and> sr_wf s' \<and>
      sr_capacity s' = sr_capacity (StreamReassembler_init 4))"
proof -
  have "sr_wf (StreamReassembler_init 4)" "push_ok (StreamReassembler_init 4) [1, 2, 3] 2"
    by (simp_all add: sr_wf_def push_ok_def StreamReassembler_init_def ByteStream_init_def
        bs_wf_def fits_def)
  with push_substring_total [OF this, of True] show ?thesis by blast
qed

lemmas sr_eval = StreamReassembler_init_def push_substring_def write_to_aux_def
  copy_straight_def copy_wrapping_def write_to_bytestream_def emit_run_def
  str_substr_def str_replace_def vec_fill_def vec_count_def

text \<open>
  The ways to drive a reassembler for a stream \<open>f\<close>: new, a push of an excerpt of \<open>f\<close>, a read
  by the application. The last argument collects the bytes read.
\<close>

inductive sr_reach :: "(nat \<Rightarrow> u8) \<Rightarrow> u64 \<Rightarrow> StreamReassembler \<Rightarrow> bytes \<Rightarrow> bool"
  for f :: "nat \<Rightarrow> u8" and c :: u64 where
  reach_new: "0 < unat c \<Longrightarrow> unat c < 9223372036854775808 \<Longrightarrow>
    sr_reach f c (StreamReassembler_init c) []"
| reach_push: "sr_reach f c s out \<Longrightarrow> push_ok s data index \<Longrightarrow> excerpt f data index \<Longrightarrow>
    clean_copy s data index \<Longrightarrow> push_substring s data index eof = Inr s' \<Longrightarrow> sr_reach f c s' out"
| reach_read: "sr_reach f c s out \<Longrightarrow> bs_read (sr_output s) len = (o', d) \<Longrightarrow>
    sr_reach f c (s\<lparr>sr_output := o'\<rparr>) (out @ d)"

lemma StreamReassembler_init_wf:
  "0 < unat c \<Longrightarrow> unat c < 9223372036854775808 \<Longrightarrow> sr_wf (StreamReassembler_init c)"
  by (simp add: sr_wf_def StreamReassembler_init_def ByteStream_init_def bs_wf_def)

text \<open>\<open>sr_reads f out s\<close>: what was read from the output, followed by what waits in it, is the
  beginning of the stream \<open>f\<close> up to the first unassembled byte, and the ring holds bytes of \<open>f\<close>.\<close>

definition sr_reads :: "(nat \<Rightarrow> u8) \<Rightarrow> bytes \<Rightarrow> StreamReassembler \<Rightarrow> bool" where
  "sr_reads f out s \<longleftrightarrow> sr_wf s \<and> ring_holds f s \<and>
     out @ bs_deq (sr_output s) = map f [0 ..< unat (sr_start_aux s)]"

lemma sr_reads_init:
  "0 < unat c \<Longrightarrow> unat c < 9223372036854775808 \<Longrightarrow> sr_reads f [] (StreamReassembler_init c)"
  by (simp add: sr_reads_def StreamReassembler_init_wf)
    (simp add: ring_holds_def StreamReassembler_init_def ByteStream_init_def)

lemma sr_reads_push:
  assumes inv: "sr_reads f out s" and ok: "push_ok s data index" and ex: "excerpt f data index"
    and clean: "clean_copy s data index" and push: "push_substring s data index eof = Inr s'"
  shows "sr_reads f out s'"
proof -
  have wf: "sr_wf s" and holds: "ring_holds f s" using inv by (simp_all add: sr_reads_def)
  obtain s1 s'' where s1: "write_to_aux s data index eof = Inr s1" "sr_wf s1"
      and s'': "push_substring s data index eof = Inr s''" "sr_wf s''"
      "bs_deq (sr_output s'') = bs_deq (sr_output s) @ take (took_right s1)
        (drop (unat (sr_start_aux s) mod unat (sr_capacity s)) (sr_aux s1)) @
        take (took_left s1) (sr_aux s1)"
      "unat (sr_start_aux s'') = unat (sr_start_aux s) + (took_right s1 + took_left s1)"
      and keep: "ring_holds f s1 \<Longrightarrow> ring_holds f s''"
      "ring_holds f s \<Longrightarrow> excerpt f data index \<Longrightarrow> clean_copy s data index \<Longrightarrow> ring_holds f s1"
      and same: "sr_capacity s1 = sr_capacity s" "sr_start_aux s1 = sr_start_aux s"
    by (rule push_substring_ok [OF wf ok, of eof f], rule that, assumption+)
  have [simp]: "s'' = s'" using s''(1) push by simp
  have holds1: "ring_holds f s1" using keep(2) holds ex clean by blast
  have "out @ bs_deq (sr_output s') = map f [0 ..< unat (sr_start_aux s)] @
      map f [unat (sr_start_aux s) ..< unat (sr_start_aux s')]"
    using inv emitted_bytes [OF s1(2) holds1] s''(3,4) unfolding same
    by (simp add: sr_reads_def flip: append_assoc)
  also have "\<dots> = map f [0 ..< unat (sr_start_aux s')]"
    using s''(4) upt_add_eq_append [of 0 "unat (sr_start_aux s)"] by (simp flip: map_append)
  finally show ?thesis using s''(2) keep(1) [OF holds1] by (simp add: sr_reads_def)
qed

lemma sr_reads_read:
  assumes inv: "sr_reads f out s"
  shows "sr_reads f (out @ peek_output (sr_output s) len) (s\<lparr>sr_output := pop_output (sr_output s) len\<rparr>)"
proof -
  have wf: "bs_wf (sr_output s)" using inv by (simp add: sr_reads_def sr_wf_def)
  then have "peek_output (sr_output s) len @ bs_deq (pop_output (sr_output s) len) = bs_deq (sr_output s)"
    by (simp add: peek_output_eq pop_output_deq)
  then show ?thesis
    using inv pop_output_wf [OF wf] by (simp add: sr_reads_def sr_wf_def ring_holds_def)
qed

lemma sr_reach_inv: "sr_reach f c s out \<Longrightarrow> sr_reads f out s"
proof (induction rule: sr_reach.induct)
  case (reach_read s out len o' d)
  then have "o' = pop_output (sr_output s) len" "d = peek_output (sr_output s) len"
    by (metis bs_read_simps prod.sel)+
  then show ?case using sr_reads_read [OF reach_read.IH] by simp
qed (simp_all add: sr_reads_init sr_reads_push)



lemma in_order_push:
  assumes wf: "sr_wf s" and ring: "length (sr_aux s) = unat (sr_capacity s)"
    and ok: "push_ok s data (sr_start_aux s)" and "data \<noteq> []"
    and room: "length data \<le> bs_room (sr_output s)"
  shows "\<exists>s' more. push_substring s data (sr_start_aux s) eof = Inr s' \<and>
    bs_deq (sr_output s') = bs_deq (sr_output s) @ data @ more \<and>
    unat (sr_start_aux s') = unat (sr_start_aux s) + length (data @ more) \<and>
    sr_wf s' \<and> sr_capacity s' = sr_capacity s"
proof -
  let ?S = "unat (sr_start_aux s)" and ?C = "unat (sr_capacity s)"
  have C: "length data \<le> ?C" using wf room by (auto simp: sr_wf_def bs_room_def)
  then have hit: "\<not> misses s data (sr_start_aux s)" "clean_copy s data (sr_start_aux s)"
      and lo: "copy_lo s (sr_start_aux s) = ?S"
      and hi: "copy_hi s data (sr_start_aux s) = ?S + length data"
    using \<open>data \<noteq> []\<close> by (simp_all add: misses_def clean_copy_def copy_lo_def copy_hi_def)
  obtain s1 s' where s1: "sr_wf s1" and s': "push_substring s data (sr_start_aux s) eof = Inr s'"
      and wf': "sr_wf s'" and cap': "sr_capacity s' = sr_capacity s"
      and out: "bs_deq (sr_output s') = bs_deq (sr_output s) @
        take (took_right s1) (drop (?S mod ?C) (sr_aux s1)) @ take (took_left s1) (sr_aux s1)"
      and start: "unat (sr_start_aux s') = ?S + (took_right s1 + took_left s1)"
      and upd: "clean_copy s data (sr_start_aux s) \<Longrightarrow> length (sr_aux s) = ?C \<Longrightarrow>
        \<not> misses s data (sr_start_aux s) \<Longrightarrow>
        ring_update s s1 data (sr_start_aux s) \<and> length (sr_aux s1) = ?C"
      and same: "bs_room (sr_output s1) = bs_room (sr_output s)" "sr_capacity s1 = sr_capacity s"
        "sr_start_aux s1 = sr_start_aux s"
    by (rule push_substring_ok [OF wf ok, of eof undefined], rule that, assumption+)
  define g where "g i = sr_aux s1 ! (i mod ?C)" for i
  define T where "T = took_right s1 + took_left s1"
  note upd = upd [OF hit(2) ring hit(1)]
  have slots: "\<not> sr_empty s1 ! (i mod ?C)" "g i = data ! (i - ?S)"
    if "?S \<le> i" "i < ?S + length data" for i
    using upd that by (simp_all add: ring_update_def lo hi g_def)
  have "ring_holds g s1" using upd same by (simp add: ring_holds_def g_def)
  note g = emitted_bytes [OF s1 this, unfolded same, folded T_def]
  have "length data \<le> T"
    using emitted_all [OF s1, unfolded same, OF room C slots(1)] by (simp add: T_def)
  then obtain k where k: "T = length data + k" by (auto simp: le_iff_add)
  have "map g [?S ..< ?S + length data] = data"
    by (rule nth_equalityI) (simp_all add: slots)
  then have "map g [?S ..< ?S + T] = data @ map g [?S + length data ..< ?S + T]"
    using upt_add_eq_append [of ?S "?S + length data" k] by (simp add: k add.assoc)
  then show ?thesis
    using s' wf' cap' out g start k unfolding T_def [symmetric]
    by (intro exI [of _ s'] exI [of _ "map g [?S + length data ..< ?S + T]"]) simp
qed

text \<open>
  In-order data gets through: a substring that starts at the first unassembled byte and
  fits into the free space of the output is appended to the output at once, even when it
  wraps around the ring.
\<close>

theorem push_in_order:
  assumes "sr_wf s" and "length (sr_aux s) = unat (sr_capacity s)"
    and "push_ok s data (sr_start_aux s)" and "data \<noteq> []"
    and "length data \<le> bs_room (sr_output s)"
  shows "\<exists>s' more. push_substring s data (sr_start_aux s) eof = Inr s' \<and>
    bs_deq (sr_output s') = bs_deq (sr_output s) @ data @ more \<and>
    unat (sr_start_aux s') = unat (sr_start_aux s) + length (data @ more)"
  using in_order_push [OF assms] by blast

theorem push_in_order_witness:
  "\<exists>s' more. push_substring (StreamReassembler_init 4) [7, 8, 9] 0 True = Inr s' \<and>
    bs_deq (sr_output s') = [] @ [7, 8, 9] @ more \<and> unat (sr_start_aux s') = length ([7, 8, 9] @ more)"
  using push_in_order [of "StreamReassembler_init 4" "[7, 8, 9]" True] StreamReassembler_init_wf [of 4]
  by (simp add: StreamReassembler_init_def push_ok_def fits_def ByteStream_init_def bs_room_def)

text \<open>
  Outside \<open>clean_copy\<close> the stream is corrupted. A segment that overlaps bytes already
  delivered and wraps around the ring: the second part of the copy takes the wrong bytes,
  and more of them than it replaces, so the ring grows. Of the stream 1, 2, 3, 4, 5, 6 the
  application gets 1, 2, 3 and then 3, 3, 4.
\<close>

theorem overlap_corrupts_stream:
  "\<exists>s1 s2. push_substring (StreamReassembler_init 4) [1, 2, 3] 0 False = Inr s1 \<and>
     bs_deq (sr_output s1) = [1, 2, 3] \<and>
     push_substring (s1\<lparr>sr_output := pop_output (sr_output s1) 3\<rparr>) [2, 3, 4, 5, 6] 1 False = Inr s2 \<and>
     bs_deq (sr_output s2) = [3, 3, 4] \<and> length (sr_aux s2) = 5"
  by (simp add: sr_eval bs_eval)

text \<open>
  When a run reaches the end of the ring, \<open>write_to_bytestream\<close> marks every slot left of the
  start as empty, not only those it emitted: a byte that waits there is dropped, and stays
  counted in \<open>unassembled_bytes\<close> for ever.
\<close>

theorem wrap_drops_waiting_byte:
  "\<exists>s1 s2 s3. push_substring (StreamReassembler_init 8) [1, 2, 3, 4, 5, 6] 0 False = Inr s1 \<and>
     push_substring (s1\<lparr>sr_output := pop_output (sr_output s1) 6\<rparr>) [10] 9 False = Inr s2 \<and>
     unassembled_bytes s2 = 1 \<and> \<not> sr_empty s2 ! 1 \<and>
     push_substring s2 [7, 8] 6 False = Inr s3 \<and>
     unassembled_bytes s3 = 1 \<and> sr_empty s3 = replicate 8 True"
  by (simp add: sr_eval bs_eval unassembled_bytes_def)

end
