(* ===== verification/TCP_Receiver.thy ===== *)
theory TCP_Receiver
  imports Stream_Reassembler TCP_Segment
begin

text \<open>
  \<open>TCPReceiver\<close> (\<open>src/libsponge/tcp_receiver.hh\<close>, \<open>tcp_receiver.cc\<close>): turns the segments of a
  connection into pushes on the reassembler, and computes the acknowledgment number and the
  window to advertise. The failures of the reassembler are passed on.
\<close>

section \<open>State and operations\<close>

record TCPReceiver =
  rc_reassembler :: StreamReassembler
  rc_capacity :: u64
  rc_ckpt :: u64
  rc_isn :: WrappingInt32
  rc_ack :: WrappingInt32
  rc_syn :: bool
  rc_fin :: bool
  rc_eof :: bool
  rc_fin_seen :: bool
  rc_len_stream :: u64

definition TCPReceiver_init :: "u64 \<Rightarrow> TCPReceiver" where
  "TCPReceiver_init capacity =
     \<lparr>rc_reassembler = StreamReassembler_init capacity, rc_capacity = capacity, rc_ckpt = 0,
      rc_isn = WrappingInt32 0, rc_ack = WrappingInt32 0, rc_syn = False, rc_fin = False,
      rc_eof = False, rc_fin_seen = False, rc_len_stream = - 1\<rparr>"

definition rc_stream_out :: "TCPReceiver \<Rightarrow> ByteStream" where
  "rc_stream_out r = sr_output (rc_reassembler r)"

definition rc_set_stream_out :: "TCPReceiver \<Rightarrow> ByteStream \<Rightarrow> TCPReceiver" where
  "rc_set_stream_out r o' = r\<lparr>rc_reassembler := (rc_reassembler r)\<lparr>sr_output := o'\<rparr>\<rparr>"

definition rc_segment_received :: "TCPReceiver \<Rightarrow> TCPSegment \<Rightarrow> TCPReceiver res" where
  "rc_segment_received r seg =
     (let header = ts_header seg;
          seqno = th_seqno header
      in
      if \<not> rc_syn r \<and> \<not> th_syn header then Inr r
      else
        let (r, start_payload) =
              (if th_syn header then
                 let r = r\<lparr>rc_syn := True, rc_isn := th_seqno header\<rparr>
                 in (r, unwrap seqno (rc_isn r) (rc_ckpt r))
               else (r, unwrap seqno (rc_isn r) (rc_ckpt r) - 1));
            r = (if th_fin header \<and> \<not> rc_fin_seen r then r\<lparr>rc_fin_seen := True\<rparr> else r);
            len_in_seq = length_in_sequence_space seg;
            len_payload =
              (if th_syn header \<and> th_fin header then len_in_seq - 2
               else if th_syn header \<or> th_fin header then len_in_seq - 1
               else len_in_seq);
            r = (if th_fin header
                 then r\<lparr>rc_len_stream := start_payload + len_payload, rc_eof := True\<rparr> else r);
            data = ts_payload seg
        in
        bindE (push_substring (rc_reassembler r) data start_payload (rc_eof r)) (\<lambda>reassembler.
          let r = r\<lparr>rc_reassembler := reassembler\<rparr>;
              r = r\<lparr>rc_ckpt := bytes_written (rc_stream_out r)\<rparr>;
              r = (if rc_ckpt r = rc_len_stream r
                   then rc_set_stream_out (r\<lparr>rc_ack := wrap (rc_ckpt r + 2) (rc_isn r)\<rparr>)
                          (end_input (rc_stream_out r))
                   else r\<lparr>rc_ack := wrap (rc_ckpt r + 1) (rc_isn r)\<rparr>)
          in Inr (if \<not> rc_fin_seen r \<and> th_fin header
                  then rc_set_stream_out r (end_input (rc_stream_out r)) else r)))"

definition rc_ackno :: "TCPReceiver \<Rightarrow> WrappingInt32 option" where
  "rc_ackno r = (if rc_syn r then Some (rc_ack r) else None)"

definition rc_window_size :: "TCPReceiver \<Rightarrow> u64" where
  "rc_window_size r = rc_capacity r - buffer_size (rc_stream_out r)"

definition rc_unassembled_bytes :: "TCPReceiver \<Rightarrow> u64" where
  "rc_unassembled_bytes r = unassembled_bytes (rc_reassembler r)"

section \<open>Invariant\<close>

text \<open>
  The checkpoint is the number of bytes assembled, and once the SYN has been seen the
  acknowledgment number is the one that follows: one more for the SYN, and another one when
  the whole stream and the FIN behind it have arrived.
\<close>

definition rc_wf :: "TCPReceiver \<Rightarrow> bool" where
  "rc_wf r \<longleftrightarrow> sr_wf (rc_reassembler r) \<and> rc_capacity r = sr_capacity (rc_reassembler r) \<and>
     rc_ckpt r = bytes_written (rc_stream_out r) \<and>
     (rc_syn r \<longrightarrow> rc_ack r =
        wrap (rc_ckpt r + (if rc_ckpt r = rc_len_stream r then 2 else 1)) (rc_isn r))"

text \<open>The stream stays short of \<open>2 ^ 63\<close> bytes.\<close>

definition rc_room :: "TCPReceiver \<Rightarrow> TCPSegment \<Rightarrow> bool" where
  "rc_room r seg \<longleftrightarrow> unat (rc_ckpt r) + unat (rc_capacity r) < 9223372036854775808 \<and>
     length (ts_payload seg) < 9223372036854775808"

lemma rc_push_ok:
  assumes "rc_wf r" "rc_room r seg"
  shows "push_ok (rc_reassembler r) (ts_payload seg) index"
proof -
  have "unat (sr_start_aux (rc_reassembler r)) + unat (sr_capacity (rc_reassembler r)) < 9223372036854775808"
    using assms by (simp add: rc_wf_def rc_room_def sr_wf_def bytes_written_def rc_stream_out_def)
  then show ?thesis
    using assms by (auto simp: push_ok_def rc_room_def fits_def)
qed

lemma sr_wf_end: "sr_wf (s\<lparr>sr_output := end_input (sr_output s)\<rparr>) = sr_wf s"
  by (simp add: sr_wf_def end_input_def bs_wf_def)

text \<open>One segment, once the push on the reassembler is known. The last test of the code can never
  succeed, since \<open>_fin_seen\<close> has just been set.\<close>

definition rc_isn_after :: "TCPReceiver \<Rightarrow> TCPSegment \<Rightarrow> WrappingInt32" where
  "rc_isn_after r seg = (if th_syn (ts_header seg) then th_seqno (ts_header seg) else rc_isn r)"

definition rc_index :: "TCPReceiver \<Rightarrow> TCPSegment \<Rightarrow> u64" where
  "rc_index r seg = unwrap (th_seqno (ts_header seg)) (rc_isn_after r seg) (rc_ckpt r) -
     (if th_syn (ts_header seg) then 0 else 1)"

definition rc_len_after :: "TCPReceiver \<Rightarrow> TCPSegment \<Rightarrow> u64" where
  "rc_len_after r seg = (if th_fin (ts_header seg) then rc_index r seg + sz (ts_payload seg)
     else rc_len_stream r)"

definition rc_after :: "TCPReceiver \<Rightarrow> TCPSegment \<Rightarrow> StreamReassembler \<Rightarrow> TCPReceiver" where
  "rc_after r seg s' =
     (let ckpt = bs_bytes_wrote (sr_output s'); all = (ckpt = rc_len_after r seg) in
      r\<lparr>rc_syn := True, rc_isn := rc_isn_after r seg,
        rc_fin_seen := rc_fin_seen r \<or> th_fin (ts_header seg),
        rc_eof := rc_eof r \<or> th_fin (ts_header seg), rc_len_stream := rc_len_after r seg,
        rc_reassembler := (if all then s'\<lparr>sr_output := end_input (sr_output s')\<rparr> else s'),
        rc_ckpt := ckpt, rc_ack := wrap (ckpt + (if all then 2 else 1)) (rc_isn_after r seg)\<rparr>)"

lemma rc_segment_received_eq:
  assumes "rc_syn r \<or> th_syn (ts_header seg)"
    and "push_substring (rc_reassembler r) (ts_payload seg) (rc_index r seg)
      (rc_eof r \<or> th_fin (ts_header seg)) = Inr s'"
  shows "rc_segment_received r seg = Inr (rc_after r seg s')"
proof (cases "th_syn (ts_header seg)"; cases "th_fin (ts_header seg)")
qed (use assms in \<open>simp_all add: rc_segment_received_def rc_after_def rc_index_def rc_isn_after_def
  rc_len_after_def length_in_sequence_space_def rc_set_stream_out_def rc_stream_out_def
  bytes_written_def Let_def add.commute\<close>)

lemma rc_after_wf:
  assumes "rc_wf r" "sr_wf s'" "sr_capacity s' = sr_capacity (rc_reassembler r)"
  shows "rc_wf (rc_after r seg s')"
  using assms sr_wf_end [of s']
  by (auto simp: rc_wf_def rc_after_def Let_def rc_stream_out_def bytes_written_def end_input_def)

lemma rc_segment_received_ok:
  assumes wf: "rc_wf r" and room: "rc_room r seg"
  shows "\<exists>r'. rc_segment_received r seg = Inr r' \<and> rc_wf r' \<and> rc_capacity r' = rc_capacity r"
proof (cases "rc_syn r \<or> th_syn (ts_header seg)")
  case False
  then show ?thesis using wf by (simp add: rc_segment_received_def)
next
  case True
  have sr: "sr_wf (rc_reassembler r)" using wf by (simp add: rc_wf_def)
  obtain s' where s': "push_substring (rc_reassembler r) (ts_payload seg) (rc_index r seg)
      (rc_eof r \<or> th_fin (ts_header seg)) = Inr s'" "sr_wf s'"
      "sr_capacity s' = sr_capacity (rc_reassembler r)"
    using push_substring_ok [OF sr rc_push_ok [OF wf room]] by metis
  show ?thesis
    using rc_segment_received_eq [OF True s'(1)] rc_after_wf [OF wf s'(2,3)]
    by (simp add: rc_after_def Let_def)
qed

section \<open>Properties\<close>

text \<open>The life of a receiver: new, a segment, a read of the application.\<close>

inductive rc_reach :: "u64 \<Rightarrow> TCPReceiver \<Rightarrow> bool" for c :: u64 where
  rc_reach_new: "0 < unat c \<Longrightarrow> unat c < 9223372036854775808 \<Longrightarrow> rc_reach c (TCPReceiver_init c)"
| rc_reach_segment: "rc_reach c r \<Longrightarrow> rc_room r seg \<Longrightarrow> rc_segment_received r seg = Inr r' \<Longrightarrow>
    rc_reach c r'"
| rc_reach_read: "rc_reach c r \<Longrightarrow>
    rc_reach c (rc_set_stream_out r (fst (bs_read (rc_stream_out r) len)))"

lemma TCPReceiver_init_wf:
  "0 < unat c \<Longrightarrow> unat c < 9223372036854775808 \<Longrightarrow> rc_wf (TCPReceiver_init c)"
  using StreamReassembler_init_wf [of c]
  by (simp add: rc_wf_def TCPReceiver_init_def rc_stream_out_def bytes_written_def
      StreamReassembler_init_def ByteStream_init_def)

lemma rc_read_wf: "rc_wf r \<Longrightarrow> rc_wf (rc_set_stream_out r (fst (bs_read (rc_stream_out r) len)))"
  using pop_output_wf [of "sr_output (rc_reassembler r)" len]
  by (auto simp: rc_wf_def rc_set_stream_out_def rc_stream_out_def sr_wf_def bytes_written_def)

lemma rc_reach_wf: "rc_reach c r \<Longrightarrow> rc_wf r \<and> rc_capacity r = c"
proof (induction rule: rc_reach.induct)
  case rc_reach_new
  then show ?case using TCPReceiver_init_wf by (simp add: TCPReceiver_init_def)
next
  case (rc_reach_segment r seg r')
  then show ?case using rc_segment_received_ok [of r seg] by auto
next
  case (rc_reach_read r len)
  then show ?case using rc_read_wf by (simp add: rc_set_stream_out_def)
qed

text \<open>
  C7. The feedback of the receiver is right in every reachable state: it advertises no
  acknowledgment number before a SYN; afterwards the number of the next byte it needs, which
  is one past the bytes assembled so far (the SYN), or two when the FIN is reached as well;
  and the window is the capacity minus what the application has yet to read, without
  underflow. A further segment is always handled without an error.
\<close>

theorem receiver_feedback:
  assumes "rc_reach c r"
  shows "rc_ackno r = (if rc_syn r
      then Some (wrap (bytes_written (rc_stream_out r) +
        (if bytes_written (rc_stream_out r) = rc_len_stream r then 2 else 1)) (rc_isn r))
      else None) \<and>
    unat (rc_window_size r) + length (bs_deq (rc_stream_out r)) = unat c \<and>
    (rc_room r seg \<longrightarrow> (\<exists>r'. rc_segment_received r seg = Inr r'))"
proof -
  have wf: "rc_wf r" "rc_capacity r = c" using rc_reach_wf [OF assms] by simp_all
  have "bs_wf (rc_stream_out r)" "bs_cap (rc_stream_out r) = c"
    using wf by (simp_all add: rc_wf_def sr_wf_def rc_stream_out_def)
  then have "unat (rc_window_size r) + length (bs_deq (rc_stream_out r)) = unat c"
    using unat_u64_sub [of "buffer_size (rc_stream_out r)" c]
    by (simp add: rc_window_size_def wf(2) unat_buffer_size bs_wf_def)
  then show ?thesis
    using wf rc_segment_received_ok [of r seg] by (auto simp: rc_ackno_def rc_wf_def)
qed

definition ex_syn :: TCPSegment where
  "ex_syn = TCPSegment_init\<lparr>ts_header := TCPHeader_init\<lparr>th_syn := True, th_seqno := WrappingInt32 5\<rparr>\<rparr>"

definition ex_data :: "u32 \<Rightarrow> bytes \<Rightarrow> bool \<Rightarrow> TCPSegment" where
  "ex_data n d f = TCPSegment_init\<lparr>ts_payload := d,
     ts_header := TCPHeader_init\<lparr>th_seqno := WrappingInt32 n, th_fin := f\<rparr>\<rparr>"

lemmas rc_eval = rc_segment_received_def TCPReceiver_init_def rc_stream_out_def
  rc_set_stream_out_def bytes_written_def length_in_sequence_space_def
  TCPSegment_init_def TCPHeader_init_def ex_syn_def ex_data_def wrap_def unwrap_def

theorem receiver_feedback_witness:
  "\<exists>r. rc_segment_received (TCPReceiver_init 8) ex_syn = Inr r \<and> rc_reach 8 r \<and>
     rc_ackno r = Some (WrappingInt32 6) \<and>
     unat (rc_window_size r) + length (bs_deq (rc_stream_out r)) = 8 \<and>
     (\<exists>r'. rc_segment_received r (ex_data 6 [1, 2] True) = Inr r')"
proof -
  have new: "rc_reach 8 (TCPReceiver_init 8)" by (rule rc_reach_new) simp_all
  obtain r where r: "rc_segment_received (TCPReceiver_init 8) ex_syn = Inr r"
      "rc_syn r" "bytes_written (rc_stream_out r) = 0" "rc_len_stream r = - 1"
      "rc_isn r = WrappingInt32 5" "rc_ckpt r = 0" "rc_capacity r = 8"
    by (simp add: rc_eval sr_eval bs_eval)
  have "rc_reach 8 r"
    by (rule rc_reach_segment [OF new _ r(1)])
      (simp add: rc_room_def TCPReceiver_init_def ex_syn_def TCPSegment_init_def)
  moreover have "rc_room r (ex_data 6 [1, 2] True)"
    using r by (simp add: rc_room_def ex_data_def TCPSegment_init_def)
  ultimately show ?thesis
    using receiver_feedback [of 8 r "ex_data 6 [1, 2] True"] r by (simp add: wrap_def)
qed

text \<open>
  C6. In-order data is delivered: a data segment with the advertised acknowledgment number as
  its sequence number, whose payload fits the advertised window, reaches the application
  stream at once, and the acknowledgment number moves past it (and past anything that was
  waiting behind it).
\<close>

theorem receiver_in_order:
  assumes wf: "rc_wf r" and syn: "rc_syn r" and more: "rc_ckpt r \<noteq> rc_len_stream r"
    and ring: "length (sr_aux (rc_reassembler r)) = unat (rc_capacity r)"
    and room: "rc_room r seg"
    and seqno: "th_seqno (ts_header seg) = rc_ack r" and "\<not> th_syn (ts_header seg)"
    and payload: "ts_payload seg \<noteq> []" "length (ts_payload seg) \<le> unat (rc_window_size r)"
  shows "\<exists>r' rest. rc_segment_received r seg = Inr r' \<and>
    bs_deq (rc_stream_out r') = bs_deq (rc_stream_out r) @ ts_payload seg @ rest \<and>
    unat (rc_ckpt r') = unat (rc_ckpt r) + length (ts_payload seg @ rest) \<and>
    rc_ackno r' =
      Some (wrap (rc_ckpt r' + (if rc_ckpt r' = rc_len_stream r' then 2 else 1)) (rc_isn r))"
proof -
  let ?s = "rc_reassembler r"
  have sr: "sr_wf ?s" and cap: "rc_capacity r = sr_capacity ?s"
    using wf by (simp_all add: rc_wf_def)
  have ckpt: "rc_ckpt r = sr_start_aux ?s"
    using wf by (simp add: rc_wf_def sr_wf_def rc_stream_out_def bytes_written_def)
  have small: "unat (rc_ckpt r) < 9223372036854775808" using room by (simp add: rc_room_def)
  then have next1: "unat (rc_ckpt r + 1) = unat (rc_ckpt r) + 1" by (simp add: word_nat)
  then have "rc_ckpt r + 1 \<noteq> 0" by (metis add_eq_0_iff_both_eq_0 unat_0 zero_neq_one)
  then have "unwrap (wrap (rc_ckpt r + 1) (rc_isn r)) (rc_isn r) (rc_ckpt r) = rc_ckpt r + 1"
    using small next1 by (intro unwrap_near_inverse) simp_all
  then have index: "rc_index r seg = sr_start_aux ?s"
    using assms wf by (simp add: rc_index_def rc_isn_after_def rc_wf_def ckpt)
  have bs: "bs_wf (sr_output ?s)" "bs_cap (sr_output ?s) = rc_capacity r"
    using sr cap by (simp_all add: sr_wf_def)
  then have "unat (rc_window_size r) = bs_room (sr_output ?s)"
    using unat_u64_sub [of "buffer_size (sr_output ?s)" "rc_capacity r"]
    by (simp add: rc_window_size_def rc_stream_out_def unat_buffer_size bs_wf_def bs_room_def)
  then obtain s' rest where s': "push_substring ?s (ts_payload seg) (rc_index r seg)
        (rc_eof r \<or> th_fin (ts_header seg)) = Inr s'" "sr_wf s'"
      "bs_deq (sr_output s') = bs_deq (sr_output ?s) @ ts_payload seg @ rest"
      "unat (sr_start_aux s') = unat (sr_start_aux ?s) + length (ts_payload seg @ rest)"
    using in_order_push [OF sr _ rc_push_ok [OF wf room] payload(1)] ring payload(2)
    unfolding index cap by metis
  then have out: "bs_bytes_wrote (sr_output s') = sr_start_aux s'" by (simp add: sr_wf_def)
  show ?thesis
    using rc_segment_received_eq [OF _ s'(1)] syn s'(3,4) out \<open>\<not> th_syn (ts_header seg)\<close>
    by (simp add: rc_after_def rc_ackno_def rc_stream_out_def rc_isn_after_def Let_def ckpt
        end_input_def)
qed

theorem receiver_in_order_witness:
  "\<exists>r. rc_segment_received (TCPReceiver_init 8) ex_syn = Inr r \<and>
     (\<exists>r' rest. rc_segment_received r (ex_data 6 [1, 2] False) = Inr r' \<and>
        bs_deq (rc_stream_out r') = [] @ [1, 2] @ rest)"
proof -
  obtain r where r: "rc_segment_received (TCPReceiver_init 8) ex_syn = Inr r"
      "rc_syn r" "rc_ckpt r \<noteq> rc_len_stream r" "rc_ack r = WrappingInt32 6"
      "length (sr_aux (rc_reassembler r)) = unat (rc_capacity r)" "rc_window_size r = 8"
      "bs_deq (rc_stream_out r) = []" "rc_ckpt r = 0" "rc_capacity r = 8"
    by (simp add: rc_eval sr_eval bs_eval rc_window_size_def buffer_size_def)
  have "rc_wf (TCPReceiver_init 8)" by (rule TCPReceiver_init_wf) simp_all
  then have "rc_wf r"
    using rc_segment_received_ok [of "TCPReceiver_init 8" ex_syn] r(1)
    by (simp add: rc_room_def TCPReceiver_init_def ex_syn_def TCPSegment_init_def)
  then have "\<exists>r' rest. rc_segment_received r (ex_data 6 [1, 2] False) = Inr r' \<and>
      bs_deq (rc_stream_out r') = bs_deq (rc_stream_out r) @ [1, 2] @ rest"
    using receiver_in_order [of r "ex_data 6 [1, 2] False"] r
    by (auto simp: rc_room_def ex_data_def TCPSegment_init_def TCPHeader_init_def)
  then show ?thesis using r(1,7) by simp
qed

text \<open>
  The end of the stream can be signalled too early. \<open>_eof\<close> stays set after a FIN that arrives
  out of order, and is passed on with every later segment. Here the FIN segment carries byte
  3 of a stream of three bytes; when byte 1 arrives next, the stream is ended after it, with
  byte 2 missing. An empty segment (a pure acknowledgment) does the same.
\<close>

theorem receiver_premature_end:
  "\<exists>r1 r2 r3 r4.
     rc_segment_received (TCPReceiver_init 8) ex_syn = Inr r1 \<and>
     rc_segment_received r1 (ex_data 8 [3] True) = Inr r2 \<and>
     rc_len_stream r2 = 3 \<and> \<not> input_ended (rc_stream_out r2) \<and>
     rc_segment_received r2 (ex_data 6 [1] False) = Inr r3 \<and>
     bytes_written (rc_stream_out r3) = 1 \<and> input_ended (rc_stream_out r3) \<and>
     rc_segment_received r2 (ex_data 6 [] False) = Inr r4 \<and>
     bytes_written (rc_stream_out r4) = 0 \<and> input_ended (rc_stream_out r4)"
  by (simp add: rc_eval sr_eval bs_eval input_ended_def)

text \<open>
  A SYN whose initial sequence number is 0 and which carries data loses the data: its
  sequence number is unwrapped to \<open>2 ^ 32\<close>, far outside the window.
\<close>

theorem receiver_isn_zero_loses_data:
  "\<exists>r. rc_segment_received (TCPReceiver_init 8)
       (ex_data 0 [1, 2] False\<lparr>ts_header := TCPHeader_init\<lparr>th_syn := True\<rparr>\<rparr>) = Inr r \<and>
     bytes_written (rc_stream_out r) = 0 \<and> rc_unassembled_bytes r = 0 \<and>
     rc_ackno r = Some (WrappingInt32 1)"
  by (simp add: rc_eval sr_eval bs_eval rc_unassembled_bytes_def unassembled_bytes_def rc_ackno_def)

end
