(* ===== verification/TCP_Sender.thy ===== *)
theory TCP_Sender
  imports Byte_Stream TCP_Segment
begin

text \<open>
  \<open>TCPSender\<close> (\<open>src/libsponge/tcp_sender.hh\<close>, \<open>tcp_sender.cc\<close>): cuts the outgoing stream into
  segments that fit the peer's window, keeps the segments that are not acknowledged yet, and
  sends the oldest of them again when the retransmission timer expires. The random initial
  sequence number is an argument of the constructor.

  The invariant \<open>sn_wf\<close> ties the counters to the outstanding segments: these lie back to back
  in sequence space, the last one ends at \<open>_next_seqno\<close>, the first one ends after the
  acknowledged number, and \<open>_bytes_flying\<close> is the distance between the two.
\<close>

section \<open>State and operations\<close>

record TCPSender =
  sn_isn :: WrappingInt32
  sn_segments_out :: "TCPSegment list"
  sn_initial_retransmission_timeout :: u32
  sn_stream :: ByteStream
  sn_next_seqno :: u64
  sn_curr_RTO :: u64
  sn_segments_outstanding :: "TCPSegment list"
  sn_seqnos_abs_outstanding :: "u64 list"
  sn_timestamps_outstanding :: "u64 list"
  sn_bytes_flying :: u64
  sn_window_size :: u64
  sn_consec_retrans :: u32
  sn_ack_abs :: u64
  sn_time :: u64
  sn_time_fin_sent :: u64
  sn_fin_sent :: bool

definition TCPSender_init :: "u64 \<Rightarrow> u16 \<Rightarrow> WrappingInt32 option \<Rightarrow> u32 \<Rightarrow> TCPSender" where
  "TCPSender_init capacity retx_timeout fixed_isn random =
     \<lparr>sn_isn = (case fixed_isn of Some n \<Rightarrow> n | None \<Rightarrow> WrappingInt32 random),
      sn_segments_out = [], sn_initial_retransmission_timeout = ucast retx_timeout,
      sn_stream = ByteStream_init capacity, sn_next_seqno = 0, sn_curr_RTO = ucast retx_timeout,
      sn_segments_outstanding = [], sn_seqnos_abs_outstanding = [],
      sn_timestamps_outstanding = [], sn_bytes_flying = 0, sn_window_size = 1,
      sn_consec_retrans = 0, sn_ack_abs = 0, sn_time = 0, sn_time_fin_sent = 0,
      sn_fin_sent = False\<rparr>"

definition MAX_PAYLOAD_SIZE :: u64 where
  "MAX_PAYLOAD_SIZE = 1000"

definition bytes_in_flight :: "TCPSender \<Rightarrow> u64" where
  "bytes_in_flight s = sn_bytes_flying s"

definition next_seqno :: "TCPSender \<Rightarrow> WrappingInt32" where
  "next_seqno s = wrap (sn_next_seqno s) (sn_isn s)"

definition consecutive_retransmissions :: "TCPSender \<Rightarrow> u32" where
  "consecutive_retransmissions s = sn_consec_retrans s"

text \<open>The bookkeeping that ends every branch of \<open>fill_window\<close>: the segment is queued and kept,
  with the sequence number after it and the time.\<close>

definition sn_emit :: "TCPSender \<Rightarrow> TCPSegment \<Rightarrow> u64 \<Rightarrow> TCPSender" where
  "sn_emit s seg len =
     s\<lparr>sn_segments_out := sn_segments_out s @ [seg],
       sn_segments_outstanding := sn_segments_outstanding s @ [seg],
       sn_next_seqno := sn_next_seqno s + len,
       sn_seqnos_abs_outstanding := sn_seqnos_abs_outstanding s @ [sn_next_seqno s + len],
       sn_timestamps_outstanding := sn_timestamps_outstanding s @ [sn_time s]\<rparr>"

definition sn_header :: "TCPSender \<Rightarrow> TCPHeader" where
  "sn_header s = TCPHeader_init\<lparr>th_seqno := next_seqno s\<rparr>"

definition send_syn :: "TCPSender \<Rightarrow> TCPSender" where
  "send_syn s =
     (let seg = TCPSegment_init\<lparr>ts_header := TCPHeader_init\<lparr>th_syn := True, th_seqno := sn_isn s\<rparr>\<rparr>
      in sn_emit (s\<lparr>sn_bytes_flying := sn_bytes_flying s + 1\<rparr>) seg 1)"

definition send_fin :: "TCPSender \<Rightarrow> TCPSender" where
  "send_fin s =
     (let seg = TCPSegment_init\<lparr>ts_header := (sn_header s)\<lparr>th_fin := True\<rparr>, ts_payload := []\<rparr>
      in (sn_emit (s\<lparr>sn_bytes_flying := sn_bytes_flying s + 1\<rparr>) seg 1)
           \<lparr>sn_fin_sent := True, sn_time_fin_sent := sn_time s\<rparr>)"

definition send_probe :: "TCPSender \<Rightarrow> TCPSender" where
  "send_probe s =
     (let (st, d) = bs_read (sn_stream s) 1;
          seg = TCPSegment_init\<lparr>ts_header := sn_header s, ts_payload := d\<rparr>
      in sn_emit (s\<lparr>sn_stream := st, sn_bytes_flying := sn_bytes_flying s + 1\<rparr>) seg 1)"

text \<open>One round of the loop that fills the window, with the FIN piggybacked on the last one.\<close>

definition fill_step :: "TCPSender \<Rightarrow> TCPSender" where
  "fill_step s =
     (let size_seg = min (min (buffer_size (sn_stream s)) (sn_window_size s - sn_bytes_flying s))
                       MAX_PAYLOAD_SIZE;
          (st, d) = bs_read (sn_stream s) size_seg;
          seg = TCPSegment_init\<lparr>ts_header := sn_header s, ts_payload := d\<rparr>;
          s = s\<lparr>sn_stream := st, sn_bytes_flying := sn_bytes_flying s + size_seg\<rparr>
      in if bs_eof (sn_stream s) \<and> \<not> sn_fin_sent s \<and> sn_window_size s > sn_bytes_flying s
         then sn_emit (s\<lparr>sn_fin_sent := True, sn_bytes_flying := sn_bytes_flying s + 1,
                         sn_time_fin_sent := sn_time s\<rparr>)
                (seg\<lparr>ts_header := (ts_header seg)\<lparr>th_fin := True\<rparr>\<rparr>) (1 + size_seg)
         else sn_emit s seg size_seg)"

definition fill_more :: "TCPSender \<Rightarrow> bool" where
  "fill_more s \<longleftrightarrow> buffer_size (sn_stream s) > 0 \<and> sn_window_size s > sn_bytes_flying s"

lemma sn_emit_simps [simp]:
  "sn_stream (sn_emit s seg n) = sn_stream s" "sn_window_size (sn_emit s seg n) = sn_window_size s"
  "sn_bytes_flying (sn_emit s seg n) = sn_bytes_flying s" "sn_isn (sn_emit s seg n) = sn_isn s"
  "sn_ack_abs (sn_emit s seg n) = sn_ack_abs s" "sn_fin_sent (sn_emit s seg n) = sn_fin_sent s"
  "sn_next_seqno (sn_emit s seg n) = sn_next_seqno s + n" "sn_time (sn_emit s seg n) = sn_time s"
  "sn_segments_out (sn_emit s seg n) = sn_segments_out s @ [seg]"
  "sn_segments_outstanding (sn_emit s seg n) = sn_segments_outstanding s @ [seg]"
  "sn_seqnos_abs_outstanding (sn_emit s seg n) = sn_seqnos_abs_outstanding s @ [sn_next_seqno s + n]"
  "sn_timestamps_outstanding (sn_emit s seg n) = sn_timestamps_outstanding s @ [sn_time s]"
  by (simp_all add: sn_emit_def)

lemma fill_step_stream:
  "sn_stream (fill_step s) = pop_output (sn_stream s) (min (min (buffer_size (sn_stream s))
     (sn_window_size s - sn_bytes_flying s)) MAX_PAYLOAD_SIZE)"
  by (simp add: fill_step_def bs_read_def Let_def)

lemma fill_step_shrinks:
  assumes "fill_more s"
  shows "length (bs_deq (sn_stream (fill_step s))) < length (bs_deq (sn_stream s))"
proof -
  let ?n = "min (min (buffer_size (sn_stream s)) (sn_window_size s - sn_bytes_flying s)) MAX_PAYLOAD_SIZE"
  have "0 < buffer_size (sn_stream s)" "sn_window_size s \<noteq> sn_bytes_flying s"
    using assms by (auto simp: fill_more_def)
  then have "0 < ?n" by (auto simp: MAX_PAYLOAD_SIZE_def min_def word_neq_0_conv [symmetric])
  moreover have "?n \<le> sz (bs_deq (sn_stream s))" by (simp add: buffer_size_def min.coboundedI1)
  ultimately have "0 < unat (min ?n (sz (bs_deq (sn_stream s))))"
    unfolding min_absorb1 [OF \<open>?n \<le> sz (bs_deq (sn_stream s))\<close>] by (simp only: word_less_nat_alt unat_0)
  moreover have "bs_deq (sn_stream s) \<noteq> []"
    using \<open>0 < buffer_size (sn_stream s)\<close> by (auto simp: buffer_size_def)
  ultimately show ?thesis by (simp add: fill_step_stream pop_output_def Let_def)
qed

function fill_loop :: "TCPSender \<Rightarrow> TCPSender" where
  "fill_loop s = (if fill_more s then fill_loop (fill_step s) else s)"
  by pat_completeness auto
termination
  by (relation "measure (\<lambda>s. length (bs_deq (sn_stream s)))") (simp_all add: fill_step_shrinks)

declare fill_loop.simps [simp del]

definition fill_window :: "TCPSender \<Rightarrow> TCPSender" where
  "fill_window s =
     (if sn_next_seqno s = 0 then send_syn s
      else if bs_eof (sn_stream s) \<and> \<not> sn_fin_sent s \<and>
              (sn_window_size s > sn_bytes_flying s \<or> (sn_window_size s = 0 \<and> sn_bytes_flying s = 0))
      then send_fin s
      else if buffer_size (sn_stream s) > 0 \<and> sn_window_size s = 0 \<and> sn_bytes_flying s = 0
      then send_probe s
      else fill_loop s)"

text \<open>The loop of \<open>ack_received\<close> that drops what is acknowledged from the three queues.\<close>

fun pop_acked ::
    "u64 \<Rightarrow> u64 list \<Rightarrow> TCPSegment list \<Rightarrow> u64 list \<Rightarrow> u64 list \<times> TCPSegment list \<times> u64 list" where
  "pop_acked ack [] segs ts = ([], segs, ts)"
| "pop_acked ack (e # es) segs ts =
     (if ack \<ge> e then pop_acked ack es (tl segs) (tl ts) else (e # es, segs, ts))"

definition ack_received :: "TCPSender \<Rightarrow> WrappingInt32 \<Rightarrow> u16 \<Rightarrow> TCPSender" where
  "ack_received s ackno window_size =
     (let ack_abs = unwrap ackno (sn_isn s) (bytes_read (sn_stream s));
          s = s\<lparr>sn_window_size := ucast window_size\<rparr>
      in
      if ack_abs > bytes_read (sn_stream s) + 2 \<or> ack_abs \<le> sn_ack_abs s \<or>
         (\<not> sn_fin_sent s \<and> ack_abs > bytes_read (sn_stream s) + 1)
      then s
      else
        let bytes_ack = ack_abs - sn_ack_abs s;
            (es, segs, ts) = pop_acked ack_abs (sn_seqnos_abs_outstanding s)
                               (sn_segments_outstanding s) (sn_timestamps_outstanding s);
            s = s\<lparr>sn_curr_RTO := ucast (sn_initial_retransmission_timeout s),
                  sn_bytes_flying := sn_bytes_flying s - bytes_ack, sn_ack_abs := ack_abs,
                  sn_consec_retrans := 0, sn_seqnos_abs_outstanding := es,
                  sn_segments_outstanding := segs,
                  sn_timestamps_outstanding := map (\<lambda>_. sn_time s) ts\<rparr>
        in if sn_window_size s > sn_bytes_flying s \<or> (sn_window_size s = 0 \<and> sn_bytes_flying s = 0)
           then if \<not> sn_fin_sent s then fill_window s else s
           else s)"

definition sn_tick :: "TCPSender \<Rightarrow> u64 \<Rightarrow> TCPSender" where
  "sn_tick s ms_since_last_tick =
     (case sn_timestamps_outstanding s of [] \<Rightarrow> s
      | t # ts \<Rightarrow>
        let s = s\<lparr>sn_time := sn_time s + ms_since_last_tick\<rparr> in
        if sn_time s - t \<ge> sn_curr_RTO s then
          let s = s\<lparr>sn_segments_out := sn_segments_out s @ [hd (sn_segments_outstanding s)],
                    sn_timestamps_outstanding := sn_time s # ts\<rparr>
          in if sn_window_size s \<noteq> 0
             then s\<lparr>sn_consec_retrans := sn_consec_retrans s + 1, sn_curr_RTO := sn_curr_RTO s * 2\<rparr>
             else s
        else s)"

definition send_empty_segment :: "TCPSender \<Rightarrow> TCPSender" where
  "send_empty_segment s =
     s\<lparr>sn_segments_out := sn_segments_out s @ [TCPSegment_init\<lparr>ts_header := sn_header s\<rparr>]\<rparr>"

section \<open>What is in flight\<close>

text \<open>The length of a segment in sequence space, as a number.\<close>

definition seg_len :: "TCPSegment \<Rightarrow> nat" where
  "seg_len g = length (ts_payload g) + of_bool (th_syn (ts_header g)) + of_bool (th_fin (ts_header g))"

text \<open>\<open>tiles isn a gs es\<close>: the segments \<open>gs\<close> lie back to back from the absolute number \<open>a\<close> on, and
  \<open>es\<close> are the numbers after each of them.\<close>

fun tiles :: "WrappingInt32 \<Rightarrow> nat \<Rightarrow> TCPSegment list \<Rightarrow> u64 list \<Rightarrow> bool" where
  "tiles isn a [] [] = True"
| "tiles isn a (g # gs) (e # es) =
     (th_seqno (ts_header g) = wrap (word_of_nat a) isn \<and> unat e = a + seg_len g \<and>
      0 < seg_len g \<and> tiles isn (unat e) gs es)"
| "tiles isn a _ _ = False"

definition tiles_end :: "nat \<Rightarrow> u64 list \<Rightarrow> nat" where
  "tiles_end a es = (if es = [] then a else unat (last es))"

lemma tiles_end_Cons [simp]: "tiles_end a (e # es) = tiles_end (unat e) es"
  by (simp add: tiles_end_def)

lemma tiles_end_Nil [simp]: "tiles_end a [] = a"
  by (simp add: tiles_end_def)

lemma tiles_end_snoc [simp]: "tiles_end a (es @ [e]) = unat e"
  by (simp add: tiles_end_def)

lemma tiles_snoc:
  "tiles isn a gs es \<Longrightarrow> th_seqno (ts_header g) = wrap (word_of_nat (tiles_end a es)) isn \<Longrightarrow>
   unat e = tiles_end a es + seg_len g \<Longrightarrow> 0 < seg_len g \<Longrightarrow> tiles isn a (gs @ [g]) (es @ [e])"
  by (induction isn a gs es rule: tiles.induct) auto

lemma tiles_length: "tiles isn a gs es \<Longrightarrow> length gs = length es"
  by (induction isn a gs es rule: tiles.induct) auto

lemma pop_acked_tiles:
  assumes "tiles isn a gs es" "length ts = length es" "a \<le> unat ack"
    "pop_acked ack es gs ts = (es', gs', ts')"
  shows "\<exists>a'. a' \<le> unat ack \<and> tiles isn a' gs' es' \<and> tiles_end a' es' = tiles_end a es \<and>
    length ts' = length es' \<and> (es' \<noteq> [] \<longrightarrow> unat ack < unat (hd es'))"
  using assms
proof (induction isn a gs es arbitrary: ts rule: tiles.induct)
  case (2 isn a g gs e es)
  then obtain t ts0 where ts: "ts = t # ts0" by (cases ts) auto
  show ?case
  proof (cases "e \<le> ack")
    case True
    then show ?thesis using 2 ts by (auto simp: word_le_nat_alt)
  next
    case False
    then have "es' = e # es" "gs' = g # gs" "ts' = ts" using 2 by auto
    then show ?thesis using 2 False by (intro exI [of _ a]) (auto simp: word_le_nat_alt)
  qed
qed auto

definition sn_flight :: "TCPSender \<Rightarrow> bool" where
  "sn_flight s \<longleftrightarrow> unat (sn_ack_abs s) + unat (sn_bytes_flying s) = unat (sn_next_seqno s) \<and>
     length (sn_timestamps_outstanding s) = length (sn_seqnos_abs_outstanding s) \<and>
     (\<exists>a \<le> unat (sn_ack_abs s).
        tiles (sn_isn s) a (sn_segments_outstanding s) (sn_seqnos_abs_outstanding s) \<and>
        tiles_end a (sn_seqnos_abs_outstanding s) = unat (sn_next_seqno s) \<and>
        (sn_seqnos_abs_outstanding s \<noteq> [] \<longrightarrow>
           unat (sn_ack_abs s) < unat (hd (sn_seqnos_abs_outstanding s))))"

lemma sn_flight_emit:
  assumes s: "sn_flight s" and g: "0 < seg_len g" "th_seqno (ts_header g) = next_seqno s"
    and small: "unat (sn_next_seqno s) + seg_len g < 18446744073709551616"
    and n: "n = word_of_nat (seg_len g)"
  shows "sn_flight (sn_emit (s\<lparr>sn_bytes_flying := sn_bytes_flying s + n\<rparr>) g n)"
proof -
  have un: "unat n = seg_len g" using small n by (simp add: unat_u64_of_nat)
  then have e: "unat (sn_next_seqno s + n) = unat (sn_next_seqno s) + seg_len g"
    using small by (simp add: word_nat)
  have f: "unat (sn_bytes_flying s + n) = unat (sn_bytes_flying s) + seg_len g"
    using s small un by (simp add: word_nat sn_flight_def)
  obtain a where a: "a \<le> unat (sn_ack_abs s)"
      "tiles (sn_isn s) a (sn_segments_outstanding s) (sn_seqnos_abs_outstanding s)"
      "tiles_end a (sn_seqnos_abs_outstanding s) = unat (sn_next_seqno s)"
      "sn_seqnos_abs_outstanding s \<noteq> [] \<longrightarrow>
        unat (sn_ack_abs s) < unat (hd (sn_seqnos_abs_outstanding s))"
    using s by (auto simp: sn_flight_def)
  have "tiles (sn_isn s) a (sn_segments_outstanding s @ [g])
      (sn_seqnos_abs_outstanding s @ [sn_next_seqno s + n])"
    using a g e by (intro tiles_snoc) (simp_all add: next_seqno_def)
  then show ?thesis
    using s a e f g unfolding sn_flight_def
    by (auto simp: hd_append intro!: exI [of _ a])
qed

section \<open>The stream and the sequence numbers\<close>

text \<open>The SYN takes number 0, the bytes read from the stream follow, and then the FIN.\<close>

definition sn_numbers :: "TCPSender \<Rightarrow> bool" where
  "sn_numbers s \<longleftrightarrow> bs_wf (sn_stream s) \<and>
     unat (bs_bytes_readed (sn_stream s)) + length (bs_deq (sn_stream s)) < 9223372036854775808 \<and>
     (if sn_next_seqno s = 0 then bs_bytes_readed (sn_stream s) = 0 \<and> \<not> sn_fin_sent s
      else unat (sn_next_seqno s) = 1 + unat (bs_bytes_readed (sn_stream s)) + of_bool (sn_fin_sent s))"

definition sn_wf :: "TCPSender \<Rightarrow> bool" where
  "sn_wf s \<longleftrightarrow> sn_flight s \<and> sn_numbers s"

lemma sn_next_small: "sn_numbers s \<Longrightarrow> unat (sn_next_seqno s) \<le> 9223372036854775809"
  by (auto simp: sn_numbers_def of_bool_def split: if_splits)

lemma send_syn_wf:
  assumes "sn_wf s" "sn_next_seqno s = 0"
  shows "sn_wf (send_syn s)"
proof -
  let ?g = "TCPSegment_init\<lparr>ts_header := TCPHeader_init\<lparr>th_syn := True, th_seqno := sn_isn s\<rparr>\<rparr>"
  have len: "seg_len ?g = 1" by (simp add: seg_len_def TCPSegment_init_def TCPHeader_init_def)
  have "th_seqno (ts_header ?g) = next_seqno s"
    using assms(2) by (simp add: next_seqno_def WrappingInt32.expand wrap_raw)
  then have "sn_flight (send_syn s)"
    using sn_flight_emit [of s ?g 1] assms len by (simp add: send_syn_def sn_wf_def)
  moreover have "sn_numbers (send_syn s)"
    using assms by (simp add: sn_wf_def sn_numbers_def send_syn_def)
  ultimately show ?thesis by (simp add: sn_wf_def)
qed

lemma send_fin_wf:
  assumes "sn_wf s" "sn_next_seqno s \<noteq> 0" "\<not> sn_fin_sent s"
  shows "sn_wf (send_fin s)"
proof -
  let ?g = "TCPSegment_init\<lparr>ts_header := (sn_header s)\<lparr>th_fin := True\<rparr>, ts_payload := []\<rparr>"
  have len: "seg_len ?g = 1" by (simp add: seg_len_def sn_header_def TCPHeader_init_def)
  have small: "unat (sn_next_seqno s) \<le> 9223372036854775809"
    using assms sn_next_small by (simp add: sn_wf_def)
  then have "sn_flight (sn_emit (s\<lparr>sn_bytes_flying := sn_bytes_flying s + 1\<rparr>) ?g 1)"
    using sn_flight_emit [of s ?g 1] assms len by (simp add: sn_wf_def sn_header_def)
  then have "sn_flight (send_fin s)" by (simp add: send_fin_def sn_flight_def)
  moreover have "unat (sn_next_seqno s + 1) = unat (sn_next_seqno s) + 1"
    using small by (simp add: word_nat)
  then have "sn_numbers (send_fin s)"
    using assms by (auto simp: sn_wf_def sn_numbers_def send_fin_def)
  ultimately show ?thesis by (simp add: sn_wf_def)
qed

text \<open>Reading \<open>n\<close> bytes, at most what is there.\<close>

lemma sn_read:
  assumes "bs_wf st" "unat n \<le> length (bs_deq st)"
    "unat (bs_bytes_readed st) + length (bs_deq st) < 9223372036854775808"
  shows "peek_output st n = take (unat n) (bs_deq st)" "bs_wf (pop_output st n)"
    "bs_deq (pop_output st n) = drop (unat n) (bs_deq st)"
    "unat (bs_bytes_readed (pop_output st n)) = unat (bs_bytes_readed st) + unat n"
proof -
  have "n \<le> sz (bs_deq st)"
    using assms(2) bs_wf_fits [OF assms(1)] by (simp add: word_le_nat_alt word_nat)
  then have "bs_bytes_readed (pop_output st n) = bs_bytes_readed st + n"
    by (simp add: pop_output_def Let_def min_absorb1)
  then show "unat (bs_bytes_readed (pop_output st n)) = unat (bs_bytes_readed st) + unat n"
    using assms by (simp add: word_nat)
qed (use assms in \<open>simp_all add: peek_output_eq pop_output_deq pop_output_wf\<close>)

lemma send_probe_wf:
  assumes wf: "sn_wf s" "sn_next_seqno s \<noteq> 0" and data: "buffer_size (sn_stream s) > 0"
  shows "sn_wf (send_probe s)"
proof -
  let ?st = "sn_stream s"
  have st: "bs_wf ?st" "unat (bs_bytes_readed ?st) + length (bs_deq ?st) < 9223372036854775808"
    using wf by (simp_all add: sn_wf_def sn_numbers_def)
  have "unat (1 :: u64) \<le> length (bs_deq ?st)"
    using data unat_buffer_size [OF st(1)] by (simp add: word_less_nat_alt Suc_le_eq)
  note r = sn_read [OF st(1) this st(2)]
  let ?g = "TCPSegment_init\<lparr>ts_header := sn_header s, ts_payload := peek_output ?st 1\<rparr>"
  have len: "seg_len ?g = 1"
    using \<open>unat 1 \<le> _\<close> by (simp add: seg_len_def sn_header_def TCPHeader_init_def r(1))
  have small: "unat (sn_next_seqno s) \<le> 9223372036854775809"
    using wf sn_next_small by (simp add: sn_wf_def)
  then have "sn_flight (sn_emit (s\<lparr>sn_bytes_flying := sn_bytes_flying s + 1\<rparr>) ?g 1)"
    using sn_flight_emit [of s ?g 1] wf len by (simp add: sn_wf_def sn_header_def)
  then have "sn_flight (send_probe s)" by (simp add: send_probe_def sn_flight_def bs_read_def)
  moreover have "unat (sn_next_seqno s + 1) = unat (sn_next_seqno s) + 1"
    using small by (simp add: word_nat)
  then have "sn_numbers (send_probe s)"
    using wf r \<open>unat 1 \<le> _\<close> by (auto simp: sn_wf_def sn_numbers_def send_probe_def bs_read_def)
  ultimately show ?thesis by (simp add: sn_wf_def)
qed

text \<open>What one round of the loop takes from the stream.\<close>

definition fill_size :: "TCPSender \<Rightarrow> u64" where
  "fill_size s = min (min (buffer_size (sn_stream s)) (sn_window_size s - sn_bytes_flying s))
     MAX_PAYLOAD_SIZE"

lemma unat_fill_size:
  assumes "bs_wf (sn_stream s)" "fill_more s"
  shows "unat (fill_size s) = min (min (length (bs_deq (sn_stream s)))
      (unat (sn_window_size s) - unat (sn_bytes_flying s))) 1000"
    and "0 < unat (fill_size s)"
proof -
  have less: "unat (sn_bytes_flying s) < unat (sn_window_size s)" "0 < length (bs_deq (sn_stream s))"
    using assms(2) unat_buffer_size [OF assms(1)] by (simp_all add: fill_more_def word_less_nat_alt)
  then show eq: "unat (fill_size s) = min (min (length (bs_deq (sn_stream s)))
      (unat (sn_window_size s) - unat (sn_bytes_flying s))) 1000"
    by (simp add: fill_size_def unat_min unat_buffer_size [OF assms(1)] unat_u64_sub MAX_PAYLOAD_SIZE_def)
  show "0 < unat (fill_size s)" unfolding eq using less by simp
qed

definition fill_fin :: "TCPSender \<Rightarrow> bool" where
  "fill_fin s \<longleftrightarrow> bs_eof (pop_output (sn_stream s) (fill_size s)) \<and> \<not> sn_fin_sent s \<and>
     sn_window_size s > sn_bytes_flying s + fill_size s"

definition fill_seg :: "TCPSender \<Rightarrow> TCPSegment" where
  "fill_seg s = \<lparr>ts_header = (sn_header s)\<lparr>th_fin := fill_fin s\<rparr>,
     ts_payload = peek_output (sn_stream s) (fill_size s)\<rparr>"

lemma fill_step_eq:
  "fill_step s = (sn_emit (s\<lparr>sn_bytes_flying := sn_bytes_flying s + (of_bool (fill_fin s) + fill_size s)\<rparr>)
     (fill_seg s) (of_bool (fill_fin s) + fill_size s))
     \<lparr>sn_stream := pop_output (sn_stream s) (fill_size s),
      sn_fin_sent := sn_fin_sent s \<or> fill_fin s,
      sn_time_fin_sent := (if fill_fin s then sn_time s else sn_time_fin_sent s)\<rparr>"
proof (cases "fill_fin s")
  case True
  then show ?thesis
    by (simp add: fill_step_def Let_def fill_size_def [symmetric] bs_read_def fill_seg_def sn_emit_def)
      (simp add: fill_fin_def TCPSegment_init_def add.assoc add.left_commute)
next
  case False
  then show ?thesis
    by (simp add: fill_step_def Let_def fill_size_def [symmetric] bs_read_def fill_seg_def sn_emit_def)
      (auto simp: fill_fin_def TCPSegment_init_def sn_header_def TCPHeader_init_def)
qed

lemma fill_step_wf:
  assumes wf: "sn_wf s" "sn_next_seqno s \<noteq> 0" and more: "fill_more s"
  shows "sn_wf (fill_step s)" "sn_next_seqno (fill_step s) \<noteq> 0"
proof -
  let ?st = "sn_stream s" and ?n = "fill_size s"
  have st: "bs_wf ?st" "unat (bs_bytes_readed ?st) + length (bs_deq ?st) < 9223372036854775808"
    using wf by (simp_all add: sn_wf_def sn_numbers_def)
  note n = unat_fill_size [OF st(1) more]
  then have le: "unat ?n \<le> length (bs_deq ?st)" "unat ?n \<le> 1000" by simp_all
  note r = sn_read [OF st(1) le(1) st(2)]
  have len: "seg_len (fill_seg s) = unat ?n + of_bool (fill_fin s)"
    using le by (simp add: seg_len_def fill_seg_def r(1) sn_header_def TCPHeader_init_def)
  have small: "unat (sn_next_seqno s) \<le> 9223372036854775809"
    using wf sn_next_small by (simp add: sn_wf_def)
  have w: "of_bool (fill_fin s) + ?n = word_of_nat (seg_len (fill_seg s))"
    by (simp add: len)
  have un: "unat (of_bool (fill_fin s) + ?n) = seg_len (fill_seg s)"
    unfolding w using len le by (intro unat_u64_of_nat) (simp add: of_bool_def)
  have next_eq: "unat (sn_next_seqno (fill_step s)) = unat (sn_next_seqno s) + seg_len (fill_seg s)"
    using small len le un by (simp add: fill_step_eq word_nat of_bool_def)
  then show ne: "sn_next_seqno (fill_step s) \<noteq> 0"
    using len n(2) by (metis add_is_0 neq0_conv unat_0)
  have "sn_flight (sn_emit (s\<lparr>sn_bytes_flying := sn_bytes_flying s + (of_bool (fill_fin s) + ?n)\<rparr>)
     (fill_seg s) (of_bool (fill_fin s) + ?n))"
    using small len le n(2) wf
    by (intro sn_flight_emit) (simp_all add: sn_wf_def w fill_seg_def sn_header_def of_bool_def)
  then have "sn_flight (fill_step s)" by (simp add: fill_step_eq sn_flight_def)
  moreover have "sn_numbers (fill_step s)"
    using wf ne next_eq r len le
    by (auto simp: sn_wf_def sn_numbers_def fill_step_eq fill_fin_def)
  ultimately show "sn_wf (fill_step s)" by (simp add: sn_wf_def)
qed

lemma fill_loop_induct [consumes 3, case_names stop step]:
  assumes "I s" and "sn_wf s" "sn_next_seqno s \<noteq> 0"
    and step: "\<And>s. I s \<Longrightarrow> sn_wf s \<Longrightarrow> sn_next_seqno s \<noteq> 0 \<Longrightarrow> fill_more s \<Longrightarrow> I (fill_step s)"
  shows "I (fill_loop s) \<and> sn_wf (fill_loop s) \<and> sn_next_seqno (fill_loop s) \<noteq> 0 \<and>
    \<not> fill_more (fill_loop s)"
  using assms(1-3)
proof (induction s rule: fill_loop.induct)
  case (1 s)
  show ?case
  proof (cases "fill_more s")
    case True
    then have "I (fill_step s)" "sn_wf (fill_step s)" "sn_next_seqno (fill_step s) \<noteq> 0"
      using step fill_step_wf 1 by blast+
    from 1(1) [OF True this] True show ?thesis by (simp add: fill_loop.simps [of s])
  next
    case False
    then show ?thesis using 1 by (simp add: fill_loop.simps [of s])
  qed
qed

lemma fill_window_wf: "sn_wf s \<Longrightarrow> sn_wf (fill_window s)"
  using fill_loop_induct [of "\<lambda>_. True" s] send_syn_wf [of s] send_fin_wf [of s] send_probe_wf [of s]
  by (simp add: fill_window_def)

text \<open>The sender after an acknowledgment that it accepts, before it fills the window again.\<close>

definition ack_taken :: "TCPSender \<Rightarrow> u64 \<Rightarrow> u16 \<Rightarrow> TCPSender" where
  "ack_taken s ack_abs w =
     (let (es, segs, ts) = pop_acked ack_abs (sn_seqnos_abs_outstanding s)
                             (sn_segments_outstanding s) (sn_timestamps_outstanding s)
      in s\<lparr>sn_window_size := ucast w, sn_curr_RTO := ucast (sn_initial_retransmission_timeout s),
           sn_bytes_flying := sn_bytes_flying s - (ack_abs - sn_ack_abs s), sn_ack_abs := ack_abs,
           sn_consec_retrans := 0, sn_seqnos_abs_outstanding := es, sn_segments_outstanding := segs,
           sn_timestamps_outstanding := map (\<lambda>_. sn_time s) ts\<rparr>)"

lemma ack_received_cases [consumes 2, case_names ignored taken]:
  assumes wf: "sn_wf s" and syn: "sn_next_seqno s \<noteq> 0"
  obtains "ack_received s ackno w = s\<lparr>sn_window_size := ucast w\<rparr>"
  | ack where "sn_wf (ack_taken s ack w)"
    "ack_received s ackno w = (let s1 = ack_taken s ack w in
       if (sn_window_size s1 > sn_bytes_flying s1 \<or> (sn_window_size s1 = 0 \<and> sn_bytes_flying s1 = 0)) \<and>
          \<not> sn_fin_sent s1 then fill_window s1 else s1)"
proof -
  let ?ack = "unwrap ackno (sn_isn s) (bytes_read (sn_stream s))"
  show thesis
  proof (cases "?ack > bytes_read (sn_stream s) + 2 \<or> ?ack \<le> sn_ack_abs s \<or>
      (\<not> sn_fin_sent s \<and> ?ack > bytes_read (sn_stream s) + 1)")
    case True
    then show thesis using that(1) by (auto simp: ack_received_def Let_def)
  next
    case False
    obtain es segs ts where pop: "pop_acked ?ack (sn_seqnos_abs_outstanding s)
        (sn_segments_outstanding s) (sn_timestamps_outstanding s) = (es, segs, ts)"
      by (metis prod_cases3)
    let ?s1 = "ack_taken s ?ack w"
    have num: "unat (sn_next_seqno s) = 1 + unat (bs_bytes_readed (sn_stream s)) + of_bool (sn_fin_sent s)"
        "unat (bs_bytes_readed (sn_stream s)) < 9223372036854775808"
      using wf syn by (auto simp: sn_wf_def sn_numbers_def)
    have new: "unat (sn_ack_abs s) < unat ?ack" "unat ?ack \<le> unat (sn_next_seqno s)"
      using False num by (auto simp: word_less_nat_alt word_le_nat_alt word_nat bytes_read_def)
    have fly: "unat (sn_ack_abs s) + unat (sn_bytes_flying s) = unat (sn_next_seqno s)"
      using wf by (simp add: sn_wf_def sn_flight_def)
    have d: "unat (?ack - sn_ack_abs s) = unat ?ack - unat (sn_ack_abs s)"
      using new by (simp add: word_nat)
    then have "unat (sn_bytes_flying s - (?ack - sn_ack_abs s)) =
        unat (sn_bytes_flying s) - (unat ?ack - unat (sn_ack_abs s))"
      using fly new by (simp add: unat_u64_sub)
    then have fly1: "unat ?ack + unat (sn_bytes_flying ?s1) = unat (sn_next_seqno s)"
      using fly new by (simp add: ack_taken_def pop)
    obtain a where a: "a \<le> unat (sn_ack_abs s)"
        "tiles (sn_isn s) a (sn_segments_outstanding s) (sn_seqnos_abs_outstanding s)"
        "tiles_end a (sn_seqnos_abs_outstanding s) = unat (sn_next_seqno s)"
        "length (sn_timestamps_outstanding s) = length (sn_seqnos_abs_outstanding s)"
      using wf by (auto simp: sn_wf_def sn_flight_def)
    have "a \<le> unat ?ack" using a(1) new(1) by simp
    from pop_acked_tiles [OF a(2,4) this pop] a(3) fly1
    have "sn_flight ?s1" by (auto simp: sn_flight_def ack_taken_def pop)
    moreover have "sn_numbers ?s1" using wf by (simp add: sn_wf_def sn_numbers_def ack_taken_def pop)
    ultimately have "sn_wf ?s1" by (simp add: sn_wf_def)
    then show thesis
      by (rule that(2)) (use False pop in \<open>auto simp: ack_received_def ack_taken_def Let_def\<close>)
  qed
qed

lemma ack_received_wf:
  assumes wf: "sn_wf s" and syn: "sn_next_seqno s \<noteq> 0"
  shows "sn_wf (ack_received s ackno w)"
  using wf syn
proof (cases rule: ack_received_cases [where ackno = ackno and w = w])
  case ignored
  then show ?thesis using wf by (simp add: sn_wf_def sn_flight_def sn_numbers_def)
next
  case (taken ack)
  then show ?thesis using fill_window_wf [of "ack_taken s ack w"] by (simp add: Let_def)
qed

lemma sn_tick_wf: "sn_wf s \<Longrightarrow> sn_wf (sn_tick s ms)"
  by (auto simp: sn_tick_def Let_def sn_wf_def sn_flight_def sn_numbers_def split: list.splits)

lemma send_empty_segment_wf: "sn_wf s \<Longrightarrow> sn_wf (send_empty_segment s)"
  by (simp add: send_empty_segment_def sn_wf_def sn_flight_def sn_numbers_def)

lemma TCPSender_init_wf: "sn_wf (TCPSender_init cap rt isn rnd)"
  using ByteStream_init_wf [of cap]
  by (simp add: TCPSender_init_def sn_wf_def sn_flight_def sn_numbers_def ByteStream_init_def)

section \<open>What a call sends\<close>

text \<open>\<open>sends s new s'\<close>: the segments \<open>new\<close> are queued and kept, and their payloads are exactly the
  bytes that have left the stream.\<close>

definition sends :: "TCPSender \<Rightarrow> TCPSegment list \<Rightarrow> TCPSender \<Rightarrow> bool" where
  "sends s new s' \<longleftrightarrow> sn_segments_out s' = sn_segments_out s @ new \<and>
     sn_segments_outstanding s' = sn_segments_outstanding s @ new \<and>
     concat (map ts_payload new) @ bs_deq (sn_stream s') = bs_deq (sn_stream s) \<and>
     list_all (\<lambda>g. length (ts_payload g) \<le> 1000) new \<and>
     sn_window_size s' = sn_window_size s \<and> sn_ack_abs s' = sn_ack_abs s \<and>
     (new \<noteq> [] \<longrightarrow> unat (sn_bytes_flying s') \<le> max 1 (unat (sn_window_size s)))"

lemma sends_none: "sends s [] s"
  by (simp add: sends_def)

lemma sends_trans: "sends s xs s1 \<Longrightarrow> sends s1 ys s2 \<Longrightarrow> ys \<noteq> [] \<Longrightarrow> sends s (xs @ ys) s2"
  by (simp add: sends_def)

lemma fill_step_sends:
  assumes "sn_wf s" "fill_more s"
  shows "sends s [fill_seg s] (fill_step s)"
proof -
  let ?st = "sn_stream s" and ?n = "fill_size s"
  have st: "bs_wf ?st" "unat (bs_bytes_readed ?st) + length (bs_deq ?st) < 9223372036854775808"
    using assms by (simp_all add: sn_wf_def sn_numbers_def)
  note n = unat_fill_size [OF st(1) assms(2)]
  then have le: "unat ?n \<le> length (bs_deq ?st)" "unat ?n \<le> 1000"
      "unat (sn_bytes_flying s) + unat ?n \<le> unat (sn_window_size s)"
    using assms(2) by (auto simp: fill_more_def word_less_nat_alt)
  note r = sn_read [OF st(1) le(1) st(2)]
  have f: "unat (sn_bytes_flying s + ?n) = unat (sn_bytes_flying s) + unat ?n"
    using le(3) u64_bound [of "sn_window_size s"] by (simp add: word_nat)
  have "unat (sn_bytes_flying (fill_step s)) \<le> unat (sn_window_size s)"
  proof (cases "fill_fin s")
    case True
    then have "unat (sn_bytes_flying s + ?n) < unat (sn_window_size s)"
      by (simp add: fill_fin_def word_less_nat_alt)
    then show ?thesis
      using True u64_bound [of "sn_window_size s"] unat_u64_add [of "sn_bytes_flying s + ?n" 1]
      by (simp add: fill_step_eq add.left_commute add.commute)
  qed (use f le in \<open>simp add: fill_step_eq\<close>)
  then show ?thesis
    using le by (auto simp: sends_def fill_step_eq fill_seg_def r)
qed

lemma fill_loop_sends:
  assumes "sn_wf s" "sn_next_seqno s \<noteq> 0"
  shows "(\<exists>new. sends s new (fill_loop s)) \<and> \<not> fill_more (fill_loop s)"
proof -
  have "\<exists>new. sends s new s" using sends_none by blast
  moreover have "\<exists>new. sends s new (fill_step s1)"
    if "\<exists>new. sends s new s1" "sn_wf s1" "fill_more s1" for s1
    using that fill_step_sends [of s1] sends_trans by (metis list.distinct(1))
  ultimately show ?thesis
    using fill_loop_induct [of "\<lambda>s1. \<exists>new. sends s new s1" s] assms by blast
qed

definition fin_due :: "TCPSender \<Rightarrow> bool" where
  "fin_due s \<longleftrightarrow> bs_eof (sn_stream s) \<and> \<not> sn_fin_sent s \<and>
     (sn_window_size s > sn_bytes_flying s \<or> (sn_window_size s = 0 \<and> sn_bytes_flying s = 0))"

definition probe_due :: "TCPSender \<Rightarrow> bool" where
  "probe_due s \<longleftrightarrow> buffer_size (sn_stream s) > 0 \<and> sn_window_size s = 0 \<and> sn_bytes_flying s = 0"

lemma fill_window_eq:
  "fill_window s = (if sn_next_seqno s = 0 then send_syn s else if fin_due s then send_fin s
     else if probe_due s then send_probe s else fill_loop s)"
  by (simp only: fill_window_def fin_due_def probe_due_def)

lemma fill_window_sends:
  assumes wf: "sn_wf s"
  shows "\<exists>new. sends s new (fill_window s)"
proof -
  have st: "bs_wf (sn_stream s)"
      "unat (bs_bytes_readed (sn_stream s)) + length (bs_deq (sn_stream s)) < 9223372036854775808"
    using wf by (simp_all add: sn_wf_def sn_numbers_def)
  have fly1: "unat (sn_bytes_flying s + 1) = unat (sn_bytes_flying s) + 1"
    using wf sn_next_small [of s] by (intro unat_u64_add [THEN trans]) (auto simp: sn_wf_def sn_flight_def)
  consider (syn) "sn_next_seqno s = 0" | (fin) "fill_window s = send_fin s" "fin_due s"
    | (probe) "fill_window s = send_probe s" "probe_due s"
    | (loop) "sn_next_seqno s \<noteq> 0" "fill_window s = fill_loop s"
    unfolding fill_window_eq by presburger
  then show ?thesis
  proof cases
    case syn
    then have "sn_bytes_flying s = 0" using wf by (simp add: sn_wf_def sn_flight_def unat_eq_zero)
    then show ?thesis
      using syn by (auto simp: sends_def fill_window_def send_syn_def Let_def TCPSegment_init_def)
  next
    case fin
    then have "unat (sn_bytes_flying s + 1) \<le> max 1 (unat (sn_window_size s))"
      using fly1 by (auto simp: fin_due_def word_less_nat_alt)
    then show ?thesis
      unfolding fin(1) by (auto simp: sends_def send_fin_def Let_def)
  next
    case probe
    then have "unat (1 :: u64) \<le> length (bs_deq (sn_stream s))"
      using unat_buffer_size [OF st(1)] by (simp add: probe_due_def word_less_nat_alt Suc_le_eq)
    note r = sn_read [OF st(1) this st(2)]
    show ?thesis
      unfolding probe(1) using probe(2) by (auto simp: probe_due_def sends_def send_probe_def Let_def bs_read_def r)
  next
    case loop
    then show ?thesis using fill_loop_sends [OF wf] by simp
  qed
qed

section \<open>Properties\<close>

text \<open>
  The life of a sender: new, writes and the end of input from the application, the calls of
  the connection. Acknowledgments come after the SYN was sent.
\<close>

inductive sn_reach :: "TCPSender \<Rightarrow> bool" where
  sn_new: "sn_reach (TCPSender_init cap rt isn rnd)"
| sn_write: "sn_reach s \<Longrightarrow> unat (bs_bytes_readed (sn_stream s)) + length (bs_deq (sn_stream s)) +
    length d < 9223372036854775808 \<Longrightarrow> sn_reach (s\<lparr>sn_stream := fst (bs_write (sn_stream s) d)\<rparr>)"
| sn_end: "sn_reach s \<Longrightarrow> sn_reach (s\<lparr>sn_stream := end_input (sn_stream s)\<rparr>)"
| sn_fill: "sn_reach s \<Longrightarrow> sn_reach (fill_window s)"
| sn_ack: "sn_reach s \<Longrightarrow> sn_next_seqno s \<noteq> 0 \<Longrightarrow> sn_reach (ack_received s ackno w)"
| sn_timer: "sn_reach s \<Longrightarrow> sn_reach (sn_tick s ms)"
| sn_empty: "sn_reach s \<Longrightarrow> sn_reach (send_empty_segment s)"
| sn_drain: "sn_reach s \<Longrightarrow> sn_reach (s\<lparr>sn_segments_out := tl (sn_segments_out s)\<rparr>)"

lemma sn_write_wf:
  assumes wf: "sn_wf s" and len: "unat (bs_bytes_readed (sn_stream s)) + length (bs_deq (sn_stream s)) +
    length d < 9223372036854775808"
  shows "sn_wf (s\<lparr>sn_stream := fst (bs_write (sn_stream s) d)\<rparr>)"
proof -
  have st: "bs_wf (sn_stream s)" using wf by (simp add: sn_wf_def sn_numbers_def)
  have fits: "fits d" using len by (simp add: fits_def)
  have "length (bs_deq (fst (bs_write (sn_stream s) d))) \<le> length (bs_deq (sn_stream s)) + length d"
    using bs_write_deq [OF st fits] by simp
  moreover have "bs_bytes_readed (fst (bs_write (sn_stream s) d)) = bs_bytes_readed (sn_stream s)"
    by (simp add: bs_write_def Let_def)
  ultimately show ?thesis
    using wf len bs_write_wf [OF st fits] by (auto simp: sn_wf_def sn_flight_def sn_numbers_def)
qed

lemma sn_end_wf: "sn_wf s \<Longrightarrow> sn_wf (s\<lparr>sn_stream := end_input (sn_stream s)\<rparr>)"
  using end_input_wf [of "sn_stream s"]
  by (simp add: sn_wf_def sn_flight_def sn_numbers_def) (simp add: end_input_def)

lemma sn_reach_wf: "sn_reach s \<Longrightarrow> sn_wf s"
proof (induction rule: sn_reach.induct)
  case (sn_drain s)
  then show ?case by (simp add: sn_wf_def sn_flight_def sn_numbers_def)
qed (simp_all add: TCPSender_init_wf sn_write_wf sn_end_wf fill_window_wf ack_received_wf sn_tick_wf send_empty_segment_wf)

definition ex_sender :: TCPSender where
  "ex_sender = TCPSender_init 10 1000 (Some (WrappingInt32 7)) 0"

definition ex_sender_open :: TCPSender where
  "ex_sender_open = (let s = ack_received (fill_window ex_sender) (WrappingInt32 8) 3
     in s\<lparr>sn_stream := fst (bs_write (sn_stream s) [1, 2, 3, 4, 5])\<rparr>)"

lemmas sn_eval = TCPSender_init_def ex_sender_def ex_sender_open_def fill_window_def fill_loop.simps
  fill_more_def fill_step_def send_syn_def send_fin_def send_probe_def sn_emit_def ack_received_def
  sn_header_def next_seqno_def buffer_size_def bs_eof_def buffer_empty_def input_ended_def
  bytes_read_def MAX_PAYLOAD_SIZE_def TCPSegment_init_def TCPHeader_init_def wrap_def unwrap_def

lemma ex_sender_syn: "sn_reach (fill_window ex_sender)" "sn_next_seqno (fill_window ex_sender) = 1"
  by (simp_all add: ex_sender_def sn_fill sn_new) (simp add: sn_eval bs_eval)

lemma ex_sender_open_state:
  "sn_next_seqno ex_sender_open = 1" "sn_bytes_flying ex_sender_open = 0" "sn_ack_abs ex_sender_open = 1"
  "sn_window_size ex_sender_open = 3" "bs_deq (sn_stream ex_sender_open) = [1, 2, 3, 4, 5]"
  by (simp_all add: sn_eval bs_eval)

lemma ex_sender_open_reach: "sn_reach ex_sender_open"
  unfolding ex_sender_open_def Let_def
  by (intro sn_write sn_ack ex_sender_syn(1)) (simp_all add: sn_eval bs_eval)



text \<open>
  C4. \<open>fill_window\<close> neither loses, repeats nor reorders data: the payloads of the segments it
  queues, in order, are exactly the bytes it took from the front of the stream; each is kept
  for retransmission and carries at most 1000 bytes; and if anything is sent, what is then in
  flight fits the peer's window, a closed window counting as one byte.
\<close>

theorem fill_window_segments:
  assumes "sn_reach s"
  shows "\<exists>new. sn_segments_out (fill_window s) = sn_segments_out s @ new \<and>
    sn_segments_outstanding (fill_window s) = sn_segments_outstanding s @ new \<and>
    concat (map ts_payload new) @ bs_deq (sn_stream (fill_window s)) = bs_deq (sn_stream s) \<and>
    list_all (\<lambda>g. length (ts_payload g) \<le> 1000) new \<and>
    (new \<noteq> [] \<longrightarrow> unat (bytes_in_flight (fill_window s)) \<le> max 1 (unat (sn_window_size s)))"
  using fill_window_sends [OF sn_reach_wf [OF assms]]
  by (auto simp: sends_def bytes_in_flight_def)

theorem fill_window_segments_witness:
  "sn_reach ex_sender_open \<and>
   (\<exists>new. sn_segments_out (fill_window ex_sender_open) = sn_segments_out ex_sender_open @ new \<and>
      concat (map ts_payload new) @ bs_deq (sn_stream (fill_window ex_sender_open)) = [1, 2, 3, 4, 5] \<and>
      (new \<noteq> [] \<longrightarrow> unat (bytes_in_flight (fill_window ex_sender_open)) \<le> 3))"
  using fill_window_segments [OF ex_sender_open_reach] ex_sender_open_reach ex_sender_open_state
  by auto

text \<open>
  C9. \<open>fill_window\<close> does not stop early: once the SYN is out, it ends with an empty stream or a
  full window.
\<close>

theorem fill_window_fills:
  assumes "sn_reach s" and "sn_next_seqno s \<noteq> 0"
  shows "bs_deq (sn_stream (fill_window s)) = [] \<or>
    unat (sn_window_size s) \<le> unat (bytes_in_flight (fill_window s))"
proof -
  have wf: "sn_wf s" by (rule sn_reach_wf [OF assms(1)])
  then have wf': "bs_wf (sn_stream (fill_window s))"
    using fill_window_wf [OF wf] by (simp add: sn_wf_def sn_numbers_def)
  obtain new where new: "sends s new (fill_window s)" using fill_window_sends [OF wf] by blast
  consider "fin_due s" | "probe_due s" | "fill_window s = fill_loop s"
    using assms(2) unfolding fill_window_eq by presburger
  then show ?thesis
  proof cases
    case 1
    then have "bs_deq (sn_stream s) = []"
      using wf by (simp add: fin_due_def bs_eof_def buffer_empty_iff sn_wf_def sn_numbers_def)
    then show ?thesis using new by (simp add: sends_def)
  next
    case 2
    then show ?thesis by (simp add: probe_due_def)
  next
    case 3
    then have "\<not> fill_more (fill_window s)" using fill_loop_sends [OF wf assms(2)] by simp
    then show ?thesis
      using new unat_buffer_size [OF wf']
      by (auto simp: fill_more_def sends_def word_less_nat_alt bytes_in_flight_def not_less)
  qed
qed

theorem fill_window_fills_witness:
  "sn_reach ex_sender_open \<and> sn_next_seqno ex_sender_open \<noteq> 0 \<and>
   (bs_deq (sn_stream (fill_window ex_sender_open)) = [] \<or>
    3 \<le> unat (bytes_in_flight (fill_window ex_sender_open)))"
  using fill_window_fills [OF ex_sender_open_reach] ex_sender_open_reach ex_sender_open_state by simp

text \<open>
  C10. The retransmission timer: when the oldest outstanding segment has been out for the
  current timeout, \<open>tick\<close> queues exactly that segment again, keeps everything else that is
  outstanding, and, unless the peer's window is closed, counts the retransmission and doubles
  the timeout; before that it queues nothing.
\<close>

theorem tick_retransmits:
  assumes "sn_reach s" and "sn_timestamps_outstanding s = t # ts"
  shows "\<exists>g gs. sn_segments_outstanding s = g # gs \<and>
    sn_segments_outstanding (sn_tick s ms) = g # gs \<and>
    sn_segments_out (sn_tick s ms) = sn_segments_out s @
      (if sn_curr_RTO s \<le> sn_time s + ms - t then [g] else []) \<and>
    (if sn_curr_RTO s \<le> sn_time s + ms - t \<and> sn_window_size s \<noteq> 0
     then sn_curr_RTO (sn_tick s ms) = 2 * sn_curr_RTO s \<and>
       consecutive_retransmissions (sn_tick s ms) = consecutive_retransmissions s + 1
     else sn_curr_RTO (sn_tick s ms) = sn_curr_RTO s \<and>
       consecutive_retransmissions (sn_tick s ms) = consecutive_retransmissions s)"
proof -
  have "length (sn_segments_outstanding s) = length (sn_timestamps_outstanding s)"
    using sn_reach_wf [OF assms(1)] tiles_length by (fastforce simp: sn_wf_def sn_flight_def)
  then obtain g gs where "sn_segments_outstanding s = g # gs"
    using assms(2) by (cases "sn_segments_outstanding s") auto
  then show ?thesis
    using assms(2) by (simp add: sn_tick_def Let_def consecutive_retransmissions_def)
qed

theorem tick_retransmits_witness:
  "\<exists>g gs. sn_reach (fill_window ex_sender) \<and> sn_timestamps_outstanding (fill_window ex_sender) = [0] \<and>
     sn_segments_outstanding (fill_window ex_sender) = g # gs \<and>
     sn_segments_out (sn_tick (fill_window ex_sender) 1000) = sn_segments_out (fill_window ex_sender) @ [g]"
proof -
  have t: "sn_timestamps_outstanding (fill_window ex_sender) = [0]"
      "sn_curr_RTO (fill_window ex_sender) = 1000" "sn_time (fill_window ex_sender) = 0"
    by (simp_all add: sn_eval bs_eval)
  show ?thesis using tick_retransmits [OF ex_sender_syn(1) t(1), of 1000] ex_sender_syn(1) t by auto
qed

text \<open>
  An acknowledgment that arrives before the SYN was sent is accepted when it acknowledges the
  SYN, and \<open>_bytes_flying\<close> underflows.
\<close>

theorem ack_before_syn_underflows:
  "bytes_in_flight (ack_received ex_sender (WrappingInt32 8) 3) = - 1 \<and>
   sn_next_seqno (ack_received ex_sender (WrappingInt32 8) 3) = 0"
  by (simp add: sn_eval bs_eval bytes_in_flight_def)

end
