(* ===== verification/TCP_State.thy ===== *)
theory TCP_State
  imports TCP_Receiver TCP_Sender
begin

text \<open>
  \<open>TCPState\<close> (\<open>src/libsponge/tcp_helpers/tcp_state.hh\<close>, \<open>tcp_state.cc\<close>): the official states of
  RFC 793 as a view on a sender, a receiver and two flags of the connection. The summaries are
  strings, as they are in the code.
\<close>

section \<open>Summaries\<close>

definition RECEIVER_ERROR :: string where
  "RECEIVER_ERROR = ''error (connection was reset)''"

definition RECEIVER_LISTEN :: string where
  "RECEIVER_LISTEN = ''waiting for SYN: ackno is empty''"

definition RECEIVER_SYN_RECV :: string where
  "RECEIVER_SYN_RECV = ''SYN received (ackno exists), and input to stream hasn't ended''"

definition RECEIVER_FIN_RECV :: string where
  "RECEIVER_FIN_RECV = ''input to stream has ended''"

definition SENDER_ERROR :: string where
  "SENDER_ERROR = ''error (connection was reset)''"

definition SENDER_CLOSED :: string where
  "SENDER_CLOSED = ''waiting for stream to begin (no SYN sent)''"

definition SENDER_SYN_SENT :: string where
  "SENDER_SYN_SENT = ''stream started but nothing acknowledged''"

definition SENDER_SYN_ACKED :: string where
  "SENDER_SYN_ACKED = ''stream ongoing''"

definition SENDER_FIN_SENT :: string where
  "SENDER_FIN_SENT = ''stream finished (FIN sent) but not fully acknowledged''"

definition SENDER_FIN_ACKED :: string where
  "SENDER_FIN_ACKED = ''stream finished and fully acknowledged''"

definition receiver_summary :: "TCPReceiver \<Rightarrow> string" where
  "receiver_summary r =
     (if bs_error (rc_stream_out r) then RECEIVER_ERROR
      else if rc_ackno r = None then RECEIVER_LISTEN
      else if input_ended (rc_stream_out r) then RECEIVER_FIN_RECV
      else RECEIVER_SYN_RECV)"

definition sender_summary :: "TCPSender \<Rightarrow> string" where
  "sender_summary s =
     (if bs_error (sn_stream s) then SENDER_ERROR
      else if sn_next_seqno s = 0 then SENDER_CLOSED
      else if sn_next_seqno s = bytes_in_flight s then SENDER_SYN_SENT
      else if \<not> bs_eof (sn_stream s) then SENDER_SYN_ACKED
      else if sn_next_seqno s < bytes_written (sn_stream s) + 2 then SENDER_SYN_ACKED
      else if bytes_in_flight s \<noteq> 0 then SENDER_FIN_SENT
      else SENDER_FIN_ACKED)"

section \<open>States\<close>

record TCPState =
  st_sender :: string
  st_receiver :: string
  st_active :: bool
  st_linger_after_streams_finish :: bool

datatype State = LISTEN | SYN_RCVD | SYN_SENT | ESTABLISHED | CLOSE_WAIT | LAST_ACK | FIN_WAIT_1
  | FIN_WAIT_2 | CLOSING | TIME_WAIT | CLOSED | RESET

text \<open>The constructor from an official state.\<close>

fun TCPState_of :: "State \<Rightarrow> TCPState" where
  "TCPState_of LISTEN = \<lparr>st_sender = SENDER_CLOSED, st_receiver = RECEIVER_LISTEN,
     st_active = True, st_linger_after_streams_finish = True\<rparr>"
| "TCPState_of SYN_RCVD = \<lparr>st_sender = SENDER_SYN_SENT, st_receiver = RECEIVER_SYN_RECV,
     st_active = True, st_linger_after_streams_finish = True\<rparr>"
| "TCPState_of SYN_SENT = \<lparr>st_sender = SENDER_SYN_SENT, st_receiver = RECEIVER_LISTEN,
     st_active = True, st_linger_after_streams_finish = True\<rparr>"
| "TCPState_of ESTABLISHED = \<lparr>st_sender = SENDER_SYN_ACKED, st_receiver = RECEIVER_SYN_RECV,
     st_active = True, st_linger_after_streams_finish = True\<rparr>"
| "TCPState_of CLOSE_WAIT = \<lparr>st_sender = SENDER_SYN_ACKED, st_receiver = RECEIVER_FIN_RECV,
     st_active = True, st_linger_after_streams_finish = False\<rparr>"
| "TCPState_of LAST_ACK = \<lparr>st_sender = SENDER_FIN_SENT, st_receiver = RECEIVER_FIN_RECV,
     st_active = True, st_linger_after_streams_finish = False\<rparr>"
| "TCPState_of CLOSING = \<lparr>st_sender = SENDER_FIN_SENT, st_receiver = RECEIVER_FIN_RECV,
     st_active = True, st_linger_after_streams_finish = True\<rparr>"
| "TCPState_of FIN_WAIT_1 = \<lparr>st_sender = SENDER_FIN_SENT, st_receiver = RECEIVER_SYN_RECV,
     st_active = True, st_linger_after_streams_finish = True\<rparr>"
| "TCPState_of FIN_WAIT_2 = \<lparr>st_sender = SENDER_FIN_ACKED, st_receiver = RECEIVER_SYN_RECV,
     st_active = True, st_linger_after_streams_finish = True\<rparr>"
| "TCPState_of TIME_WAIT = \<lparr>st_sender = SENDER_FIN_ACKED, st_receiver = RECEIVER_FIN_RECV,
     st_active = True, st_linger_after_streams_finish = True\<rparr>"
| "TCPState_of RESET = \<lparr>st_sender = SENDER_ERROR, st_receiver = RECEIVER_ERROR,
     st_active = False, st_linger_after_streams_finish = False\<rparr>"
| "TCPState_of CLOSED = \<lparr>st_sender = SENDER_FIN_ACKED, st_receiver = RECEIVER_FIN_RECV,
     st_active = False, st_linger_after_streams_finish = False\<rparr>"

text \<open>The constructor from a sender and a receiver.\<close>

definition TCPState_view :: "TCPSender \<Rightarrow> TCPReceiver \<Rightarrow> bool \<Rightarrow> bool \<Rightarrow> TCPState" where
  "TCPState_view sender receiver active linger =
     \<lparr>st_sender = sender_summary sender, st_receiver = receiver_summary receiver,
      st_active = active, st_linger_after_streams_finish = (if active then linger else False)\<rparr>"

definition state_name :: "TCPState \<Rightarrow> string" where
  "state_name t = ''sender=`'' @ st_sender t @ ''`, receiver=`'' @ st_receiver t @ ''`, active='' @
     (if st_active t then ''1'' else ''0'') @ '', linger_after_streams_finish='' @
     (if st_linger_after_streams_finish t then ''1'' else ''0'')"

section \<open>Properties\<close>

lemmas summary_defs = RECEIVER_ERROR_def RECEIVER_LISTEN_def RECEIVER_SYN_RECV_def
  RECEIVER_FIN_RECV_def SENDER_ERROR_def SENDER_CLOSED_def SENDER_SYN_SENT_def
  SENDER_SYN_ACKED_def SENDER_FIN_SENT_def SENDER_FIN_ACKED_def

text \<open>
  The views of the official states are pairwise different, so comparing a connection
  with a state by them, as the code's tests do, identifies the state.
\<close>

theorem state_views_distinct: "TCPState_of a = TCPState_of b \<longleftrightarrow> a = b"
  by (cases a; cases b) (simp_all add: summary_defs)

end
