(* ===== verification/TCP_Connection.thy ===== *)
theory TCP_Connection
  imports TCP_State Transition
begin

text \<open>
  \<open>TCPConnection\<close> (\<open>src/libsponge/tcp_connection.hh\<close>, \<open>tcp_connection.cc\<close>, with the
  configuration of \<open>tcp_helpers/tcp_config.hh\<close>): a sender and a receiver tied together, the
  acknowledgment fields of outgoing segments, resets, and the rules for staying alive after
  both streams have finished.
\<close>

section \<open>State and operations\<close>

record TCPConfig =
  cfg_rt_timeout :: u16
  cfg_recv_capacity :: u64
  cfg_send_capacity :: u64
  cfg_fixed_isn :: "WrappingInt32 option"

definition TCPConfig_init :: TCPConfig where
  "TCPConfig_init = \<lparr>cfg_rt_timeout = 1000, cfg_recv_capacity = 64000, cfg_send_capacity = 64000,
     cfg_fixed_isn = None\<rparr>"

definition MAX_RETX_ATTEMPTS :: u32 where
  "MAX_RETX_ATTEMPTS = 8"

record TCPConnection =
  cn_cfg :: TCPConfig
  cn_receiver :: TCPReceiver
  cn_sender :: TCPSender
  cn_segments_out :: "TCPSegment list"
  cn_linger_after_streams_finish :: bool
  cn_time_last_segment_received :: u64
  cn_time :: u64
  cn_rst_received :: bool
  cn_rst_to_send :: bool
  cn_connect_called :: bool

definition TCPConnection_init :: "TCPConfig \<Rightarrow> u32 \<Rightarrow> TCPConnection" where
  "TCPConnection_init cfg random =
     \<lparr>cn_cfg = cfg, cn_receiver = TCPReceiver_init (cfg_recv_capacity cfg),
      cn_sender = TCPSender_init (cfg_send_capacity cfg) (cfg_rt_timeout cfg) (cfg_fixed_isn cfg) random,
      cn_segments_out = [], cn_linger_after_streams_finish = True,
      cn_time_last_segment_received = 0, cn_time = 0, cn_rst_received = False,
      cn_rst_to_send = False, cn_connect_called = False\<rparr>"

definition remaining_outbound_capacity :: "TCPConnection \<Rightarrow> u64" where
  "remaining_outbound_capacity c = remaining_capacity (sn_stream (cn_sender c))"

definition time_since_last_segment_received :: "TCPConnection \<Rightarrow> u64" where
  "time_since_last_segment_received c = cn_time c - cn_time_last_segment_received c"

definition cn_active :: "TCPConnection \<Rightarrow> bool" where
  "cn_active c =
     (if cn_rst_received c \<or> cn_rst_to_send c then False
      else if bs_eof (rc_stream_out (cn_receiver c)) \<and> bytes_in_flight (cn_sender c) = 0 \<and>
              bs_eof (sn_stream (cn_sender c))
      then if \<not> cn_linger_after_streams_finish c then False
           else if time_since_last_segment_received c \<ge> 10 * ucast (cfg_rt_timeout (cn_cfg c)) then False
           else True
      else True)"

definition cn_state :: "TCPConnection \<Rightarrow> TCPState" where
  "cn_state c = TCPState_view (cn_sender c) (cn_receiver c) (cn_active c)
     (cn_linger_after_streams_finish c)"

text \<open>The fields the connection fills in before a segment leaves.\<close>

definition cn_stamp :: "TCPConnection \<Rightarrow> TCPSegment \<Rightarrow> TCPSegment" where
  "cn_stamp c seg =
     (let seg = (case rc_ackno (cn_receiver c) of None \<Rightarrow> seg
                 | Some a \<Rightarrow> seg\<lparr>ts_header := (ts_header seg)\<lparr>th_ack := True, th_ackno := a,
                     th_win := ucast (min (rc_window_size (cn_receiver c)) 65535)\<rparr>\<rparr>)
      in if cn_rst_to_send c then seg\<lparr>ts_header := (ts_header seg)\<lparr>th_rst := True\<rparr>\<rparr> else seg)"

fun send_loop :: "TCPSegment list \<Rightarrow> TCPConnection \<Rightarrow> TCPConnection" where
  "send_loop [] c = c"
| "send_loop (seg # q) c =
     send_loop q (c\<lparr>cn_segments_out := cn_segments_out c @ [cn_stamp c seg],
                    cn_sender := (cn_sender c)\<lparr>sn_segments_out := q\<rparr>\<rparr>)"

definition send_segments :: "TCPConnection \<Rightarrow> TCPConnection" where
  "send_segments c = send_loop (sn_segments_out (cn_sender c)) c"

text \<open>\<open>stream_in().set_error()\<close> and \<open>stream_out().set_error()\<close>.\<close>

definition cn_set_errors :: "TCPConnection \<Rightarrow> TCPConnection" where
  "cn_set_errors c =
     c\<lparr>cn_sender := (cn_sender c)\<lparr>sn_stream := set_error (sn_stream (cn_sender c))\<rparr>,
       cn_receiver := rc_set_stream_out (cn_receiver c) (set_error (rc_stream_out (cn_receiver c)))\<rparr>"

definition cn_fill :: "TCPConnection \<Rightarrow> TCPConnection" where
  "cn_fill c = send_segments (c\<lparr>cn_sender := fill_window (cn_sender c)\<rparr>)"

definition connect :: "TCPConnection \<Rightarrow> TCPConnection" where
  "connect c = cn_fill (c\<lparr>cn_connect_called := True\<rparr>)"

definition cn_write :: "TCPConnection \<Rightarrow> bytes \<Rightarrow> TCPConnection \<times> u64" where
  "cn_write c data =
     (let (st, ans) = bs_write (sn_stream (cn_sender c)) data
      in (cn_fill (c\<lparr>cn_sender := (cn_sender c)\<lparr>sn_stream := st\<rparr>\<rparr>), ans))"

definition end_input_stream :: "TCPConnection \<Rightarrow> TCPConnection" where
  "end_input_stream c =
     cn_fill (c\<lparr>cn_sender := (cn_sender c)\<lparr>sn_stream := end_input (sn_stream (cn_sender c))\<rparr>\<rparr>)"

definition cn_tick :: "TCPConnection \<Rightarrow> u64 \<Rightarrow> TCPConnection" where
  "cn_tick c ms_since_last_tick =
     (let c = c\<lparr>cn_time := cn_time c + ms_since_last_tick,
                cn_sender := sn_tick (cn_sender c) ms_since_last_tick\<rparr>;
          c = (if consecutive_retransmissions (cn_sender c) > MAX_RETX_ATTEMPTS
               then cn_set_errors (c\<lparr>cn_rst_to_send := True\<rparr>) else c)
      in send_segments c)"

definition cn_needs_reply :: "TCPConnection \<Rightarrow> TCPSegment \<Rightarrow> bool" where
  "cn_needs_reply c seg \<longleftrightarrow>
     (case rc_ackno (cn_receiver c) of None \<Rightarrow> False
      | Some a \<Rightarrow> length_in_sequence_space seg = 0 \<and> th_seqno (ts_header seg) = wi_minus a 1) \<or>
     length_in_sequence_space seg > 0"

definition cn_segment_received :: "TCPConnection \<Rightarrow> TCPSegment \<Rightarrow> TCPConnection res" where
  "cn_segment_received c seg =
     (let header = ts_header seg;
          c = (if th_ack header
               then c\<lparr>cn_sender := ack_received (cn_sender c) (th_ackno header) (th_win header)\<rparr> else c)
      in
      bindE (if length_in_sequence_space seg \<noteq> 0
             then bindE (rc_segment_received (cn_receiver c) seg) (\<lambda>r. Inr (c\<lparr>cn_receiver := r\<rparr>))
             else Inr c) (\<lambda>c.
        if th_syn header \<and> \<not> th_ack header \<and> \<not> cn_connect_called c then Inr (connect c)
        else
          let c = (if th_rst header \<and> cn_connect_called c \<and> cn_active c
                   then cn_set_errors (c\<lparr>cn_rst_received := True\<rparr>) else c);
              c = c\<lparr>cn_time_last_segment_received := cn_time c\<rparr>;
              c = (if cn_needs_reply c seg
                   then c\<lparr>cn_sender := send_empty_segment (cn_sender c)\<rparr> else c);
              c = (if th_fin header \<and> \<not> bs_eof (sn_stream (cn_sender c))
                   then c\<lparr>cn_linger_after_streams_finish := False\<rparr> else c)
          in Inr (send_segments c)))"

text \<open>The destructor, as far as it touches the connection.\<close>

definition cn_destroy :: "TCPConnection \<Rightarrow> TCPConnection" where
  "cn_destroy c =
     (if cn_active c then
        let c = cn_set_errors (c\<lparr>cn_rst_to_send := True\<rparr>);
            c = c\<lparr>cn_sender := send_empty_segment (cn_sender c)\<rparr>
        in send_segments c
      else c)"

section \<open>Invariant\<close>

definition cn_wf :: "TCPConnection \<Rightarrow> bool" where
  "cn_wf c \<longleftrightarrow> sn_wf (cn_sender c) \<and> rc_wf (cn_receiver c) \<and> sn_segments_out (cn_sender c) = []"

definition cn_parts_wf :: "TCPConnection \<Rightarrow> bool" where
  "cn_parts_wf c \<longleftrightarrow> sn_wf (cn_sender c) \<and> rc_wf (cn_receiver c)"

lemma cn_stamp_frame: "cn_stamp (c\<lparr>cn_segments_out := q, cn_sender := s\<rparr>) = cn_stamp c"
  by (simp add: fun_eq_iff cn_stamp_def Let_def split: option.split)

lemma send_loop_eq:
  "send_loop q c = c\<lparr>cn_segments_out := cn_segments_out c @ map (cn_stamp c) q,
     cn_sender := (cn_sender c)\<lparr>sn_segments_out := (if q = [] then sn_segments_out (cn_sender c) else [])\<rparr>\<rparr>"
  by (induction q arbitrary: c) (simp_all add: cn_stamp_frame)

lemma send_segments_eq:
  "send_segments c = c\<lparr>cn_segments_out := cn_segments_out c @
       map (cn_stamp c) (sn_segments_out (cn_sender c)),
     cn_sender := (cn_sender c)\<lparr>sn_segments_out := []\<rparr>\<rparr>"
  by (simp add: send_segments_def send_loop_eq)

lemma sn_wf_queue: "sn_wf (s\<lparr>sn_segments_out := q\<rparr>) = sn_wf s"
  by (simp add: sn_wf_def sn_flight_def sn_numbers_def)

lemma send_segments_wf: "cn_parts_wf c \<Longrightarrow> cn_wf (send_segments c)"
  by (simp add: cn_wf_def cn_parts_wf_def send_segments_eq sn_wf_queue)

lemma cn_set_errors_wf: "cn_parts_wf c \<Longrightarrow> cn_parts_wf (cn_set_errors c)"
  by (auto simp: cn_parts_wf_def cn_set_errors_def sn_wf_def sn_flight_def sn_numbers_def rc_wf_def
      rc_set_stream_out_def rc_stream_out_def sr_wf_def bytes_written_def set_error_def bs_wf_def)

lemma cn_fill_wf: "cn_parts_wf c \<Longrightarrow> cn_wf (cn_fill c)"
  by (simp add: cn_fill_def send_segments_wf cn_parts_wf_def fill_window_wf)

lemma connect_wf: "cn_parts_wf c \<Longrightarrow> cn_wf (connect c)"
  by (simp add: connect_def cn_fill_wf cn_parts_wf_def)

lemma cn_tick_wf: "cn_parts_wf c \<Longrightarrow> cn_wf (cn_tick c ms)"
proof -
  assume wf: "cn_parts_wf c"
  let ?c1 = "c\<lparr>cn_time := cn_time c + ms, cn_sender := sn_tick (cn_sender c) ms\<rparr>"
  have wf1: "cn_parts_wf ?c1" using wf by (simp add: cn_parts_wf_def sn_tick_wf)
  then have "cn_parts_wf (cn_set_errors (?c1\<lparr>cn_rst_to_send := True\<rparr>))"
    by (intro cn_set_errors_wf) (simp add: cn_parts_wf_def)
  with wf1 show ?thesis by (simp add: cn_tick_def Let_def send_segments_wf)
qed

text \<open>A segment that can be handled: the receiver's stream is not exhausted, and acknowledgments
  come after the SYN was sent.\<close>

definition cn_accepts :: "TCPConnection \<Rightarrow> TCPSegment \<Rightarrow> bool" where
  "cn_accepts c seg \<longleftrightarrow> rc_room (cn_receiver c) seg \<and>
     (th_ack (ts_header seg) \<longrightarrow> sn_next_seqno (cn_sender c) \<noteq> 0)"

lemma cn_relay_wf:
  assumes "cn_parts_wf c" "rc_room (cn_receiver c) seg"
  shows "\<exists>c'. cn_parts_wf c' \<and> (if length_in_sequence_space seg \<noteq> 0
    then bindE (rc_segment_received (cn_receiver c) seg) (\<lambda>r. Inr (c\<lparr>cn_receiver := r\<rparr>))
    else Inr c) = Inr c'"
  using assms rc_segment_received_ok [of "cn_receiver c" seg]
  by (cases "length_in_sequence_space seg = 0") (auto simp: cn_parts_wf_def)

lemma cn_segment_received_wf:
  assumes wf: "cn_parts_wf c" and acc: "cn_accepts c seg"
  shows "\<exists>c'. cn_segment_received c seg = Inr c' \<and> cn_wf c'"
proof -
  let ?h = "ts_header seg"
  let ?c1 = "if th_ack ?h then c\<lparr>cn_sender := ack_received (cn_sender c) (th_ackno ?h) (th_win ?h)\<rparr> else c"
  have wf1: "cn_parts_wf ?c1" and r1: "cn_receiver ?c1 = cn_receiver c"
    using wf acc ack_received_wf by (auto simp: cn_parts_wf_def cn_accepts_def)
  have room: "rc_room (cn_receiver ?c1) seg" using acc r1 by (simp add: cn_accepts_def)
  obtain c2 where c2: "cn_parts_wf c2" "(if length_in_sequence_space seg \<noteq> 0
        then bindE (rc_segment_received (cn_receiver ?c1) seg) (\<lambda>r. Inr (?c1\<lparr>cn_receiver := r\<rparr>))
        else Inr ?c1) = Inr c2"
    using cn_relay_wf [OF wf1 room] by blast
  let ?c3 = "if th_rst ?h \<and> cn_connect_called c2 \<and> cn_active c2
    then cn_set_errors (c2\<lparr>cn_rst_received := True\<rparr>) else c2"
  have "cn_parts_wf (cn_set_errors (c2\<lparr>cn_rst_received := True\<rparr>))"
    using c2(1) by (intro cn_set_errors_wf) (simp add: cn_parts_wf_def)
  then have wf3: "cn_parts_wf ?c3" using c2(1) by simp
  let ?c4 = "?c3\<lparr>cn_time_last_segment_received := cn_time ?c3\<rparr>"
  let ?c5 = "if cn_needs_reply ?c4 seg then ?c4\<lparr>cn_sender := send_empty_segment (cn_sender ?c4)\<rparr> else ?c4"
  have wf5: "cn_parts_wf ?c5" using wf3 by (simp add: cn_parts_wf_def send_empty_segment_wf)
  let ?c6 = "if th_fin ?h \<and> \<not> bs_eof (sn_stream (cn_sender ?c5))
    then ?c5\<lparr>cn_linger_after_streams_finish := False\<rparr> else ?c5"
  have wf6: "cn_wf (send_segments ?c6)"
    using wf5 by (intro send_segments_wf) (simp add: cn_parts_wf_def)
  have "cn_segment_received c seg = Inr (if th_syn ?h \<and> \<not> th_ack ?h \<and> \<not> cn_connect_called c2
      then connect c2 else send_segments ?c6)"
    unfolding cn_segment_received_def Let_def c2(2) by simp
  then show ?thesis using wf6 connect_wf [OF c2(1)] by simp
qed

text \<open>What holds after \<open>segment_received\<close>, step by step: the acknowledgment, the receiver, then
  either the passive open or the reset, the clock, the reply and the linger flag.\<close>

lemma cn_segment_received_induct [consumes 1, case_names plain ack recv connect reset time reply linger send]:
  assumes recv: "cn_segment_received c seg = Inr c'"
    and plain: "\<not> th_ack (ts_header seg) \<Longrightarrow> P c"
    and ack: "th_ack (ts_header seg) \<Longrightarrow>
      P (c\<lparr>cn_sender := ack_received (cn_sender c) (th_ackno (ts_header seg)) (th_win (ts_header seg))\<rparr>)"
    and segment: "\<And>c1 r. P c1 \<Longrightarrow> cn_receiver c1 = cn_receiver c \<Longrightarrow> length_in_sequence_space seg \<noteq> 0 \<Longrightarrow>
      rc_segment_received (cn_receiver c) seg = Inr r \<Longrightarrow> P (c1\<lparr>cn_receiver := r\<rparr>)"
    and connect: "\<And>c1. P c1 \<Longrightarrow> P (connect c1)"
    and reset: "\<And>c1. P c1 \<Longrightarrow> P (cn_set_errors (c1\<lparr>cn_rst_received := True\<rparr>))"
    and time: "\<And>c1. P c1 \<Longrightarrow> P (c1\<lparr>cn_time_last_segment_received := cn_time c1\<rparr>)"
    and reply: "\<And>c1. P c1 \<Longrightarrow> P (c1\<lparr>cn_sender := send_empty_segment (cn_sender c1)\<rparr>)"
    and linger: "\<And>c1. P c1 \<Longrightarrow> P (c1\<lparr>cn_linger_after_streams_finish := False\<rparr>)"
    and send: "\<And>c1. P c1 \<Longrightarrow> P (send_segments c1)"
  shows "P c'"
proof -
  let ?h = "ts_header seg"
  let ?c1 = "if th_ack ?h then c\<lparr>cn_sender := ack_received (cn_sender c) (th_ackno ?h) (th_win ?h)\<rparr> else c"
  have c1: "P ?c1" "cn_receiver ?c1 = cn_receiver c" using plain ack by simp_all
  obtain c2 where c2: "(if length_in_sequence_space seg \<noteq> 0
        then bindE (rc_segment_received (cn_receiver ?c1) seg) (\<lambda>r. Inr (?c1\<lparr>cn_receiver := r\<rparr>))
        else Inr ?c1) = Inr c2"
    using recv unfolding cn_segment_received_def Let_def bindE_eq_Inr by blast
  have "P c2"
  proof (cases "length_in_sequence_space seg = 0")
    case False
    then obtain r where r: "rc_segment_received (cn_receiver c) seg = Inr r" "c2 = ?c1\<lparr>cn_receiver := r\<rparr>"
      using c2 unfolding c1(2) by (auto simp: bindE_eq_Inr)
    show ?thesis unfolding r(2) by (rule segment [OF c1 False r(1)])
  qed (use c2 c1 in simp)
  define c3 where "c3 = (if th_rst ?h \<and> cn_connect_called c2 \<and> cn_active c2
    then cn_set_errors (c2\<lparr>cn_rst_received := True\<rparr>) else c2)"
  define c4 where "c4 = c3\<lparr>cn_time_last_segment_received := cn_time c3\<rparr>"
  define c5 where "c5 = (if cn_needs_reply c4 seg then c4\<lparr>cn_sender := send_empty_segment (cn_sender c4)\<rparr> else c4)"
  define c6 where "c6 = (if th_fin ?h \<and> \<not> bs_eof (sn_stream (cn_sender c5))
    then c5\<lparr>cn_linger_after_streams_finish := False\<rparr> else c5)"
  have "P c3" using \<open>P c2\<close> reset by (simp add: c3_def)
  then have "P c4" unfolding c4_def by (rule time)
  then have "P c5" using reply by (simp add: c5_def)
  then have "P c6" using linger by (simp add: c6_def)
  moreover have "c' = (if th_syn ?h \<and> \<not> th_ack ?h \<and> \<not> cn_connect_called c2 then connect c2 else send_segments c6)"
    using recv unfolding cn_segment_received_def Let_def c2 bindE_Inr
    by (simp only: c3_def c4_def c5_def c6_def split: if_splits) simp_all
  ultimately show ?thesis using \<open>P c2\<close> connect send by simp
qed

section \<open>The life of a connection\<close>

definition cn_start :: "TCPConnection \<Rightarrow> bool" where
  "cn_start c \<longleftrightarrow> (\<exists>cfg random. c = TCPConnection_init cfg random \<and>
     0 < unat (cfg_recv_capacity cfg) \<and> unat (cfg_recv_capacity cfg) < 9223372036854775808)"

text \<open>The calls of the owner: connect, write, end of input, a segment from the network, the clock,
  reading from the inbound stream, and taking segments from the outbound queue.\<close>

inductive cn_step :: "TCPConnection \<Rightarrow> TCPConnection \<Rightarrow> bool" where
  step_connect: "cn_step c (connect c)"
| step_write: "unat (bs_bytes_readed (sn_stream (cn_sender c))) +
    length (bs_deq (sn_stream (cn_sender c))) + length d < 9223372036854775808 \<Longrightarrow>
    cn_step c (fst (cn_write c d))"
| step_end: "cn_step c (end_input_stream c)"
| step_segment: "cn_accepts c seg \<Longrightarrow> cn_segment_received c seg = Inr c' \<Longrightarrow> cn_step c c'"
| step_tick: "cn_step c (cn_tick c ms)"
| step_read: "cn_step c (c\<lparr>cn_receiver := rc_set_stream_out (cn_receiver c)
    (fst (bs_read (rc_stream_out (cn_receiver c)) len))\<rparr>)"
| step_pop: "cn_step c (c\<lparr>cn_segments_out := tl (cn_segments_out c)\<rparr>)"

lemma cn_wf_parts: "cn_wf c \<Longrightarrow> cn_parts_wf c"
  by (simp add: cn_wf_def cn_parts_wf_def)

interpretation connection: machine_invariant cn_start cn_step cn_wf
proof unfold_locales
  fix c assume "cn_start c"
  then show "cn_wf c"
    by (auto simp: cn_start_def cn_wf_def TCPConnection_init_def TCPSender_init_wf TCPReceiver_init_wf)
      (simp add: TCPSender_init_def)
next
  fix c c' assume wf: "cn_wf c" and "cn_step c c'"
  from this(2) wf cn_wf_parts [OF wf] show "cn_wf c'"
  proof (induction rule: cn_step.induct)
    case (step_write c d)
    then show ?case
      using sn_write_wf [of "cn_sender c" d]
      by (simp add: cn_write_def split_def Let_def cn_fill_wf cn_parts_wf_def)
  next
    case (step_end c)
    then show ?case by (simp add: end_input_stream_def cn_fill_wf cn_parts_wf_def sn_end_wf)
  next
    case (step_segment c seg c')
    then show ?case using cn_segment_received_wf by fastforce
  next
    case (step_read c len)
    then show ?case using rc_read_wf by (simp add: cn_wf_def)
  qed (simp_all add: connect_wf cn_tick_wf, simp add: cn_wf_def)
qed

section \<open>Properties\<close>



text \<open>
  Every segment that leaves carries the receiver's feedback: \<open>send_segments\<close> moves the whole
  queue of the sender, in order, to the outbound queue, and once a SYN has been received each
  moved segment has the ACK flag, the receiver's acknowledgment number and its window, cut off
  at 65535; the RST flag is set exactly when the connection is being reset.
\<close>

theorem send_segments_stamps:
  "sn_segments_out (cn_sender (send_segments c)) = [] \<and>
   (\<exists>new. cn_segments_out (send_segments c) = cn_segments_out c @ new \<and>
      list_all2 (\<lambda>g g'. ts_payload g' = ts_payload g \<and>
        th_seqno (ts_header g') = th_seqno (ts_header g) \<and>
        th_syn (ts_header g') = th_syn (ts_header g) \<and> th_fin (ts_header g') = th_fin (ts_header g) \<and>
        th_rst (ts_header g') = (cn_rst_to_send c \<or> th_rst (ts_header g)) \<and>
        (if rc_syn (cn_receiver c)
         then th_ack (ts_header g') \<and> th_ackno (ts_header g') = rc_ack (cn_receiver c) \<and>
           unat (th_win (ts_header g')) = min (unat (rc_window_size (cn_receiver c))) 65535
         else th_ack (ts_header g') = th_ack (ts_header g)))
        (sn_segments_out (cn_sender c)) new)"
proof -
  have win: "unat (ucast (min w 65535 :: u64) :: u16) = min (unat w) 65535" for w
    by (simp add: unat_ucast_mod unat_min)
  show ?thesis
    unfolding send_segments_eq
    by (auto simp: list_all2_conv_all_nth cn_stamp_def rc_ackno_def Let_def win)
qed

section \<open>The handshake\<close>

definition syn_segment :: "WrappingInt32 \<Rightarrow> TCPSegment" where
  "syn_segment isn = TCPSegment_init\<lparr>ts_header := TCPHeader_init\<lparr>th_syn := True, th_seqno := isn\<rparr>\<rparr>"

lemma fill_window_init:
  "fill_window (TCPSender_init cap rt isn random) = (TCPSender_init cap rt isn random)
     \<lparr>sn_segments_out := [syn_segment (sn_isn (TCPSender_init cap rt isn random))],
      sn_segments_outstanding := [syn_segment (sn_isn (TCPSender_init cap rt isn random))],
      sn_next_seqno := 1, sn_seqnos_abs_outstanding := [1], sn_timestamps_outstanding := [0],
      sn_bytes_flying := 1\<rparr>"
  by (simp add: fill_window_def send_syn_def sn_emit_def TCPSender_init_def syn_segment_def Let_def)

text \<open>A sender with nothing but its SYN sent, when the SYN is acknowledged.\<close>

lemma wrap_1_neq: "wrap 1 isn \<noteq> isn"
proof
  assume "wrap 1 isn = isn"
  then have "raw_value isn = raw_value isn + 1" using wrap_raw [of 1 isn] by simp
  then show False by simp
qed

lemma unwrap_wrap_1: "unwrap (wrap 1 isn) isn 0 = 1"
  by (rule unwrap_near_inverse) simp_all

lemma find_true_replicate: "find_true (replicate n True) = 0"
  by (cases n) simp_all

lemma push_empty_init:
  assumes "c \<noteq> 0"
  shows "push_substring (StreamReassembler_init c) [] i False = Inr (StreamReassembler_init c)"
proof -
  have "0 < unat c" using assms by (simp add: unat_gt_0)
  then have "write_to_bytestream (StreamReassembler_init c) = Inr (StreamReassembler_init c)"
    using assms
    by (simp add: write_to_bytestream_def StreamReassembler_init_def emit_run_def str_substr_def
        find_true_replicate vec_fill_def Let_def bs_write_def)
  then show ?thesis
    by (simp add: push_substring_def write_to_aux_def Let_def) (simp add: StreamReassembler_init_def)
qed

lemma rc_syn_init:
  assumes "c \<noteq> 0" "th_syn (ts_header g)" "\<not> th_fin (ts_header g)" "ts_payload g = []"
  shows "rc_segment_received (TCPReceiver_init c) g = Inr ((TCPReceiver_init c)\<lparr>rc_syn := True,
    rc_isn := th_seqno (ts_header g), rc_ack := wrap 1 (th_seqno (ts_header g))\<rparr>)"
proof -
  have "push_substring (rc_reassembler (TCPReceiver_init c)) (ts_payload g)
      (rc_index (TCPReceiver_init c) g) (rc_eof (TCPReceiver_init c) \<or> th_fin (ts_header g)) =
      Inr (StreamReassembler_init c)"
    using assms push_empty_init by (simp add: TCPReceiver_init_def)
  from rc_segment_received_eq [OF _ this] assms show ?thesis
    by (simp add: rc_after_def rc_len_after_def rc_isn_after_def TCPReceiver_init_def Let_def)
      (simp add: StreamReassembler_init_def ByteStream_init_def)
qed

text \<open>The sender once its SYN is out, and once the SYN is acknowledged.\<close>

definition sender_syn_sent :: "TCPConfig \<Rightarrow> u32 \<Rightarrow> TCPSender" where
  "sender_syn_sent cfg random =
     (let s = TCPSender_init (cfg_send_capacity cfg) (cfg_rt_timeout cfg) (cfg_fixed_isn cfg) random
      in s\<lparr>sn_segments_outstanding := [syn_segment (sn_isn s)], sn_next_seqno := 1,
           sn_seqnos_abs_outstanding := [1], sn_timestamps_outstanding := [0], sn_bytes_flying := 1\<rparr>)"

definition sender_syn_acked :: "TCPConfig \<Rightarrow> u32 \<Rightarrow> u16 \<Rightarrow> TCPSender" where
  "sender_syn_acked cfg random w = (sender_syn_sent cfg random)\<lparr>sn_window_size := ucast w,
     sn_curr_RTO := ucast (cfg_rt_timeout cfg), sn_ack_abs := 1, sn_segments_outstanding := [],
     sn_seqnos_abs_outstanding := [], sn_timestamps_outstanding := [], sn_bytes_flying := 0\<rparr>"

definition cfg_isn :: "TCPConfig \<Rightarrow> u32 \<Rightarrow> WrappingInt32" where
  "cfg_isn cfg random = (case cfg_fixed_isn cfg of Some n \<Rightarrow> n | None \<Rightarrow> WrappingInt32 random)"

lemma fill_window_idle:
  "fill_window (sender_syn_acked cfg random w) = sender_syn_acked cfg random w"
proof -
  let ?s = "sender_syn_acked cfg random w"
  have "sn_stream ?s = ByteStream_init (cfg_send_capacity cfg)" "sn_next_seqno ?s \<noteq> 0"
    by (simp_all add: sender_syn_acked_def sender_syn_sent_def TCPSender_init_def Let_def)
  then have "\<not> fin_due ?s" "\<not> probe_due ?s" "\<not> fill_more ?s" "sn_next_seqno ?s \<noteq> 0"
    by (simp_all add: fin_due_def probe_due_def fill_more_def bs_eof_def input_ended_def
        buffer_size_def ByteStream_init_def)
  then show ?thesis by (simp add: fill_window_eq fill_loop.simps [of ?s])
qed

lemma ucast_16_32_64: "ucast (ucast (x :: u16) :: u32) = (ucast x :: u64)"
  using u16_bound [of x] by (simp add: word_unat_eq_iff unat_ucast_mod)

lemma ack_of_syn:
  "ack_received (sender_syn_sent cfg random) (wrap 1 (cfg_isn cfg random)) w =
   sender_syn_acked cfg random w"
proof -
  have "unwrap (wrap 1 (cfg_isn cfg random)) (sn_isn (sender_syn_sent cfg random)) 0 = 1"
    using unwrap_wrap_1 [of "cfg_isn cfg random"]
    by (simp add: sender_syn_sent_def TCPSender_init_def cfg_isn_def Let_def)
  moreover have "sender_syn_acked cfg random w = (sender_syn_sent cfg random)\<lparr>sn_window_size := ucast w,
     sn_curr_RTO := ucast (sn_initial_retransmission_timeout (sender_syn_sent cfg random)),
     sn_bytes_flying := 0, sn_ack_abs := 1, sn_consec_retrans := 0, sn_seqnos_abs_outstanding := [],
     sn_segments_outstanding := [], sn_timestamps_outstanding := []\<rparr>"
    by (simp add: sender_syn_acked_def sender_syn_sent_def TCPSender_init_def ucast_16_32_64 Let_def)
  moreover have "bytes_read (sn_stream (sender_syn_sent cfg random)) = 0"
      "sn_ack_abs (sender_syn_sent cfg random) = 0" "\<not> sn_fin_sent (sender_syn_sent cfg random)"
      "sn_bytes_flying (sender_syn_sent cfg random) = 1"
      "sn_seqnos_abs_outstanding (sender_syn_sent cfg random) = [1]"
      "sn_segments_outstanding (sender_syn_sent cfg random) = [syn_segment (cfg_isn cfg random)]"
      "sn_timestamps_outstanding (sender_syn_sent cfg random) = [0]"
    by (simp_all add: sender_syn_sent_def TCPSender_init_def ByteStream_init_def bytes_read_def
        cfg_isn_def Let_def)
  ultimately show ?thesis
    using fill_window_idle [of cfg random w] by (simp add: ack_received_def Let_def)
qed

definition receiver_synced :: "TCPConfig \<Rightarrow> WrappingInt32 \<Rightarrow> TCPReceiver" where
  "receiver_synced cfg isn = (TCPReceiver_init (cfg_recv_capacity cfg))\<lparr>rc_syn := True,
     rc_isn := isn, rc_ack := wrap 1 isn\<rparr>"

lemma connect_fresh:
  assumes "cn_sender c = cn_sender (TCPConnection_init cfg random)"
  shows "connect c = c\<lparr>cn_connect_called := True, cn_sender := sender_syn_sent cfg random,
    cn_segments_out := cn_segments_out c @ [cn_stamp c (syn_segment (cfg_isn cfg random))]\<rparr>"
proof -
  have "cn_stamp (c\<lparr>cn_connect_called := True, cn_sender := s\<rparr>) = cn_stamp c" for s
    by (simp add: fun_eq_iff cn_stamp_def Let_def split: option.split)
  then show ?thesis
    using assms
    by (simp add: connect_def cn_fill_def send_segments_eq TCPConnection_init_def fill_window_init)
      (simp add: sender_syn_sent_def TCPSender_init_def cfg_isn_def Let_def)
qed

lemma cn_stamp_synced:
  assumes "cn_receiver c = receiver_synced cfg isn" "\<not> cn_rst_to_send c"
  shows "cn_stamp c g = g\<lparr>ts_header := (ts_header g)\<lparr>th_ack := True, th_ackno := wrap 1 isn,
    th_win := ucast (min (rc_window_size (receiver_synced cfg isn)) 65535)\<rparr>\<rparr>"
  using assms by (simp add: cn_stamp_def rc_ackno_def Let_def receiver_synced_def)

lemma summaries:
  "sender_summary (cn_sender (TCPConnection_init cfg random)) = SENDER_CLOSED"
  "sender_summary (sender_syn_sent cfg random) = SENDER_SYN_SENT"
  "sender_summary (sender_syn_acked cfg random w) = SENDER_SYN_ACKED"
  "receiver_summary (cn_receiver (TCPConnection_init cfg random)) = RECEIVER_LISTEN"
  "receiver_summary (receiver_synced cfg isn) = RECEIVER_SYN_RECV"
  by (simp_all add: sender_summary_def receiver_summary_def TCPConnection_init_def sender_syn_sent_def
      sender_syn_acked_def receiver_synced_def TCPSender_init_def TCPReceiver_init_def
      ByteStream_init_def StreamReassembler_init_def rc_stream_out_def rc_ackno_def input_ended_def
      bytes_in_flight_def bs_eof_def Let_def)

lemma active_open:
  assumes "\<not> cn_rst_received c" "\<not> cn_rst_to_send c" "\<not> input_ended (sn_stream (cn_sender c))"
  shows "cn_active c"
  using assms by (simp add: cn_active_def bs_eof_def)

lemma input_open:
  "\<not> input_ended (sn_stream (cn_sender (TCPConnection_init cfg random)))"
  "\<not> input_ended (sn_stream (sender_syn_sent cfg random))"
  "\<not> input_ended (sn_stream (sender_syn_acked cfg random w))"
  by (simp_all add: TCPConnection_init_def sender_syn_sent_def sender_syn_acked_def TCPSender_init_def
      ByteStream_init_def input_ended_def Let_def)

lemma conn_init_fields [simp]:
  "cn_receiver (TCPConnection_init cfg random) = TCPReceiver_init (cfg_recv_capacity cfg)"
  "cn_segments_out (TCPConnection_init cfg random) = []"
  "cn_rst_received (TCPConnection_init cfg random) = False"
  "cn_rst_to_send (TCPConnection_init cfg random) = False"
  "cn_connect_called (TCPConnection_init cfg random) = False"
  "cn_linger_after_streams_finish (TCPConnection_init cfg random) = True"
  by (simp_all add: TCPConnection_init_def)

text \<open>The passive side gets the SYN.\<close>

lemma server_gets_syn:
  fixes cfg random isn
  assumes "cfg_recv_capacity cfg \<noteq> 0"
  defines "c \<equiv> (TCPConnection_init cfg random)\<lparr>cn_receiver := receiver_synced cfg isn\<rparr>"
  shows "cn_segment_received (TCPConnection_init cfg random) (syn_segment isn) =
    Inr (c\<lparr>cn_connect_called := True, cn_sender := sender_syn_sent cfg random,
      cn_segments_out := [cn_stamp c (syn_segment (cfg_isn cfg random))]\<rparr>)"
proof -
  have g: "th_syn (ts_header (syn_segment isn))" "\<not> th_fin (ts_header (syn_segment isn))"
      "\<not> th_ack (ts_header (syn_segment isn))" "ts_payload (syn_segment isn) = []"
      "th_seqno (ts_header (syn_segment isn)) = isn"
    by (simp_all add: syn_segment_def TCPSegment_init_def TCPHeader_init_def)
  then have "length_in_sequence_space (syn_segment isn) \<noteq> 0"
    by (simp add: length_in_sequence_space_def)
  then have "cn_segment_received (TCPConnection_init cfg random) (syn_segment isn) = Inr (connect c)"
    using g rc_syn_init [OF assms(1) g(1,2,4)]
    by (simp add: cn_segment_received_def c_def receiver_synced_def)
  then show ?thesis using connect_fresh [of c cfg random] by (simp add: c_def)
qed

text \<open>The active side gets the SYN and ACK, and answers with an ACK.\<close>

lemma client_gets_synack:
  fixes c cfg random isn w
  assumes c: "cfg_recv_capacity cfg \<noteq> 0" "cn_receiver c = TCPReceiver_init (cfg_recv_capacity cfg)"
      "cn_sender c = sender_syn_sent cfg random" "cn_connect_called c" "\<not> cn_rst_to_send c"
    and g: "th_syn (ts_header g)" "\<not> th_fin (ts_header g)" "\<not> th_rst (ts_header g)"
      "th_ack (ts_header g)" "th_ackno (ts_header g) = wrap 1 (cfg_isn cfg random)"
      "ts_payload g = []" "th_seqno (ts_header g) = isn" "th_win (ts_header g) = w"
  defines "c' \<equiv> c\<lparr>cn_receiver := receiver_synced cfg isn, cn_sender := sender_syn_acked cfg random w,
    cn_time_last_segment_received := cn_time c\<rparr>"
  shows "cn_segment_received c g = Inr (c'\<lparr>cn_segments_out := cn_segments_out c @
    [cn_stamp c' (TCPSegment_init\<lparr>ts_header := TCPHeader_init\<lparr>th_seqno := wrap 1 (cfg_isn cfg random)\<rparr>\<rparr>)]\<rparr>)"
proof -
  have len: "length_in_sequence_space g = 1" using g by (simp add: length_in_sequence_space_def)
  have rcv: "rc_segment_received (cn_receiver c) g = Inr (receiver_synced cfg isn)"
    using rc_syn_init [OF c(1) g(1,2,6)] g(7) by (simp add: c(2) receiver_synced_def)
  have snd: "ack_received (cn_sender c) (th_ackno (ts_header g)) (th_win (ts_header g)) =
      sender_syn_acked cfg random w" using ack_of_syn g by (simp add: c(3))
  have empty: "send_empty_segment (sender_syn_acked cfg random w) = (sender_syn_acked cfg random w)
      \<lparr>sn_segments_out := [TCPSegment_init\<lparr>ts_header :=
        TCPHeader_init\<lparr>th_seqno := wrap 1 (cfg_isn cfg random)\<rparr>\<rparr>]\<rparr>"
      "sn_segments_out (sender_syn_acked cfg random w) = []"
    by (simp_all add: send_empty_segment_def sn_header_def next_seqno_def sender_syn_acked_def
        sender_syn_sent_def TCPSender_init_def cfg_isn_def Let_def)
  have stamp: "cn_stamp (c'\<lparr>cn_sender := s\<rparr>) = cn_stamp c'" for s
    by (simp add: fun_eq_iff cn_stamp_def Let_def split: option.split)
  have "cn_segment_received c g = Inr (send_segments (c'\<lparr>cn_sender :=
      send_empty_segment (sender_syn_acked cfg random w)\<rparr>))"
    using c(4) g(1-4) snd rcv len
    by (simp add: cn_segment_received_def Let_def cn_needs_reply_def c'_def)
  also have "\<dots> = Inr (c'\<lparr>cn_segments_out := cn_segments_out c @
    [cn_stamp c' (TCPSegment_init\<lparr>ts_header := TCPHeader_init\<lparr>th_seqno := wrap 1 (cfg_isn cfg random)\<rparr>\<rparr>)]\<rparr>)"
    unfolding send_segments_eq stamp empty
    using empty(2) by (simp add: c'_def)
  finally show ?thesis .
qed

text \<open>The passive side gets the last ACK.\<close>

lemma server_gets_ack:
  assumes c: "cn_receiver c = receiver_synced cfg' isn" "cn_sender c = sender_syn_sent cfg random"
    and g: "\<not> th_syn (ts_header g)" "\<not> th_fin (ts_header g)" "\<not> th_rst (ts_header g)"
      "th_ack (ts_header g)" "th_ackno (ts_header g) = wrap 1 (cfg_isn cfg random)"
      "ts_payload g = []" "th_seqno (ts_header g) = wrap 1 isn" "th_win (ts_header g) = w"
  shows "cn_segment_received c g = Inr (c\<lparr>cn_sender := sender_syn_acked cfg random w,
    cn_time_last_segment_received := cn_time c\<rparr>)"
proof -
  have len: "length_in_sequence_space g = 0" using g by (simp add: length_in_sequence_space_def)
  have "wi_minus (wrap 1 isn) 1 = isn"
    by (simp add: WrappingInt32.expand wi_minus_def wi_plus_def wrap_raw)
  then have no: "\<not> cn_needs_reply (c\<lparr>cn_sender := s, cn_time_last_segment_received := t\<rparr>) g" for s t
    using c(1) g(7) len wrap_1_neq [of isn]
    by (auto simp: cn_needs_reply_def rc_ackno_def receiver_synced_def)
  have q: "sn_segments_out (sender_syn_acked cfg random w) = []"
    by (simp add: sender_syn_acked_def sender_syn_sent_def TCPSender_init_def Let_def)
  have "cn_segment_received c g = Inr (send_segments (c\<lparr>cn_sender := sender_syn_acked cfg random w,
      cn_time_last_segment_received := cn_time c\<rparr>))"
    using g(1-5,8) len no ack_of_syn by (simp add: cn_segment_received_def Let_def c(2))
  then show ?thesis using q by (simp add: send_segments_eq)
qed

text \<open>
  C2. The three-way handshake works between any two configurations with room to receive, for
  all initial sequence numbers: a new connection is in state LISTEN; \<open>connect\<close> queues a SYN and
  leads to SYN_SENT; the peer answers the SYN with one segment and is in SYN_RCVD; the client
  answers that with one segment and is ESTABLISHED; the peer answers nothing more and is
  ESTABLISHED as well.
\<close>

theorem handshake_establishes:
  assumes a: "cfg_recv_capacity ca \<noteq> 0" and b: "cfg_recv_capacity cb \<noteq> 0"
  shows "\<exists>syn synack ack client1 client2 server1 server2.
    cn_state (TCPConnection_init cb rb) = TCPState_of LISTEN \<and>
    connect (TCPConnection_init ca ra) = client1 \<and> cn_segments_out client1 = [syn] \<and>
    cn_state client1 = TCPState_of SYN_SENT \<and>
    cn_segment_received (TCPConnection_init cb rb) syn = Inr server1 \<and>
    cn_segments_out server1 = [synack] \<and> cn_state server1 = TCPState_of SYN_RCVD \<and>
    cn_segment_received client1 synack = Inr client2 \<and> cn_segments_out client2 = [syn, ack] \<and>
    cn_state client2 = TCPState_of ESTABLISHED \<and>
    cn_segment_received server1 ack = Inr server2 \<and> cn_segments_out server2 = [synack] \<and>
    cn_state server2 = TCPState_of ESTABLISHED"
proof -
  let ?ia = "cfg_isn ca ra" and ?ib = "cfg_isn cb rb"
  let ?syn = "syn_segment ?ia"
  define client1 where "client1 = connect (TCPConnection_init ca ra)"
  have client1: "client1 = (TCPConnection_init ca ra)\<lparr>cn_connect_called := True,
      cn_sender := sender_syn_sent ca ra, cn_segments_out := [?syn]\<rparr>"
    using connect_fresh [of "TCPConnection_init ca ra" ca ra]
    by (simp add: client1_def cn_stamp_def rc_ackno_def Let_def) (simp add: TCPReceiver_init_def)
  let ?s0 = "(TCPConnection_init cb rb)\<lparr>cn_receiver := receiver_synced cb ?ia\<rparr>"
  define synack where "synack = cn_stamp ?s0 (syn_segment ?ib)"
  define server1 where "server1 = ?s0\<lparr>cn_connect_called := True,
    cn_sender := sender_syn_sent cb rb, cn_segments_out := [synack]\<rparr>"
  have s1: "cn_segment_received (TCPConnection_init cb rb) ?syn = Inr server1"
    unfolding server1_def synack_def by (rule server_gets_syn [OF b])
  define wb where "wb = (ucast (min (rc_window_size (receiver_synced cb ?ia)) 65535) :: u16)"
  define wa where "wa = (ucast (min (rc_window_size (receiver_synced ca ?ib)) 65535) :: u16)"
  have synack_eq: "synack = (syn_segment ?ib)\<lparr>ts_header := (ts_header (syn_segment ?ib))\<lparr>th_ack := True,
      th_ackno := wrap 1 ?ia, th_win := wb\<rparr>\<rparr>"
    unfolding wb_def synack_def by (rule cn_stamp_synced) simp_all
  have flags: "th_syn (ts_header synack)" "\<not> th_fin (ts_header synack)" "\<not> th_rst (ts_header synack)"
      "th_ack (ts_header synack)" "th_ackno (ts_header synack) = wrap 1 ?ia" "ts_payload synack = []"
      "th_seqno (ts_header synack) = ?ib" "th_win (ts_header synack) = wb"
    by (simp_all add: synack_eq syn_segment_def TCPSegment_init_def TCPHeader_init_def)
  define c' where "c' = client1\<lparr>cn_receiver := receiver_synced ca ?ib,
    cn_sender := sender_syn_acked ca ra wb, cn_time_last_segment_received := cn_time client1\<rparr>"
  let ?e = "TCPSegment_init\<lparr>ts_header := TCPHeader_init\<lparr>th_seqno := wrap 1 ?ia\<rparr>\<rparr>"
  define ack where "ack = cn_stamp c' ?e"
  have c2: "cn_segment_received client1 synack = Inr (c'\<lparr>cn_segments_out := [?syn, ack]\<rparr>)"
    unfolding c'_def
    using client_gets_synack [OF a, of client1 ra synack ?ib wb] flags
    by (simp add: client1 ack_def [unfolded c'_def client1])
  have ack_eq: "ack = ?e\<lparr>ts_header := (ts_header ?e)\<lparr>th_ack := True, th_ackno := wrap 1 ?ib, th_win := wa\<rparr>\<rparr>"
    unfolding wa_def ack_def by (rule cn_stamp_synced) (simp_all add: c'_def client1)
  have s2: "cn_segment_received server1 ack = Inr (server1\<lparr>cn_sender := sender_syn_acked cb rb wa,
      cn_time_last_segment_received := cn_time server1\<rparr>)"
    by (rule server_gets_ack [of server1 cb ?ia cb rb])
      (simp_all add: server1_def ack_eq TCPSegment_init_def TCPHeader_init_def)
  have states: "cn_state (TCPConnection_init cb rb) = TCPState_of LISTEN"
      "cn_state client1 = TCPState_of SYN_SENT" "cn_state server1 = TCPState_of SYN_RCVD"
      "cn_state (c'\<lparr>cn_segments_out := q\<rparr>) = TCPState_of ESTABLISHED"
      "cn_state (server1\<lparr>cn_sender := sender_syn_acked cb rb wa, cn_time_last_segment_received := t\<rparr>) =
        TCPState_of ESTABLISHED" for q t
    by (simp_all add: cn_state_def TCPState_view_def active_open input_open client1 server1_def c'_def
        summaries [unfolded conn_init_fields])
  show ?thesis
    by (rule exI [of _ ?syn], rule exI [of _ synack], rule exI [of _ ack], rule exI [of _ client1],
        rule exI [of _ "c'\<lparr>cn_segments_out := [?syn, ack]\<rparr>"], rule exI [of _ server1],
        rule exI [of _ "server1\<lparr>cn_sender := sender_syn_acked cb rb wa,
          cn_time_last_segment_received := cn_time server1\<rparr>"])
      (use states s1 c2 s2 in \<open>simp add: client1_def [symmetric], simp add: client1 server1_def\<close>)
qed

theorem handshake_establishes_witness:
  "\<exists>syn server1. cn_state (TCPConnection_init TCPConfig_init 7) = TCPState_of LISTEN \<and>
     cn_segments_out (connect (TCPConnection_init TCPConfig_init 3)) = [syn] \<and>
     cn_segment_received (TCPConnection_init TCPConfig_init 7) syn = Inr server1 \<and>
     cn_state server1 = TCPState_of SYN_RCVD"
  using handshake_establishes [of TCPConfig_init TCPConfig_init 7 3]
  by (auto simp: TCPConfig_init_def)

text \<open>
  A segment with the ACK flag that reaches a listening connection goes to the sender, and if it
  acknowledges the SYN that was never sent, the number of bytes in flight underflows.
\<close>

theorem listening_ack_underflows:
  "\<exists>c. cn_segment_received (TCPConnection_init (TCPConfig_init\<lparr>cfg_fixed_isn := Some (WrappingInt32 7)\<rparr>) 0)
      (TCPSegment_init\<lparr>ts_header := TCPHeader_init\<lparr>th_ack := True, th_ackno := WrappingInt32 8\<rparr>\<rparr>) = Inr c \<and>
     bytes_in_flight (cn_sender c) = - 1 \<and> sn_next_seqno (cn_sender c) = 0"
  by (simp add: cn_segment_received_def TCPConnection_init_def TCPConfig_init_def
      sn_eval bs_eval length_in_sequence_space_def cn_needs_reply_def rc_ackno_def
      TCPReceiver_init_def send_segments_def bytes_in_flight_def)

end
