(* ===== verification/Connection_Streams.thy ===== *)
theory Connection_Streams
  imports TCP_Connection "HOL-Library.Sublist"
begin

text \<open>
  What the operations of \<open>TCPConnection\<close> do to its two byte streams, for every segment the network
  may deliver: the inbound stream only grows at its end, the outbound stream is only read from its
  front. The other invariants of the connection are not needed for it.
\<close>

section \<open>How a stream changes\<close>

definition stream_grows :: "ByteStream \<Rightarrow> ByteStream \<Rightarrow> bool" where
  "stream_grows b b' \<longleftrightarrow> (bs_wf b \<longrightarrow> bs_wf b') \<and> bs_cap b' = bs_cap b \<and>
     bs_bytes_readed b' = bs_bytes_readed b \<and> prefix (bs_deq b) (bs_deq b')"

definition stream_drains :: "ByteStream \<Rightarrow> ByteStream \<Rightarrow> bool" where
  "stream_drains b b' \<longleftrightarrow> (bs_wf b \<longrightarrow> bs_wf b') \<and> bs_cap b' = bs_cap b \<and> bs_end b' = bs_end b \<and>
     bs_bytes_wrote b' = bs_bytes_wrote b \<and> suffix (bs_deq b') (bs_deq b)"

lemma stream_grows_refl [simp]: "stream_grows b b" "stream_drains b b"
  by (simp_all add: stream_grows_def stream_drains_def)

lemma stream_grows_trans: "stream_grows a b \<Longrightarrow> stream_grows b c \<Longrightarrow> stream_grows a c"
  by (auto simp: stream_grows_def)

lemma stream_drains_trans: "stream_drains a b \<Longrightarrow> stream_drains b c \<Longrightarrow> stream_drains a c"
  by (auto simp: stream_drains_def)

lemma grows_write: "fits d \<Longrightarrow> stream_grows b (fst (bs_write b d))"
  by (simp add: stream_grows_def bs_write_wf) (simp add: bs_write_def Let_def)

lemma grows_end: "stream_grows b (end_input b)"
  by (simp add: stream_grows_def end_input_wf) (simp add: end_input_def)

lemma grows_error: "stream_grows b (set_error b)" "stream_drains b (set_error b)"
  by (simp_all add: stream_grows_def stream_drains_def set_error_wf) (simp_all add: set_error_def)

lemma drains_pop: "stream_drains b (pop_output b n)"
  by (simp add: stream_drains_def pop_output_wf) (simp add: pop_output_def Let_def suffix_drop)

section \<open>The inbound stream\<close>

lemma str_substr_fits: "str_substr xs pos n = Inr ys \<Longrightarrow> fits ys"
  using u64_bound [of n] by (auto simp: str_substr_def fits_def Let_def split: if_splits)

lemma copy_output:
  "copy_straight s data l a n = Inr s' \<Longrightarrow> sr_output s' = sr_output s"
  "copy_wrapping s data l a n = Inr s' \<Longrightarrow> sr_output s' = sr_output s"
  by (auto simp: copy_straight_def copy_wrapping_def bindE_eq_Inr Let_def)

lemma write_to_aux_grows: "write_to_aux s data i eof = Inr s' \<Longrightarrow> stream_grows (sr_output s) (sr_output s')"
  by (auto simp: write_to_aux_def Let_def bindE_eq_Inr grows_end dest!: copy_output split: if_splits)

lemma emit_run_grows: "emit_run s first n = Inr (s', m) \<Longrightarrow> stream_grows (sr_output s) (sr_output s')"
  using str_substr_fits [of "sr_aux s" first "word_of_nat n"]
  by (auto simp: emit_run_def bindE_eq_Inr Let_def intro: grows_write)

lemma write_to_bytestream_grows:
  assumes "write_to_bytestream s = Inr s'"
  shows "stream_grows (sr_output s) (sr_output s')"
proof -
  let ?i = "sr_start_aux s mod sr_capacity s"
  let ?size = "find_true (drop (unat ?i) (sr_empty s))"
  obtain s1 n1 where s1: "emit_run s ?i ?size = Inr (s1, n1)"
    using assms by (auto simp: write_to_bytestream_def Let_def bindE_eq_Inr split: if_splits)
  obtain e1 where "vec_fill (sr_empty s1) (unat ?i) (unat ?i + unat n1) True = Inr e1"
    using assms s1 by (auto simp: write_to_bytestream_def Let_def bindE_eq_Inr split: if_splits)
  note eq = assms [unfolded write_to_bytestream_def Let_def s1 this bindE_Inr prod.case]
  have "stream_grows (sr_output s1) (sr_output s')"
  proof (cases "unat ?i + ?size = length (sr_empty s)")
    case True
    then obtain s3 n3 e2 where "emit_run (s1\<lparr>sr_empty := e1\<rparr>) 0
        (find_true (take (unat ?i) e1)) = Inr (s3, n3)" "s' = s3\<lparr>sr_empty := e2\<rparr>"
      using eq by (auto simp: bindE_eq_Inr split: if_splits)
    then show ?thesis using emit_run_grows [of "s1\<lparr>sr_empty := e1\<rparr>"] by fastforce
  qed (use eq in \<open>auto split: if_splits\<close>)
  with emit_run_grows [OF s1] show ?thesis by (rule stream_grows_trans)
qed

lemma push_substring_grows:
  assumes "push_substring s data i eof = Inr s'"
  shows "stream_grows (sr_output s) (sr_output s')"
proof -
  obtain s1 s2 where s: "write_to_aux s data i eof = Inr s1" "write_to_bytestream s1 = Inr s2"
      "sr_output s' = sr_output s2 \<or> sr_output s' = end_input (sr_output s2)"
    using assms by (auto simp: push_substring_def bindE_eq_Inr Let_def split: if_splits)
  have "stream_grows (sr_output s2) (sr_output s')" using s(3) grows_end by auto
  with write_to_aux_grows [OF s(1)] write_to_bytestream_grows [OF s(2)] show ?thesis
    using stream_grows_trans by blast
qed

lemma rc_segment_received_throws:
  assumes "rc_syn r \<or> th_syn (ts_header seg)"
    and "push_substring (rc_reassembler r) (ts_payload seg) (rc_index r seg)
      (rc_eof r \<or> th_fin (ts_header seg)) = Inl e"
  shows "rc_segment_received r seg = Inl e"
proof (cases "th_syn (ts_header seg)"; cases "th_fin (ts_header seg)")
qed (use assms in \<open>simp_all add: rc_segment_received_def rc_index_def rc_isn_after_def Let_def\<close>)

lemma rc_segment_received_grows:
  assumes "rc_segment_received r seg = Inr r'"
  shows "stream_grows (rc_stream_out r) (rc_stream_out r')"
proof (cases "rc_syn r \<or> th_syn (ts_header seg)")
  case True
  obtain s1 where s1: "push_substring (rc_reassembler r) (ts_payload seg) (rc_index r seg)
      (rc_eof r \<or> th_fin (ts_header seg)) = Inr s1"
    using rc_segment_received_throws [OF True] assms by (metis Inl_Inr_False sumE)
  then have "r' = rc_after r seg s1" using rc_segment_received_eq [OF True] assms by simp
  then have "rc_stream_out r' = sr_output s1 \<or> rc_stream_out r' = end_input (sr_output s1)"
    by (simp add: rc_after_def Let_def rc_stream_out_def)
  then show ?thesis
    using push_substring_grows [OF s1] grows_end stream_grows_trans unfolding rc_stream_out_def by metis
qed (use assms in \<open>simp add: rc_segment_received_def\<close>)

section \<open>The outbound stream\<close>

lemma fill_loop_drains: "stream_drains (sn_stream s) (sn_stream (fill_loop s))"
proof (induction s rule: fill_loop.induct)
  case (1 s)
  show ?case
  proof (cases "fill_more s")
    case True
    then show ?thesis
      using 1 drains_pop [of "sn_stream s"] stream_drains_trans
      by (metis fill_loop.simps fill_step_stream)
  qed (simp add: fill_loop.simps)
qed

lemma fill_window_drains: "stream_drains (sn_stream s) (sn_stream (fill_window s))"
  by (auto simp: fill_window_def fill_loop_drains send_syn_def send_fin_def send_probe_def Let_def
      bs_read_def drains_pop)

lemma ack_received_drains: "stream_drains (sn_stream s) (sn_stream (ack_received s a w))"
proof -
  have "stream_drains (sn_stream s) (sn_stream (fill_window t))" if "sn_stream t = sn_stream s" for t
    using fill_window_drains [of t] that by simp
  then show ?thesis by (auto simp: ack_received_def Let_def split: prod.split)
qed

lemma sn_tick_stream [simp]: "sn_stream (sn_tick s ms) = sn_stream s"
  by (simp add: sn_tick_def Let_def split: list.split)

lemma send_empty_segment_stream [simp]: "sn_stream (send_empty_segment s) = sn_stream s"
  by (simp add: send_empty_segment_def)

section \<open>Both streams of a connection\<close>

definition cn_outbound :: "TCPConnection \<Rightarrow> ByteStream" where
  "cn_outbound c = sn_stream (cn_sender c)"

definition cn_inbound :: "TCPConnection \<Rightarrow> ByteStream" where
  "cn_inbound c = rc_stream_out (cn_receiver c)"

lemma send_segments_streams [simp]:
  "cn_outbound (send_segments c) = cn_outbound c" "cn_inbound (send_segments c) = cn_inbound c"
  by (simp_all add: send_segments_eq cn_outbound_def cn_inbound_def)

lemma cn_fill_streams:
  "stream_drains (cn_outbound c) (cn_outbound (cn_fill c))" "cn_inbound (cn_fill c) = cn_inbound c"
  by (simp_all add: cn_fill_def) (simp_all add: cn_outbound_def cn_inbound_def fill_window_drains)

lemma connect_streams:
  "stream_drains (cn_outbound c) (cn_outbound (connect c))" "cn_inbound (connect c) = cn_inbound c"
  using cn_fill_streams [of "c\<lparr>cn_connect_called := True\<rparr>"]
  by (simp_all add: connect_def cn_outbound_def cn_inbound_def)

lemma cn_set_errors_streams:
  "cn_outbound (cn_set_errors c) = set_error (cn_outbound c)" "cn_inbound (cn_set_errors c) = set_error (cn_inbound c)"
  by (simp_all add: cn_set_errors_def cn_outbound_def cn_inbound_def rc_stream_out_def rc_set_stream_out_def)

lemma cn_tick_streams:
  "stream_drains (cn_outbound c) (cn_outbound (cn_tick c ms))" "stream_grows (cn_inbound c) (cn_inbound (cn_tick c ms))"
  by (simp_all add: cn_tick_def Let_def cn_set_errors_streams grows_error)
    (simp_all add: cn_outbound_def cn_inbound_def grows_error)

lemma end_input_stream_streams:
  "stream_drains (end_input (cn_outbound c)) (cn_outbound (end_input_stream c))"
  "cn_inbound (end_input_stream c) = cn_inbound c"
  using cn_fill_streams [of "c\<lparr>cn_sender := (cn_sender c)\<lparr>sn_stream := end_input (sn_stream (cn_sender c))\<rparr>\<rparr>"]
  by (simp_all add: end_input_stream_def cn_outbound_def cn_inbound_def)

lemma cn_write_streams:
  "stream_drains (fst (bs_write (cn_outbound c) d)) (cn_outbound (fst (cn_write c d)))"
  "cn_inbound (fst (cn_write c d)) = cn_inbound c" "snd (cn_write c d) = snd (bs_write (cn_outbound c) d)"
  using cn_fill_streams [of "c\<lparr>cn_sender := (cn_sender c)\<lparr>sn_stream := fst (bs_write (cn_outbound c) d)\<rparr>\<rparr>"]
  by (simp_all add: cn_write_def Let_def split_def) (simp_all add: cn_outbound_def cn_inbound_def)

lemma cn_segment_received_streams:
  assumes "cn_segment_received c seg = Inr c'"
  shows "stream_drains (cn_outbound c) (cn_outbound c')" "stream_grows (cn_inbound c) (cn_inbound c')"
proof -
  have step: "stream_drains (cn_outbound c) (cn_outbound d') \<and> stream_grows (cn_inbound c) (cn_inbound d')"
    if "stream_drains (cn_outbound c) (cn_outbound d) \<and> stream_grows (cn_inbound c) (cn_inbound d)"
      "stream_drains (cn_outbound d) (cn_outbound d')" "stream_grows (cn_inbound d) (cn_inbound d')" for d d'
    using that stream_drains_trans stream_grows_trans by blast
  from assms have "stream_drains (cn_outbound c) (cn_outbound c') \<and> stream_grows (cn_inbound c) (cn_inbound c')"
  proof (induction rule: cn_segment_received_induct)
    case ack
    then show ?case by (simp add: cn_outbound_def cn_inbound_def ack_received_drains)
  next
    case (recv c1 r)
    then show ?case
      using rc_segment_received_grows [of "cn_receiver c" seg r] by (simp add: cn_outbound_def cn_inbound_def)
  next
    case (connect c1)
    then show ?case by (rule step) (simp_all add: connect_streams)
  next
    case (reset c1)
    then show ?case
      by (rule step) (simp_all add: cn_set_errors_streams, simp_all add: cn_outbound_def cn_inbound_def grows_error)
  qed (simp_all, simp_all add: cn_outbound_def cn_inbound_def)
  then show "stream_drains (cn_outbound c) (cn_outbound c')" "stream_grows (cn_inbound c) (cn_inbound c')"
    by simp_all
qed

end
