(* ===== verification/Sponge_Socket.thy ===== *)
theory Sponge_Socket
  imports Adapters Stream_Copy Connection_Streams
begin

text \<open>
  \<open>TCPSpongeSocket\<close>, \<open>CS144TCPSocket\<close> and \<open>FullStackSocket\<close>
  (\<open>src/libsponge/tcp_helpers/tcp_sponge_socket.hh\<close>, \<open>tcp_sponge_socket.cc\<close>): the thread that runs
  a \<open>TCPConnection\<close> between a local stream socket and a datagram adapter, with an event loop of four
  rules.

  The state is what this thread works on. The owner's thread only acts on the other end of the
  stream socket, which is part of the kernel, and on the flag \<open>_abort\<close>, which is an argument that may
  give a different answer at every round. The lines written to the error output are kept in order.
  Loops take a bound on the number of rounds and tell whether they ended.
\<close>

section \<open>State\<close>

definition TCP_TICK_MS :: int where
  "TCP_TICK_MS = 10"

record ('k, 'a) sponge =
  ss_kernel :: 'k
  ss_owner :: FDWrapper
  ss_thread_data :: FDWrapper
  ss_adapter :: 'a
  ss_tcp :: "TCPConnection option"
  ss_inbound_shutdown :: bool
  ss_outbound_shutdown :: bool
  ss_fully_acked :: bool
  ss_cerr :: "string list"

definition ss_print :: "string \<Rightarrow> ('k, 'a) sponge \<Rightarrow> ('k, 'a) sponge" where
  "ss_print msg s = s\<lparr>ss_cerr := ss_cerr s @ [msg]\<rparr>"

text \<open>\<open>_tcp->\<close> on an empty optional is undefined, \<open>_tcp.value()\<close> throws.\<close>

definition ss_deref :: "('k, 'a) sponge \<Rightarrow> TCPConnection res" where
  "ss_deref s = (case ss_tcp s of None \<Rightarrow> Inl Undefined_Behaviour | Some c \<Rightarrow> Inr c)"

definition ss_value :: "('k, 'a) sponge \<Rightarrow> TCPConnection res" where
  "ss_value s = (case ss_tcp s of None \<Rightarrow> Inl (Runtime_Error ''bad optional access'') | Some c \<Rightarrow> Inr c)"

definition ss_destination :: "getnameinfo \<Rightarrow> ('k, 'a) adapter \<Rightarrow> ('k, 'a) sponge \<Rightarrow> string res" where
  "ss_destination gni ad s = address_to_string gni (fc_destination (fa_cfg (ad_base ad (ss_adapter s))))"

definition newline :: string where
  "newline = [CHR 10]"

section \<open>The four rules\<close>

text \<open>Rule 1: read from filtered packet stream and dump into the connection.\<close>

definition rule1_callback :: "getnameinfo \<Rightarrow> ('k, 'a) adapter \<Rightarrow> ('k, 'a) sponge \<Rightarrow> ('k, 'a) sponge res" where
  "rule1_callback gni ad s =
     bindE (ad_read ad (ss_kernel s) (ss_adapter s)) (\<lambda>(k, a, seg).
     let s = s\<lparr>ss_kernel := k, ss_adapter := a\<rparr> in
     bindE (case seg of None \<Rightarrow> Inr s
            | Some seg \<Rightarrow> bindE (ss_deref s) (\<lambda>c.
                bindE (cn_segment_received c seg) (\<lambda>c. Inr (s\<lparr>ss_tcp := Some c\<rparr>)))) (\<lambda>s.
     if fd_eof (ss_thread_data s) then
       bindE (ss_value s) (\<lambda>c.
       if bytes_in_flight (cn_sender c) = 0 \<and> \<not> ss_fully_acked s then
         bindE (ss_destination gni ad s) (\<lambda>dest.
         Inr ((ss_print (''DEBUG: Outbound stream to '' @ dest @ '' has been fully acknowledged.'' @ newline) s)
              \<lparr>ss_fully_acked := True\<rparr>))
       else Inr s)
     else Inr s))"

definition rule1_interest :: "('k, 'a) sponge \<Rightarrow> bool res" where
  "rule1_interest s = bindE (ss_deref s) (\<lambda>c. Inr (cn_active c))"

text \<open>Rule 2: read from pipe into outbound buffer.\<close>

definition rule2_callback ::
    "getnameinfo \<Rightarrow> 'k os \<Rightarrow> ('k, 'a) adapter \<Rightarrow> ('k, 'a) sponge \<Rightarrow> ('k, 'a) sponge res" where
  "rule2_callback gni os ad s =
     bindE (ss_deref s) (\<lambda>c.
     bindE (fd_read os (ss_kernel s) (ss_thread_data s) (remaining_outbound_capacity c)) (\<lambda>(k, w, data).
     let len = sz data; (c, amount_written) = cn_write c data in
     if amount_written \<noteq> len
     then Inl (Runtime_Error ''TCPConnection::write() accepted less than advertised length'')
     else
       let s = s\<lparr>ss_kernel := k, ss_thread_data := w, ss_tcp := Some c\<rparr> in
       if fd_eof w then
         let c = end_input_stream c; s = s\<lparr>ss_tcp := Some c, ss_outbound_shutdown := True\<rparr> in
         bindE (ss_destination gni ad s) (\<lambda>dest.
         Inr (ss_print (''DEBUG: Outbound stream to '' @ dest @ '' finished ('' @
                to_string_nat (unat (bytes_in_flight (cn_sender c))) @ '' byte'' @
                (if bytes_in_flight (cn_sender c) = 1 then '''' else ''s'') @ '' still in flight).'' @ newline) s))
       else Inr s))"

definition rule2_interest :: "('k, 'a) sponge \<Rightarrow> bool res" where
  "rule2_interest s = bindE (ss_deref s) (\<lambda>c.
     Inr (cn_active c \<and> \<not> ss_outbound_shutdown s \<and> remaining_outbound_capacity c > 0))"

definition rule2_cancel :: "('k, 'a) sponge \<Rightarrow> ('k, 'a) sponge res" where
  "rule2_cancel s = bindE (ss_deref s) (\<lambda>c.
     Inr (s\<lparr>ss_tcp := Some (end_input_stream c), ss_outbound_shutdown := True\<rparr>))"

text \<open>Rule 3: read from inbound buffer into pipe.\<close>

definition rule3_callback ::
    "getnameinfo \<Rightarrow> 'k os \<Rightarrow> ('k, 'a) adapter \<Rightarrow> ('k, 'a) sponge \<Rightarrow> ('k, 'a) sponge res" where
  "rule3_callback gni os ad s =
     bindE (ss_deref s) (\<lambda>c.
     let inbound = rc_stream_out (cn_receiver c);
         amount_to_write = min 65536 (buffer_size inbound);
         buffer = peek_output inbound amount_to_write
     in
     bindE (fd_write os (ss_kernel s) (ss_thread_data s) (bvl_of_string buffer) False) (\<lambda>(k, w, bytes_written).
     let inbound = pop_output inbound bytes_written;
         c = c\<lparr>cn_receiver := rc_set_stream_out (cn_receiver c) inbound\<rparr>;
         s = s\<lparr>ss_kernel := k, ss_thread_data := w, ss_tcp := Some c\<rparr>
     in
     if bs_eof inbound \<or> bs_error inbound then
       bindE (sock_shutdown os k w SHUT_WR) (\<lambda>(k, w).
       let s = s\<lparr>ss_kernel := k, ss_thread_data := w, ss_inbound_shutdown := True\<rparr> in
       bindE (ss_destination gni ad s) (\<lambda>dest.
       let s = ss_print (''DEBUG: Inbound stream from '' @ dest @ '' finished '' @
                 (if bs_error inbound then ''with an error/reset.'' else ''cleanly.'') @ newline) s
       in Inr (if cn_state c = TCPState_of TIME_WAIT
               then ss_print (''DEBUG: Waiting for lingering segments (e.g. retransmissions of FIN) from peer...''
                      @ newline) s
               else s)))
     else Inr s))"

definition rule3_interest :: "('k, 'a) sponge \<Rightarrow> bool res" where
  "rule3_interest s = bindE (ss_deref s) (\<lambda>c.
     let inbound = rc_stream_out (cn_receiver c) in
     Inr (\<not> buffer_empty inbound \<or> ((bs_eof inbound \<or> bs_error inbound) \<and> \<not> ss_inbound_shutdown s)))"

text \<open>Rule 4: read outbound segments from the connection and send as datagrams.\<close>

fun rule4_loop :: "('k, 'a) adapter \<Rightarrow> TCPSegment list \<Rightarrow> TCPConnection \<Rightarrow> ('k, 'a) sponge \<Rightarrow> ('k, 'a) sponge res" where
  "rule4_loop ad [] c s = Inr s"
| "rule4_loop ad (seg # q) c s =
     bindE (ad_write ad (ss_kernel s) (ss_adapter s) seg) (\<lambda>(k, a).
     let c = c\<lparr>cn_segments_out := q\<rparr> in
     rule4_loop ad q c (s\<lparr>ss_kernel := k, ss_adapter := a, ss_tcp := Some c\<rparr>))"

definition rule4_callback :: "('k, 'a) adapter \<Rightarrow> ('k, 'a) sponge \<Rightarrow> ('k, 'a) sponge res" where
  "rule4_callback ad s = bindE (ss_deref s) (\<lambda>c. rule4_loop ad (cn_segments_out c) c s)"

definition rule4_interest :: "('k, 'a) sponge \<Rightarrow> bool res" where
  "rule4_interest s = bindE (ss_deref s) (\<lambda>c. Inr (cn_segments_out c \<noteq> []))"

definition initialize_rules :: "getnameinfo \<Rightarrow> 'k os \<Rightarrow> ('k, 'a) adapter \<Rightarrow>
    ('k, 'a) sponge Rule list \<Rightarrow> ('k, 'a) sponge Rule list" where
  "initialize_rules gni os ad rules =
     (let rules = add_rule rules (ad_fd ad \<circ> ss_adapter) In (rule1_callback gni ad) rule1_interest Inr;
          rules = add_rule rules ss_thread_data In (rule2_callback gni os ad) rule2_interest rule2_cancel;
          rules = add_rule rules ss_thread_data Out (rule3_callback gni os ad) rule3_interest Inr
      in add_rule rules (ad_fd ad \<circ> ss_adapter) Out (rule4_callback ad) rule4_interest Inr)"

text \<open>\<open>random\<close> is the number the connection draws for its initial sequence number.\<close>

definition initialize_TCP :: "getnameinfo \<Rightarrow> 'k os \<Rightarrow> ('k, 'a) adapter \<Rightarrow> TCPConfig \<Rightarrow> u32 \<Rightarrow>
    ('k, 'a) sponge \<Rightarrow> ('k, 'a) sponge Rule list \<Rightarrow> ('k, 'a) sponge \<times> ('k, 'a) sponge Rule list" where
  "initialize_TCP gni os ad config random s rules =
     (s\<lparr>ss_tcp := Some (TCPConnection_init config random)\<rparr>, initialize_rules gni os ad rules)"

section \<open>The loop\<close>

definition socket_poll :: "'k os \<Rightarrow> ('k, 'a) sponge poll" where
  "socket_poll os s fds timeout_ms =
     (let (k, r) = os_poll os (ss_kernel s) fds timeout_ms in (s\<lparr>ss_kernel := k\<rparr>, r))"

fun tcp_loop_from :: "'k os \<Rightarrow> ('k, 'a) adapter \<Rightarrow> ('k \<Rightarrow> bool) \<Rightarrow> (('k, 'a) sponge \<Rightarrow> bool res) \<Rightarrow> nat \<Rightarrow> u64 \<Rightarrow>
    ('k, 'a) sponge Rule list \<Rightarrow> ('k, 'a) sponge \<Rightarrow> (('k, 'a) sponge \<times> ('k, 'a) sponge Rule list \<times> bool) res" where
  "tcp_loop_from os ad abort condition 0 base_time rules s = Inr (s, rules, False)"
| "tcp_loop_from os ad abort condition (Suc n) base_time rules s =
     bindE (condition s) (\<lambda>continue.
     if \<not> continue then Inr (s, rules, True)
     else
       bindE (wait_next_event (socket_poll os) rules TCP_TICK_MS s) (\<lambda>(s, rules, ret).
       if ret = Exit \<or> abort (ss_kernel s) then Inr (s, rules, True)
       else
         bindE (ss_value s) (\<lambda>c.
         if cn_active c then
           let (k, next_time) = os_clock os (ss_kernel s);
               s = s\<lparr>ss_tcp := Some (cn_tick c (next_time - base_time))\<rparr>
           in
           bindE (ad_tick ad k (ss_adapter s) (next_time - base_time)) (\<lambda>(k, a).
             tcp_loop_from os ad abort condition n next_time rules (s\<lparr>ss_kernel := k, ss_adapter := a\<rparr>))
         else tcp_loop_from os ad abort condition n base_time rules s)))"

definition tcp_loop :: "'k os \<Rightarrow> ('k, 'a) adapter \<Rightarrow> ('k \<Rightarrow> bool) \<Rightarrow> (('k, 'a) sponge \<Rightarrow> bool res) \<Rightarrow> nat \<Rightarrow>
    ('k, 'a) sponge Rule list \<Rightarrow> ('k, 'a) sponge \<Rightarrow> (('k, 'a) sponge \<times> ('k, 'a) sponge Rule list \<times> bool) res" where
  "tcp_loop os ad abort condition n rules s =
     (let (k, base_time) = os_clock os (ss_kernel s)
      in tcp_loop_from os ad abort condition n base_time rules (s\<lparr>ss_kernel := k\<rparr>))"

section \<open>Operations of the owner\<close>

definition socket_pair_helper :: "'k os \<Rightarrow> 'k \<Rightarrow> int \<Rightarrow> ('k \<times> FDWrapper \<times> FDWrapper) res" where
  "socket_pair_helper os k typ =
     (let (k, r, fd0, fd1) = os_socketpair os k AF_UNIX typ in
      bindE (SystemCall ''socketpair'' r 0) (\<lambda>_.
      bindE (FDWrapper_init fd0) (\<lambda>w0. bindE (FDWrapper_init fd1) (\<lambda>w1. Inr (k, w0, w1)))))"

definition TCPSpongeSocket_of_pair ::
    "'k os \<Rightarrow> 'k \<Rightarrow> FDWrapper \<Rightarrow> FDWrapper \<Rightarrow> 'a \<Rightarrow> ('k, 'a) sponge res" where
  "TCPSpongeSocket_of_pair os k first second datagram_interface =
     bindE (LocalStreamSocket_of_fd os k first) (\<lambda>(k, owner).
     bindE (LocalStreamSocket_of_fd os k second) (\<lambda>(k, thread_data).
     bindE (set_blocking os k thread_data False) (\<lambda>k.
       Inr \<lparr>ss_kernel = k, ss_owner = owner, ss_thread_data = thread_data, ss_adapter = datagram_interface,
            ss_tcp = None, ss_inbound_shutdown = False, ss_outbound_shutdown = False,
            ss_fully_acked = False, ss_cerr = []\<rparr>)))"

definition TCPSpongeSocket_init :: "'k os \<Rightarrow> 'k \<Rightarrow> 'a \<Rightarrow> ('k, 'a) sponge res" where
  "TCPSpongeSocket_init os k datagram_interface =
     bindE (socket_pair_helper os k SOCK_STREAM) (\<lambda>(k, first, second).
       TCPSpongeSocket_of_pair os k first second datagram_interface)"

definition ss_set_config :: "('k, 'a) adapter \<Rightarrow> FdAdapterConfig \<Rightarrow> ('k, 'a) sponge \<Rightarrow> ('k, 'a) sponge" where
  "ss_set_config ad cfg s =
     s\<lparr>ss_adapter := ad_set_base ad (ss_adapter s) (fa_set_config (ad_base ad (ss_adapter s)) cfg)\<rparr>"

definition connecting :: "('k, 'a) sponge \<Rightarrow> bool res" where
  "connecting s = bindE (ss_deref s) (\<lambda>c. Inr (cn_state c = TCPState_of SYN_SENT))"

definition ss_connect :: "getnameinfo \<Rightarrow> 'k os \<Rightarrow> ('k, 'a) adapter \<Rightarrow> ('k \<Rightarrow> bool) \<Rightarrow> nat \<Rightarrow> TCPConfig \<Rightarrow> u32 \<Rightarrow>
    FdAdapterConfig \<Rightarrow> ('k, 'a) sponge \<Rightarrow> ('k, 'a) sponge Rule list \<Rightarrow>
    (('k, 'a) sponge \<times> ('k, 'a) sponge Rule list \<times> bool) res" where
  "ss_connect gni os ad abort n c_tcp random c_ad s rules =
     (if ss_tcp s \<noteq> None then Inl (Runtime_Error ''connect() with TCPConnection already initialized'')
      else
        let (s, rules) = initialize_TCP gni os ad c_tcp random s rules;
            s = ss_set_config ad c_ad s
        in
        bindE (address_to_string gni (fc_destination c_ad)) (\<lambda>dest.
        let s = ss_print (''DEBUG: Connecting to '' @ dest @ ''...'' @ newline) s in
        bindE (ss_deref s) (\<lambda>c.
        let c = connect c; s = s\<lparr>ss_tcp := Some c\<rparr> in
        if cn_state c \<noteq> TCPState_of SYN_SENT
        then Inl (Runtime_Error (''After TCPConnection::connect(), state was '' @ state_name (cn_state c) @
               '' but expected '' @ state_name (TCPState_of SYN_SENT)))
        else
          bindE (tcp_loop os ad abort connecting n rules s) (\<lambda>(s, rules, ended).
          if ended then Inr (ss_print (''Successfully connected to '' @ dest @ ''.'' @ newline) s, rules, True)
          else Inr (s, rules, False)))))"

definition accepting :: "('k, 'a) sponge \<Rightarrow> bool res" where
  "accepting s = bindE (ss_deref s) (\<lambda>c. Inr (cn_state c = TCPState_of LISTEN \<or>
     cn_state c = TCPState_of SYN_RCVD \<or> cn_state c = TCPState_of SYN_SENT))"

definition listen_and_accept :: "getnameinfo \<Rightarrow> 'k os \<Rightarrow> ('k, 'a) adapter \<Rightarrow> ('k \<Rightarrow> bool) \<Rightarrow> nat \<Rightarrow> TCPConfig \<Rightarrow> u32 \<Rightarrow>
    FdAdapterConfig \<Rightarrow> ('k, 'a) sponge \<Rightarrow> ('k, 'a) sponge Rule list \<Rightarrow>
    (('k, 'a) sponge \<times> ('k, 'a) sponge Rule list \<times> bool) res" where
  "listen_and_accept gni os ad abort n c_tcp random c_ad s rules =
     (if ss_tcp s \<noteq> None
      then Inl (Runtime_Error ''listen_and_accept() with TCPConnection already initialized'')
      else
        let (s, rules) = initialize_TCP gni os ad c_tcp random s rules;
            s = ss_set_config ad c_ad s;
            s = s\<lparr>ss_adapter := ad_set_base ad (ss_adapter s) (set_listening (ad_base ad (ss_adapter s)) True)\<rparr>;
            s = ss_print (''DEBUG: Listening for incoming connection...'' @ newline) s
        in
        bindE (tcp_loop os ad abort accepting n rules s) (\<lambda>(s, rules, ended).
        if ended then bindE (ss_destination gni ad s) (\<lambda>dest.
          Inr (ss_print (''New connection from '' @ dest @ ''.'' @ newline) s, rules, True))
        else Inr (s, rules, False)))"

text \<open>What the connection's thread runs. Resetting \<open>_tcp\<close> destroys the connection.\<close>

definition tcp_main :: "'k os \<Rightarrow> ('k, 'a) adapter \<Rightarrow> ('k \<Rightarrow> bool) \<Rightarrow> nat \<Rightarrow> ('k, 'a) sponge \<Rightarrow>
    ('k, 'a) sponge Rule list \<Rightarrow> (('k, 'a) sponge \<times> ('k, 'a) sponge Rule list \<times> bool) res" where
  "tcp_main os ad abort n s rules =
     (if ss_tcp s = None then Inl (Runtime_Error ''no TCP'')
      else
        bindE (tcp_loop os ad abort (\<lambda>s. Inr True) n rules s) (\<lambda>(s, rules, ended).
        if \<not> ended then Inr (s, rules, False)
        else
          bindE (sock_shutdown os (ss_kernel s) (ss_owner s) SHUT_RDWR) (\<lambda>(k, w).
          let s = s\<lparr>ss_kernel := k, ss_owner := w\<rparr> in
          bindE (ss_value s) (\<lambda>c.
          let s = (if cn_active c
                   then ss_print (''Warning: Unclean shutdown of TCPConnection'' @ newline) s
                   else ss_print (''DEBUG: TCP connection finished '' @
                          (if cn_state c = TCPState_of RESET then ''uncleanly'' else ''cleanly.'' @ newline)) s)
          in Inr (s\<lparr>ss_tcp := None\<rparr>, rules, True)))))"

text \<open>The owner waits for the thread, which goes on with its loop until it ends.\<close>

definition wait_until_closed :: "'k os \<Rightarrow> ('k, 'a) adapter \<Rightarrow> ('k \<Rightarrow> bool) \<Rightarrow> nat \<Rightarrow> bool \<Rightarrow> ('k, 'a) sponge \<Rightarrow>
    ('k, 'a) sponge Rule list \<Rightarrow> (('k, 'a) sponge \<times> ('k, 'a) sponge Rule list \<times> bool) res" where
  "wait_until_closed os ad abort n joinable s rules =
     bindE (sock_shutdown os (ss_kernel s) (ss_owner s) SHUT_RDWR) (\<lambda>(k, w).
     let s = s\<lparr>ss_kernel := k, ss_owner := w\<rparr> in
     if joinable then
       bindE (tcp_main os ad abort n (ss_print ''DEBUG: Waiting for clean shutdown... '' s) rules) (\<lambda>(s, rules, ended).
       Inr (if ended then ss_print (''done.'' @ newline) s else s, rules, ended))
     else Inr (s, rules, True))"

text \<open>The destructor raises the abort flag and waits for the thread.\<close>

definition TCPSpongeSocket_destroy :: "'k os \<Rightarrow> ('k, 'a) adapter \<Rightarrow> nat \<Rightarrow> bool \<Rightarrow> ('k, 'a) sponge \<Rightarrow>
    ('k, 'a) sponge Rule list \<Rightarrow> (('k, 'a) sponge \<times> ('k, 'a) sponge Rule list \<times> bool) res" where
  "TCPSpongeSocket_destroy os ad n joinable s rules =
     (if joinable then tcp_main os ad (\<lambda>k. True) n (ss_print (''Warning: unclean shutdown of TCPSpongeSocket'' @ newline) s) rules
      else Inr (s, rules, True))"

section \<open>Sockets over TUN and TAP devices\<close>

definition CS144TCPSocket_init ::
    "getaddrinfo \<Rightarrow> 'k os \<Rightarrow> 'k \<Rightarrow> ('k, TCPOverIPv4OverTunFdAdapter) sponge res" where
  "CS144TCPSocket_init gai os k =
     bindE (TunFD_init os k ''tun144'') (\<lambda>(k, tun).
     bindE (FdAdapterBase_init gai) (\<lambda>base.
       TCPSpongeSocket_init os k \<lparr>ta_base = base, ta_tun = tun\<rparr>))"

text \<open>The two random numbers are the local port and the initial sequence number.\<close>

definition cs144_configs ::
    "getaddrinfo \<Rightarrow> string \<Rightarrow> u32 \<Rightarrow> Address \<Rightarrow> (TCPConfig \<times> FdAdapterConfig) res" where
  "cs144_configs gai local_ip random_port address =
     bindE (FdAdapterConfig_init gai) (\<lambda>multiplexer_config.
     bindE (Address_of_host gai local_ip (to_string_nat (unat (ucast random_port :: u16)))) (\<lambda>source.
       Inr (TCPConfig_init\<lparr>cfg_rt_timeout := 100\<rparr>,
            multiplexer_config\<lparr>fc_source := source, fc_destination := address\<rparr>)))"

definition cs144_connect :: "getaddrinfo \<Rightarrow> getnameinfo \<Rightarrow> 'k os \<Rightarrow> ('k \<Rightarrow> bool) \<Rightarrow> nat \<Rightarrow> u32 \<Rightarrow> u32 \<Rightarrow> Address \<Rightarrow>
    ('k, TCPOverIPv4OverTunFdAdapter) sponge \<Rightarrow> ('k, TCPOverIPv4OverTunFdAdapter) sponge Rule list \<Rightarrow>
    (('k, TCPOverIPv4OverTunFdAdapter) sponge \<times> ('k, TCPOverIPv4OverTunFdAdapter) sponge Rule list \<times> bool) res" where
  "cs144_connect gai gni os abort n random_port random_isn address s rules =
     bindE (cs144_configs gai ''169.254.144.9'' random_port address) (\<lambda>(tcp_config, multiplexer_config).
       ss_connect gni os (tun_adapter gai gni os) abort n tcp_config random_isn multiplexer_config s rules)"

definition LOCAL_TAP_IP_ADDRESS :: string where
  "LOCAL_TAP_IP_ADDRESS = ''169.254.10.9''"

definition LOCAL_TAP_NEXT_HOP_ADDRESS :: string where
  "LOCAL_TAP_NEXT_HOP_ADDRESS = ''169.254.10.1''"

text \<open>The argument is the list of six random numbers.\<close>

definition random_private_ethernet_address :: "u32 list \<Rightarrow> EthernetAddress" where
  "random_private_ethernet_address random =
     (let addr = map ucast random;
          addr = addr[0 := addr ! 0 OR 0x02]
      in addr[0 := addr ! 0 AND 0xfe])"

definition FullStackSocket_init ::
    "getaddrinfo \<Rightarrow> 'k os \<Rightarrow> 'k \<Rightarrow> u32 list \<Rightarrow> ('k, TCPOverIPv4OverEthernetAdapter) sponge res" where
  "FullStackSocket_init gai os k random =
     bindE (TapFD_init os k ''tap10'') (\<lambda>(k, tap).
     bindE (Address_of_host gai LOCAL_TAP_IP_ADDRESS ''0'') (\<lambda>ip.
     bindE (Address_of_host gai LOCAL_TAP_NEXT_HOP_ADDRESS ''0'') (\<lambda>next_hop.
     bindE (TCPOverIPv4OverEthernetAdapter_init gai os k tap (random_private_ethernet_address random) ip next_hop)
       (\<lambda>(k, adapter). TCPSpongeSocket_init os k adapter))))"

definition full_stack_connect :: "getaddrinfo \<Rightarrow> getnameinfo \<Rightarrow> 'k os \<Rightarrow> ('k \<Rightarrow> bool) \<Rightarrow> nat \<Rightarrow> u32 \<Rightarrow> u32 \<Rightarrow> Address \<Rightarrow>
    ('k, TCPOverIPv4OverEthernetAdapter) sponge \<Rightarrow> ('k, TCPOverIPv4OverEthernetAdapter) sponge Rule list \<Rightarrow>
    (('k, TCPOverIPv4OverEthernetAdapter) sponge \<times> ('k, TCPOverIPv4OverEthernetAdapter) sponge Rule list \<times> bool) res" where
  "full_stack_connect gai gni os abort n random_port random_isn address s rules =
     bindE (cs144_configs gai LOCAL_TAP_IP_ADDRESS random_port address) (\<lambda>(tcp_config, multiplexer_config).
       ss_connect gni os (eth_adapter gai gni os) abort n tcp_config random_isn multiplexer_config s rules)"

section \<open>Invariant\<close>

text \<open>
  The connection's streams against what the application wrote to the local socket (\<open>i\<close>) and what it
  was given (\<open>o\<close>): the outbound stream has taken all of \<open>i\<close> and buffers its tail, the bytes taken
  from the inbound stream are as many as those of \<open>o\<close>, and after the end of input the outbound
  stream is marked as ended. \<open>p\<close> is any beginning of what the application was or will be given.
\<close>

definition pump_ok :: "bytes \<Rightarrow> bytes \<Rightarrow> bytes \<Rightarrow> bool \<Rightarrow> TCPConnection \<Rightarrow> bool" where
  "pump_ok p i o' ended c \<longleftrightarrow> bs_wf (cn_outbound c) \<and> bs_wf (cn_inbound c) \<and>
     bs_bytes_wrote (cn_outbound c) = sz i \<and> suffix (bs_deq (cn_outbound c)) i \<and>
     bs_bytes_readed (cn_inbound c) = sz o' \<and> prefix p (o' @ bs_deq (cn_inbound c)) \<and> (ended \<longrightarrow> bs_end (cn_outbound c))"

definition sponge_inv :: "'k os \<Rightarrow> ('k \<Rightarrow> int \<Rightarrow> bytes) \<Rightarrow> ('k \<Rightarrow> int \<Rightarrow> bytes) \<Rightarrow> int \<Rightarrow>
    ('k, 'a) adapter \<Rightarrow> ('a \<Rightarrow> bool) \<Rightarrow> bytes \<Rightarrow> ('k, 'a) sponge \<Rightarrow> bool" where
  "sponge_inv os inp out fd ad ok p s \<longleftrightarrow> stream_kernel os inp out \<and>
     quiet_adapter ad ok (fd_traffic inp out fd) \<and> ok (ss_adapter s) \<and> fd_num (ss_thread_data s) = fd \<and>
     (case ss_tcp s of None \<Rightarrow> True | Some c \<Rightarrow>
        pump_ok p (inp (ss_kernel s) fd) (out (ss_kernel s) fd) (ss_outbound_shutdown s) c)"

lemma pump_ok_step:
  assumes "pump_ok p i o' ended c" "stream_drains (cn_outbound c) (cn_outbound c')"
    and "stream_grows (cn_inbound c) (cn_inbound c')"
  shows "pump_ok p i o' ended c'"
proof -
  have "prefix (o' @ bs_deq (cn_inbound c)) (o' @ bs_deq (cn_inbound c'))"
    using assms(3) by (simp add: stream_grows_def)
  then have "prefix p (o' @ bs_deq (cn_inbound c'))"
    using assms(1) unfolding pump_ok_def by (meson prefix_order.trans)
  then show ?thesis using assms by (auto simp: pump_ok_def stream_drains_def stream_grows_def)
qed

lemma pump_ok_end:
  assumes "pump_ok p i o' ended c"
  shows "pump_ok p i o' True (end_input_stream c)"
  using assms end_input_stream_streams [of c]
  by (auto simp: pump_ok_def stream_drains_def end_input_wf) (auto simp: end_input_def)

lemma pump_ok_write:
  assumes "pump_ok p i o' ended c" "length d \<le> unat (remaining_outbound_capacity c)"
  shows "pump_ok p (i @ d) o' ended (fst (cn_write c d))" "snd (cn_write c d) = sz d"
proof -
  let ?b = "cn_outbound c"
  have wf: "bs_wf ?b" using assms(1) by (simp add: pump_ok_def)
  have f: "fits d" using assms(2) by (rule fitsI)
  have room: "length d \<le> bs_room ?b"
    using assms(2) wf by (simp add: remaining_outbound_capacity_def cn_outbound_def unat_remaining_capacity)
  have "unat (snd (bs_write ?b d)) = unat (sz d)" using bs_write_count [OF wf f] room f by (simp add: unat_sz)
  then have n: "snd (bs_write ?b d) = sz d" by (simp only: word_unat_eq_iff)
  then show "snd (cn_write c d) = sz d" by (simp add: cn_write_streams)
  have "bs_deq (fst (bs_write ?b d)) = bs_deq ?b @ d" using bs_write_deq [OF wf f] room by simp
  moreover have "bs_wf (fst (bs_write ?b d))" using wf f by (rule bs_write_wf)
  ultimately show "pump_ok p (i @ d) o' ended (fst (cn_write c d))"
    using assms(1) cn_write_streams(1,2) [of c d] n
    by (auto simp: pump_ok_def stream_drains_def sz_append intro: suffix_order.trans)
qed

lemma pump_ok_pop:
  assumes "pump_ok p i o' ended c" "unat n \<le> length (bs_deq (cn_inbound c))" "d = take (unat n) (bs_deq (cn_inbound c))"
  shows "pump_ok p i (o' @ d) ended (c\<lparr>cn_receiver := rc_set_stream_out (cn_receiver c) (pop_output (cn_inbound c) n)\<rparr>)"
proof -
  let ?c = "c\<lparr>cn_receiver := rc_set_stream_out (cn_receiver c) (pop_output (cn_inbound c) n)\<rparr>"
  have b: "cn_inbound ?c = pop_output (cn_inbound c) n" "cn_outbound ?c = cn_outbound c"
    by (simp_all add: cn_inbound_def cn_outbound_def rc_stream_out_def rc_set_stream_out_def)
  have wf: "bs_wf (cn_inbound c)" using assms(1) by (simp add: pump_ok_def)
  have "n \<le> sz (bs_deq (cn_inbound c))"
    using assms(2) bs_wf_fits [OF wf] by (simp add: word_le_nat_alt unat_sz)
  moreover have "n = sz d" using assms(2) by (simp add: sz_def assms(3))
  ultimately have "bs_bytes_readed (pop_output (cn_inbound c) n) = bs_bytes_readed (cn_inbound c) + sz d"
    by (simp add: pop_output_def Let_def min_absorb1)
  then show ?thesis
    using assms(1,3) pop_output_wf [OF wf, of n] unfolding pump_ok_def b by (simp add: sz_append pop_output_deq wf)
qed

lemma ss_print_simps [simp]:
  "ss_tcp (ss_print m s) = ss_tcp s" "ss_kernel (ss_print m s) = ss_kernel s"
  "ss_adapter (ss_print m s) = ss_adapter s" "ss_thread_data (ss_print m s) = ss_thread_data s"
  "ss_outbound_shutdown (ss_print m s) = ss_outbound_shutdown s"
  by (simp_all add: ss_print_def)

lemma sponge_print [simp]: "sponge_inv os inp out fd ad ok p (ss_print msg s) = sponge_inv os inp out fd ad ok p s"
  by (simp add: sponge_inv_def ss_print_def split: option.split)

lemma sponge_fully_acked [simp]:
  "sponge_inv os inp out fd ad ok p (s\<lparr>ss_fully_acked := b\<rparr>) = sponge_inv os inp out fd ad ok p s"
  "sponge_inv os inp out fd ad ok p (s\<lparr>ss_inbound_shutdown := b\<rparr>) = sponge_inv os inp out fd ad ok p s"
  by (simp_all add: sponge_inv_def split: option.split)

lemma ss_deref_Inr [simp]: "ss_deref s = Inr c \<longleftrightarrow> ss_tcp s = Some c"
  by (simp add: ss_deref_def split: option.split)

lemma ss_value_Inr [simp]: "ss_value s = Inr c \<longleftrightarrow> ss_tcp s = Some c"
  by (simp add: ss_value_def split: option.split)

lemma rule1_keeps:
  assumes inv: "sponge_inv os inp out fd ad ok p s" and cb: "rule1_callback gni ad s = Inr s'"
  shows "sponge_inv os inp out fd ad ok p s'"
proof -
  obtain k a seg where r: "ad_read ad (ss_kernel s) (ss_adapter s) = Inr (k, a, seg)"
    using cb by (auto simp: rule1_callback_def bindE_eq_Inr)
  let ?s = "s\<lparr>ss_kernel := k, ss_adapter := a\<rparr>"
  have s1: "sponge_inv os inp out fd ad ok p ?s"
    using inv quiet_adapter.read_quiet [of ad ok "fd_traffic inp out fd", OF _ _ r]
    by (auto simp: sponge_inv_def fd_traffic_def split: option.splits)
  obtain s2 where s2: "(case seg of None \<Rightarrow> Inr ?s
        | Some seg \<Rightarrow> bindE (ss_deref ?s) (\<lambda>c. bindE (cn_segment_received c seg) (\<lambda>c. Inr (?s\<lparr>ss_tcp := Some c\<rparr>)))) = Inr s2"
    using cb unfolding rule1_callback_def r bindE_Inr prod.case Let_def bindE_eq_Inr by blast
  have inv2: "sponge_inv os inp out fd ad ok p s2"
  proof (cases seg)
    case (Some g)
    then obtain c c' where c: "ss_tcp s = Some c" "cn_segment_received c g = Inr c'" "s2 = ?s\<lparr>ss_tcp := Some c'\<rparr>"
      using s2 by (auto simp: bindE_eq_Inr)
    then show ?thesis
      using s1 cn_segment_received_streams [OF c(2)] by (auto simp: sponge_inv_def intro: pump_ok_step)
  qed (use s1 s2 in auto)
  have "s' = s2 \<or> (\<exists>msg. s' = (ss_print msg s2)\<lparr>ss_fully_acked := True\<rparr>)"
    using cb unfolding rule1_callback_def r bindE_Inr prod.case Let_def s2
    by (auto simp: bindE_eq_Inr split: if_splits)
  then show ?thesis using inv2 by auto
qed

lemma rule2_keeps:
  assumes inv: "sponge_inv os inp out fd ad ok p s" and cb: "rule2_callback gni os ad s = Inr s'"
  shows "sponge_inv os inp out fd ad ok p s'"
proof -
  obtain c where c: "ss_tcp s = Some c" using cb by (auto simp: rule2_callback_def bindE_eq_Inr)
  obtain k w d where r: "fd_read os (ss_kernel s) (ss_thread_data s) (remaining_outbound_capacity c) = Inr (k, w, d)"
    using cb c by (auto simp: rule2_callback_def bindE_eq_Inr)
  have ker: "stream_kernel os inp out" using inv by (simp add: sponge_inv_def)
  note rd = stream_fd_read [OF ker r]
  let ?c = "fst (cn_write c d)"
  let ?s = "s\<lparr>ss_kernel := k, ss_thread_data := w, ss_tcp := Some ?c\<rparr>"
  have s1: "sponge_inv os inp out fd ad ok p ?s"
    using inv rd pump_ok_write [of p "inp (ss_kernel s) fd" "out (ss_kernel s) fd" _ c d] c
    by (auto simp: sponge_inv_def)
  then have s2: "sponge_inv os inp out fd ad ok p (?s\<lparr>ss_tcp := Some (end_input_stream ?c), ss_outbound_shutdown := True\<rparr>)"
    using pump_ok_end by (auto simp: sponge_inv_def)
  have "s' = ?s \<or> (\<exists>msg. s' = ss_print msg (?s\<lparr>ss_tcp := Some (end_input_stream ?c), ss_outbound_shutdown := True\<rparr>))"
    using cb c unfolding rule2_callback_def
    by (auto simp: bindE_eq_Inr r Let_def split_def ss_deref_def split: if_splits)
  then show ?thesis using s1 s2 by auto
qed

lemma rule3_keeps:
  assumes inv: "sponge_inv os inp out fd ad ok p s" and cb: "rule3_callback gni os ad s = Inr s'"
  shows "sponge_inv os inp out fd ad ok p s'"
proof -
  obtain c where c: "ss_tcp s = Some c" using cb by (auto simp: rule3_callback_def bindE_eq_Inr)
  let ?b = "cn_inbound c"
  let ?p = "peek_output ?b (min 65536 (buffer_size ?b))"
  have b: "rc_stream_out (cn_receiver c) = ?b" by (simp add: cn_inbound_def)
  have ker: "stream_kernel os inp out" and ok: "pump_ok p (inp (ss_kernel s) fd) (out (ss_kernel s) fd) (ss_outbound_shutdown s) c"
    using inv c by (auto simp: sponge_inv_def)
  note cb' = cb [unfolded rule3_callback_def ss_deref_def c option.case bindE_Inr Let_def b]
  obtain k w n where r: "fd_write os (ss_kernel s) (ss_thread_data s) (bvl_of_string ?p) False = Inr (k, w, n)"
    using cb' by (auto simp: bindE_eq_Inr)
  have pk: "?p = take (min 65536 (length (bs_deq ?b))) (bs_deq ?b)" "concat (bvl_of_string ?p) = ?p"
    using ok by (simp_all add: pump_ok_def peek_output_eq unat_min unat_buffer_size bvl_of_string_def)
  have "length (concat (bvl_of_string ?p)) < 9223372036854775808" unfolding pk(2) by (simp add: pk(1))
  note w = stream_fd_write [OF ker this r, unfolded pk(2)]
  let ?c = "c\<lparr>cn_receiver := rc_set_stream_out (cn_receiver c) (pop_output ?b n)\<rparr>"
  let ?s = "s\<lparr>ss_kernel := k, ss_thread_data := w, ss_tcp := Some ?c\<rparr>"
  have "pump_ok p (inp (ss_kernel s) fd) (out (ss_kernel s) fd @ take (unat n) ?p) (ss_outbound_shutdown s) ?c"
  proof (rule pump_ok_pop [OF ok])
    have "unat n \<le> min 65536 (length (bs_deq ?b))" using w(2) unfolding pk(1) by simp
    then show "unat n \<le> length (bs_deq ?b)" "take (unat n) ?p = take (unat n) (bs_deq ?b)"
      unfolding pk(1) by (simp_all add: min_def split: if_splits)
  qed
  then have s1: "sponge_inv os inp out fd ad ok p ?s" using inv w by (auto simp: sponge_inv_def)
  show ?thesis
  proof (cases "bs_eof (pop_output ?b n) \<or> bs_error (pop_output ?b n)")
    case True
    then obtain k1 w1 where sh: "sock_shutdown os k w SHUT_WR = Inr (k1, w1)"
      using cb' by (auto simp: r bindE_eq_Inr)
    have "sponge_inv os inp out fd ad ok p (?s\<lparr>ss_kernel := k1, ss_thread_data := w1\<rparr>)"
      using s1 stream_shutdown [OF ker sh] by (simp add: sponge_inv_def)
    moreover have "\<exists>m m'. s' = ss_print m' (ss_print m (?s\<lparr>ss_kernel := k1, ss_thread_data := w1, ss_inbound_shutdown := True\<rparr>)) \<or>
        s' = ss_print m (?s\<lparr>ss_kernel := k1, ss_thread_data := w1, ss_inbound_shutdown := True\<rparr>)"
      using cb' True sh by (auto simp: r bindE_eq_Inr split: if_splits)
    ultimately show ?thesis using sponge_fully_acked(2) by auto
  qed (use cb' r s1 in auto)
qed

lemma rule4_loop_keeps:
  "sponge_inv os inp out fd ad ok p s \<Longrightarrow> ss_tcp s = Some c \<Longrightarrow> rule4_loop ad q c s = Inr s' \<Longrightarrow>
    sponge_inv os inp out fd ad ok p s'"
proof (induction q arbitrary: c s)
  case (Cons seg q)
  obtain k a where w: "ad_write ad (ss_kernel s) (ss_adapter s) seg = Inr (k, a)"
    and rest: "rule4_loop ad q (c\<lparr>cn_segments_out := q\<rparr>)
      (s\<lparr>ss_kernel := k, ss_adapter := a, ss_tcp := Some (c\<lparr>cn_segments_out := q\<rparr>)\<rparr>) = Inr s'"
    using Cons.prems(3) by (auto simp: bindE_eq_Inr Let_def)
  have "pump_ok p i o' e (c\<lparr>cn_segments_out := q\<rparr>) = pump_ok p i o' e c" for i o' e
    by (simp add: pump_ok_def cn_outbound_def cn_inbound_def)
  then have "sponge_inv os inp out fd ad ok p
      (s\<lparr>ss_kernel := k, ss_adapter := a, ss_tcp := Some (c\<lparr>cn_segments_out := q\<rparr>)\<rparr>)"
    using Cons.prems(1,2) quiet_adapter.write_quiet [of ad ok "fd_traffic inp out fd", OF _ _ w]
    by (auto simp: sponge_inv_def fd_traffic_def)
  then show ?case using Cons.IH [OF _ _ rest] by simp
qed simp

lemma rule4_keeps:
  "sponge_inv os inp out fd ad ok p s \<Longrightarrow> rule4_callback ad s = Inr s' \<Longrightarrow> sponge_inv os inp out fd ad ok p s'"
  by (auto simp: rule4_callback_def bindE_eq_Inr intro: rule4_loop_keeps)

lemma rule2_cancel_keeps:
  "sponge_inv os inp out fd ad ok p s \<Longrightarrow> rule2_cancel s = Inr s' \<Longrightarrow> sponge_inv os inp out fd ad ok p s'"
  by (auto simp: rule2_cancel_def bindE_eq_Inr sponge_inv_def intro: pump_ok_end)

lemma set_initialize_rules:
  "set (initialize_rules gni os ad []) = {
     \<lparr>rl_fd = ad_fd ad \<circ> ss_adapter, rl_direction = In, rl_callback = rule1_callback gni ad,
      rl_interest = rule1_interest, rl_cancel = Inr\<rparr>,
     \<lparr>rl_fd = ss_thread_data, rl_direction = In, rl_callback = rule2_callback gni os ad,
      rl_interest = rule2_interest, rl_cancel = rule2_cancel\<rparr>,
     \<lparr>rl_fd = ss_thread_data, rl_direction = Out, rl_callback = rule3_callback gni os ad,
      rl_interest = rule3_interest, rl_cancel = Inr\<rparr>,
     \<lparr>rl_fd = ad_fd ad \<circ> ss_adapter, rl_direction = Out, rl_callback = rule4_callback ad,
      rl_interest = rule4_interest, rl_cancel = Inr\<rparr>}"
  by (simp add: initialize_rules_def add_rule_def Let_def insert_commute)

interpretation pump: loop_client "sponge_inv os inp out fd ad ok p" "initialize_rules gni os ad []" "socket_poll os"
  for os inp out fd ad ok p gni
proof (unfold_locales, goal_cases)
  case (1 rule s s')
  then consider "rule1_callback gni ad s = Inr s'" | "rule2_callback gni os ad s = Inr s'"
    | "rule3_callback gni os ad s = Inr s'" | "rule4_callback ad s = Inr s'"
    unfolding set_initialize_rules by (elim insertE emptyE) simp_all
  then show ?case
    by cases (rule rule1_keeps [OF 1(2)] rule2_keeps [OF 1(2)] rule3_keeps [OF 1(2)] rule4_keeps [OF 1(2)];
      assumption)+
next
  case (2 rule s s')
  then consider "rl_cancel rule = Inr" | "rl_cancel rule = rule2_cancel"
    unfolding set_initialize_rules by (elim insertE emptyE) simp_all
  then show ?case by cases (use 2 rule2_cancel_keeps [OF 2(2)] in simp_all)
next
  case (3 s fds t s' r)
  then show ?case
    using stream_kernel_frame(4) [of os inp out "ss_kernel s" fds t]
    by (auto simp: socket_poll_def sponge_inv_def split: prod.splits option.splits)
qed

lemma tcp_loop_from_keeps:
  "set rs \<subseteq> set (initialize_rules gni os ad []) \<Longrightarrow> sponge_inv os inp out fd ad ok p s \<Longrightarrow>
    tcp_loop_from os ad abort condition n base_time rs s = Inr (s', rs', ended) \<Longrightarrow>
    sponge_inv os inp out fd ad ok p s' \<and> subseq rs' rs"
proof (induction n arbitrary: base_time rs s)
  case (Suc n)
  show ?case
  proof (cases "condition s = Inr True")
    case True
    then obtain s1 rs1 ret where w: "wait_next_event (socket_poll os) rs TCP_TICK_MS s = Inr (s1, rs1, ret)"
      using Suc.prems(3) by (auto simp: bindE_eq_Inr)
    have k: "sponge_inv os inp out fd ad ok p s1" "subseq rs1 rs"
      using pump.wait_keeps [OF Suc.prems(1,2) w] by simp_all
    then have sub: "set rs1 \<subseteq> set (initialize_rules gni os ad [])" using Suc.prems(1) subseq_set by blast
    note eq = Suc.prems(3) [unfolded tcp_loop_from.simps True bindE_Inr w prod.case]
    consider "s' = s1" "rs' = rs1" | "tcp_loop_from os ad abort condition n base_time rs1 s1 = Inr (s', rs', ended)"
      | c k1 t a k2 where "ss_tcp s1 = Some c" "os_clock os (ss_kernel s1) = (k1, t)"
        "ad_tick ad k1 (ss_adapter s1) (t - base_time) = Inr (k2, a)"
        "tcp_loop_from os ad abort condition n t rs1 (s1\<lparr>ss_tcp := Some (cn_tick c (t - base_time)),
           ss_kernel := k2, ss_adapter := a\<rparr>) = Inr (s', rs', ended)"
      using eq by (auto simp: bindE_eq_Inr Let_def split: if_splits prod.splits)
    then show ?thesis
    proof cases
      case 1
      then show ?thesis using k by simp
    next
      case 2
      then show ?thesis using Suc.IH [OF sub k(1)] k(2) subseq_order.trans by blast
    next
      case 3
      have "inp k1 = inp (ss_kernel s1) \<and> out k1 = out (ss_kernel s1)"
        using k(1) stream_kernel_frame(8) [of os inp out "ss_kernel s1"] 3(2) by (simp add: sponge_inv_def)
      then have "sponge_inv os inp out fd ad ok p (s1\<lparr>ss_tcp := Some (cn_tick c (t - base_time)),
           ss_kernel := k2, ss_adapter := a\<rparr>)"
        using k(1) 3(1) quiet_adapter.tick_quiet [of ad ok "fd_traffic inp out fd", OF _ _ 3(3)]
        by (auto simp: sponge_inv_def fd_traffic_def intro: pump_ok_step cn_tick_streams)
      then show ?thesis using Suc.IH [OF sub _ 3(4)] k(2) subseq_order.trans by blast
    qed
  next
    case False
    then show ?thesis using Suc.prems by (auto simp: bindE_eq_Inr split: if_splits)
  qed
qed auto

lemma tcp_loop_keeps:
  assumes "set rs \<subseteq> set (initialize_rules gni os ad [])" "sponge_inv os inp out fd ad ok p s"
    and "tcp_loop os ad abort condition n rs s = Inr (s', rs', ended)"
  shows "sponge_inv os inp out fd ad ok p s' \<and> subseq rs' rs"
proof -
  obtain k t where c: "os_clock os (ss_kernel s) = (k, t)" by fastforce
  have "sponge_inv os inp out fd ad ok p (s\<lparr>ss_kernel := k\<rparr>)"
    using assms(2) stream_kernel_frame(8) [of os inp out "ss_kernel s"] c
    by (auto simp: sponge_inv_def split: option.splits)
  then show ?thesis using tcp_loop_from_keeps [OF assms(1)] assms(3) c by (simp add: tcp_loop_def)
qed

text \<open>A socket whose connection has just been opened.\<close>

lemma fresh_connection: "pump_ok [] [] [] False (TCPConnection_init cfg r)"
  using ByteStream_init_wf
  by (auto simp: pump_ok_def TCPConnection_init_def cn_outbound_def cn_inbound_def TCPSender_init_def
      TCPReceiver_init_def rc_stream_out_def StreamReassembler_init_def)
    (simp_all add: ByteStream_init_def)

definition sponge_fresh :: "('k \<Rightarrow> int \<Rightarrow> bytes) \<Rightarrow> ('k \<Rightarrow> int \<Rightarrow> bytes) \<Rightarrow> int \<Rightarrow> ('k, 'a) sponge \<Rightarrow> bool" where
  "sponge_fresh inp out fd s \<longleftrightarrow> fd_num (ss_thread_data s) = fd \<and> \<not> ss_outbound_shutdown s \<and>
     inp (ss_kernel s) fd = [] \<and> out (ss_kernel s) fd = []"

lemma start_keeps:
  assumes "stream_kernel os inp out" "quiet_adapter ad ok (fd_traffic inp out fd)"
    and "ok (ss_adapter s)" "sponge_fresh inp out fd s"
    and "ss_connect gni os ad abort n c_tcp random c_ad s [] = Inr (s1, rules, ended) \<or>
      listen_and_accept gni os ad abort n c_tcp random c_ad s [] = Inr (s1, rules, ended)"
  shows "sponge_inv os inp out fd ad ok [] s1 \<and> subseq rules (initialize_rules gni os ad [])"
proof -
  let ?c = "TCPConnection_init c_tcp random"
  have set: "ok (ad_set_base ad a b)" if "ok a" for a b using quiet_adapter.set_base_ok [OF assms(2) that] .
  have conn: "pump_ok [] [] [] False ?c" "pump_ok [] [] [] False (connect ?c)"
    using fresh_connection connect_streams [of ?c]
    by (auto intro: pump_ok_step [OF fresh_connection [of c_tcp random]])
  have inv: "sponge_inv os inp out fd ad ok [] t"
    if "ss_tcp t = Some ?c \<or> ss_tcp t = Some (connect ?c)" "ok (ss_adapter t)" "ss_kernel t = ss_kernel s"
      "ss_thread_data t = ss_thread_data s" "ss_outbound_shutdown t = ss_outbound_shutdown s" for t
    using that assms(1,2,4) conn by (auto simp: sponge_inv_def sponge_fresh_def)
  let ?s = "ss_set_config ad c_ad (s\<lparr>ss_tcp := Some ?c\<rparr>)"
  let ?rules = "initialize_rules gni os ad []"
  have ok: "ok (ss_adapter ?s)" using assms(3) set by (simp add: ss_set_config_def)
  obtain t cond s0 ended0 where t: "tcp_loop os ad abort cond n ?rules t = Inr (s0, rules, ended0)"
      "\<exists>m. s1 = s0 \<or> s1 = ss_print m s0"
      "ss_tcp t = Some ?c \<or> ss_tcp t = Some (connect ?c)" "ok (ss_adapter t)" "ss_kernel t = ss_kernel s"
      "ss_thread_data t = ss_thread_data s" "ss_outbound_shutdown t = ss_outbound_shutdown s"
    using assms(5)
  proof
    assume "ss_connect gni os ad abort n c_tcp random c_ad s [] = Inr (s1, rules, ended)"
    then obtain m m' s0 ended0 where L: "tcp_loop os ad abort connecting n ?rules
        ((ss_print m ?s)\<lparr>ss_tcp := Some (connect ?c)\<rparr>) = Inr (s0, rules, ended0)" "s1 = s0 \<or> s1 = ss_print m' s0"
      unfolding ss_connect_def initialize_TCP_def Let_def prod.case
      by (auto simp: bindE_eq_Inr ss_set_config_def split: if_splits)
    show thesis by (rule that [OF L(1)]) (use L(2) ok in \<open>auto simp: ss_set_config_def\<close>)
  next
    assume "listen_and_accept gni os ad abort n c_tcp random c_ad s [] = Inr (s1, rules, ended)"
    then obtain m m' s0 ended0 where L: "tcp_loop os ad abort accepting n ?rules
        (ss_print m (?s\<lparr>ss_adapter := ad_set_base ad (ss_adapter ?s) (set_listening (ad_base ad (ss_adapter ?s)) True)\<rparr>)) =
        Inr (s0, rules, ended0)" "s1 = s0 \<or> s1 = ss_print m' s0"
      unfolding listen_and_accept_def initialize_TCP_def Let_def prod.case
      by (auto simp: bindE_eq_Inr split: if_splits)
    show thesis by (rule that [OF L(1)]) (use L(2) ok set in \<open>auto simp: ss_set_config_def\<close>)
  qed
  have "sponge_inv os inp out fd ad ok [] s0 \<and> subseq rules (initialize_rules gni os ad [])"
    using tcp_loop_keeps [OF _ inv [OF t(3-7)] t(1)] by blast
  then show ?thesis using t(2) by auto
qed

section \<open>Properties\<close>

text \<open>
  C32. The socket moves the data of the application faithfully, whatever segments arrive, however
  the kernel splits reads and writes, and for any number of rounds of the event loop after
  \<open>connect\<close> or \<open>listen_and_accept\<close>. Outbound: the connection has been given exactly the bytes
  read from the application, its buffer is their tail, and the next read fits its free space
  completely, so that \<open>write\<close> never accepts less than advertised; after the end of input the
  outbound stream is ended. Inbound: the application has been given as many bytes as were taken
  from the inbound stream, and what it was or will be given is never changed, only extended.
\<close>

theorem socket_moves_data:
  assumes "stream_kernel os inp out" "quiet_adapter ad ok (fd_traffic inp out fd)"
    and "ok (ss_adapter s)" "sponge_fresh inp out fd s"
    and "ss_connect gni os ad abort n c_tcp random c_ad s [] = Inr (s1, rules1, ended1) \<or>
      listen_and_accept gni os ad abort n c_tcp random c_ad s [] = Inr (s1, rules1, ended1)"
    and "tcp_loop os ad abort condition m rules1 s1 = Inr (s2, rules2, ended2)"
    and "ss_tcp s1 = Some c1" "ss_tcp s2 = Some c2"
  shows "bytes_written (cn_outbound c2) = sz (inp (ss_kernel s2) fd) \<and>
    suffix (bs_deq (cn_outbound c2)) (inp (ss_kernel s2) fd) \<and>
    (fd_read os (ss_kernel s2) (ss_thread_data s2) (remaining_outbound_capacity c2) = Inr (k, w, d) \<longrightarrow>
       snd (cn_write c2 d) = sz d) \<and>
    (ss_outbound_shutdown s2 \<longrightarrow> input_ended (cn_outbound c2)) \<and>
    bytes_read (cn_inbound c2) = sz (out (ss_kernel s2) fd) \<and>
    prefix (out (ss_kernel s1) fd @ bs_deq (cn_inbound c1)) (out (ss_kernel s2) fd @ bs_deq (cn_inbound c2)) \<and>
    subseq rules2 (initialize_rules gni os ad [])"
proof -
  let ?p = "out (ss_kernel s1) fd @ bs_deq (cn_inbound c1)"
  have s1: "sponge_inv os inp out fd ad ok [] s1" "subseq rules1 (initialize_rules gni os ad [])"
    using start_keeps [OF assms(1-5)] by simp_all
  then have "sponge_inv os inp out fd ad ok ?p s1" using assms(7) by (simp add: sponge_inv_def pump_ok_def)
  then have s2: "sponge_inv os inp out fd ad ok ?p s2" "subseq rules2 rules1"
    using tcp_loop_keeps [OF subseq_set [OF s1(2)] _ assms(6)] by simp_all
  then have ok: "pump_ok ?p (inp (ss_kernel s2) fd) (out (ss_kernel s2) fd) (ss_outbound_shutdown s2) c2"
    using assms(8) by (simp add: sponge_inv_def)
  have "snd (cn_write c2 d) = sz d"
    if "fd_read os (ss_kernel s2) (ss_thread_data s2) (remaining_outbound_capacity c2) = Inr (k, w, d)"
    using pump_ok_write(2) [OF ok] stream_fd_read(2) [OF assms(1) that] .
  moreover have "subseq rules2 (initialize_rules gni os ad [])" using s1(2) s2(2) subseq_order.trans by blast
  ultimately show ?thesis
    using ok by (simp add: pump_ok_def bytes_written_def bytes_read_def input_ended_def)
qed

text \<open>
  The abort flag ends the thread within one round of its loop, whatever the state of the connection
  is, so the destructor does not block: no budget of rounds above one makes a difference.
\<close>

lemma aborted_loop: "tcp_loop os ad (\<lambda>k. True) (\<lambda>s. Inr True) (Suc n) rules s =
  (let (k, _) = os_clock os (ss_kernel s) in
   bindE (wait_next_event (socket_poll os) rules TCP_TICK_MS (s\<lparr>ss_kernel := k\<rparr>)) (\<lambda>(s, rules, _). Inr (s, rules, True)))"
  by (simp add: tcp_loop_def split_def Let_def)

theorem destructor_ends:
  "TCPSpongeSocket_destroy os ad (Suc n) joinable s rules = TCPSpongeSocket_destroy os ad 1 joinable s rules \<and>
   (TCPSpongeSocket_destroy os ad (Suc n) joinable s rules = Inr (s', rules', ended) \<longrightarrow> ended)"
proof -
  have one: "(1 :: nat) = Suc 0" by simp
  show ?thesis
    unfolding TCPSpongeSocket_destroy_def tcp_main_def one aborted_loop
    by (auto simp: bindE_eq_Inr Let_def split_def split: if_splits)
qed

text \<open>A kernel that reports a descriptor as readable when something can be read, and takes every datagram.\<close>

definition local_os :: "((int \<Rightarrow> bytes) \<times> (int \<Rightarrow> bytes) \<times> (int \<Rightarrow> bytes)) os" where
  "local_os = ready_os\<lparr>
     os_poll := \<lambda>(p, i, w) fds t. let ev = map (\<lambda>(fd, e). if e = POLLIN \<and> p fd = [] then 0 else e) fds
       in ((p, i, w), (int (length (filter (\<lambda>e. e \<noteq> 0) ev)), 0), ev),
     os_sendmsg := \<lambda>k fd a n iov. (k, (int (length (concat (map fst iov))), 0))\<rparr>"

lemma local_os_ok: "stream_kernel local_os (\<lambda>k. fst (snd k)) (\<lambda>k. snd (snd k))"
  unfolding stream_kernel_def local_os_def ready_os_def by (auto simp: Let_def fun_eq_iff word_le_nat_alt)

definition local_config :: FdAdapterConfig where
  "local_config = \<lparr>fc_source = ipv4_address 0x7f000001 1, fc_destination = ipv4_address 0x7f000001 2,
     fc_loss_rate_dn = 0, fc_loss_rate_up = 0\<rparr>"

definition local_fd :: "int \<Rightarrow> FDWrapper" where
  "local_fd n = \<lparr>fd_num = n, fd_eof = False, fd_closed = False, fd_read_count = 0, fd_write_count = 0\<rparr>"

definition local_socket :: "((int \<Rightarrow> bytes) \<times> (int \<Rightarrow> bytes) \<times> (int \<Rightarrow> bytes), TCPOverUDPSocketAdapter) sponge" where
  "local_socket = \<lparr>ss_kernel = ((\<lambda>fd. if fd = 4 then [1, 2, 3] else []), (\<lambda>fd. []), (\<lambda>fd. [])),
     ss_owner = local_fd 3, ss_thread_data = local_fd 4,
     ss_adapter = \<lparr>ua_base = \<lparr>fa_cfg = local_config, fa_listen = False\<rparr>, ua_sock = local_fd 5\<rparr>,
     ss_tcp = None, ss_inbound_shutdown = False, ss_outbound_shutdown = False, ss_fully_acked = False,
     ss_cerr = []\<rparr>"

definition local_tcp :: TCPConfig where
  "local_tcp = TCPConfig_init\<lparr>cfg_recv_capacity := 8, cfg_send_capacity := 8\<rparr>"

text \<open>One round inside \<open>connect\<close> and one more of the thread.\<close>

definition local_connect where
  "local_connect = ss_connect numeric_getnameinfo local_os (udp_adapter numeric_getnameinfo local_os) (\<lambda>k. False) 1
     local_tcp 7 local_config local_socket []"

lemma local_run: "case local_connect of Inl e \<Rightarrow> False | Inr (s1, rules1, ended1) \<Rightarrow>
  ss_tcp s1 \<noteq> None \<and>
  (case tcp_loop local_os (udp_adapter numeric_getnameinfo local_os) (\<lambda>k. False) (\<lambda>s. Inr True) 1 rules1 s1 of
     Inl e \<Rightarrow> False | Inr (s2, rules2, ended2) \<Rightarrow> ss_tcp s2 \<noteq> None \<and> fst (snd (ss_kernel s2)) 4 = [1, 2, 3])"
  by code_simp

theorem socket_moves_data_witness:
  "\<exists>s1 rules1 ended1 s2 rules2 ended2 c2. local_connect = Inr (s1, rules1, ended1) \<and>
     tcp_loop local_os (udp_adapter numeric_getnameinfo local_os) (\<lambda>k. False) (\<lambda>s. Inr True) 1 rules1 s1 =
       Inr (s2, rules2, ended2) \<and> ss_tcp s2 = Some c2 \<and>
     bytes_written (cn_outbound c2) = 3 \<and> suffix (bs_deq (cn_outbound c2)) [1, 2, 3]"
proof -
  let ?ad = "udp_adapter numeric_getnameinfo local_os"
  obtain s1 rules1 ended1 s2 rules2 ended2 c1 c2 where r: "local_connect = Inr (s1, rules1, ended1)"
      "tcp_loop local_os ?ad (\<lambda>k. False) (\<lambda>s. Inr True) 1 rules1 s1 = Inr (s2, rules2, ended2)"
      "ss_tcp s1 = Some c1" "ss_tcp s2 = Some c2" "fst (snd (ss_kernel s2)) 4 = [1, 2, 3]"
    using local_run by (auto split: sum.splits)
  have fresh: "sponge_fresh (\<lambda>k. fst (snd k)) (\<lambda>k. snd (snd k)) 4 local_socket"
    by (simp add: sponge_fresh_def local_socket_def local_fd_def)
  have "sz [1, 2, 3 :: u8] = 3" by (simp add: sz_def)
  then show ?thesis
    using socket_moves_data [OF local_os_ok udp.quiet_adapter_axioms local_os_ok fresh
        disjI1 [OF r(1) [unfolded local_connect_def]] r(2-4)] r by simp blast
qed

end
