(* ===== verification/Command_Line.thy ===== *)
theory Command_Line
  imports Sponge_Socket
begin

text \<open>
  The command lines of the three programs that copy between the standard streams and a
  connection (\<open>src/apps/tcp_ipv4.cc\<close>, \<open>tcp_udp.cc\<close>, \<open>tcp_ip_ethernet.cc\<close>): their options, \<open>get_config\<close> and
  \<open>main\<close>.

  \<open>argv\<close> is the list of all arguments, the name of the program first. The conversion of a loss
  rate, which goes through \<open>float\<close>, is an argument. Random numbers are arguments.
\<close>

section \<open>C strings\<close>

definition strncmp_eq :: "string \<Rightarrow> string \<Rightarrow> nat \<Rightarrow> bool" where
  "strncmp_eq a b n \<longleftrightarrow> take n (a @ [CHR 0x00]) = take n (b @ [CHR 0x00])"

definition strtol_digit :: "char \<Rightarrow> nat" where
  "strtol_digit c =
     (let k = of_char c in
      if 48 \<le> k \<and> k < 58 then k - 48
      else if 97 \<le> k \<and> k < 123 then k - 87
      else if 65 \<le> k \<and> k < 91 then k - 55
      else 36)"

text \<open>\<open>strtol(s, nullptr, 0)\<close>: the prefix tells the base, numbers that do not fit are cut off.\<close>

definition strtol :: "string \<Rightarrow> int" where
  "strtol s =
     (let s = dropWhile is_space s;
          neg = (s \<noteq> [] \<and> hd s = CHR ''-'');
          s = (if s \<noteq> [] \<and> (hd s = CHR ''-'' \<or> hd s = CHR ''+'') then tl s else s);
          hex = (2 < length s \<and> hd s = CHR ''0'' \<and> (s ! 1 = CHR ''x'' \<or> s ! 1 = CHR ''X'') \<and> strtol_digit (s ! 2) < 16);
          base = (if hex then 16 else if s \<noteq> [] \<and> hd s = CHR ''0'' then 8 else 10);
          ds = takeWhile (\<lambda>c. strtol_digit c < base) (if hex then drop 2 s else s);
          n = int (foldl (\<lambda>v c. base * v + strtol_digit c) 0 ds)
      in max (- (2 ^ 63)) (min (2 ^ 63 - 1) (if neg then - n else n)))"

section \<open>Options\<close>

text \<open>The local variables of \<open>get_config\<close>.\<close>

record config_vars =
  cv_fsm :: TCPConfig
  cv_filt :: FdAdapterConfig
  cv_listen :: bool
  cv_device :: "string option"
  cv_source_address :: string
  cv_source_port :: string
  cv_next_hop :: string

text \<open>
  A program either goes on or ends with an exit status after writing a text. What a branch of
  the loop does with an option: set something, take the next argument (with the message for when
  it is missing), or end.
\<close>

datatype 'c parsed = Run 'c | Quit int string

datatype option_action = Flag "config_vars \<Rightarrow> config_vars"
  | Value string "string \<Rightarrow> config_vars \<Rightarrow> config_vars res"
  | Help
  | Unrecognized

definition set_recv_capacity :: "string \<Rightarrow> config_vars \<Rightarrow> config_vars res" where
  "set_recv_capacity v c = Inr (c\<lparr>cv_fsm := (cv_fsm c)\<lparr>cfg_recv_capacity := word_of_int (strtol v)\<rparr>\<rparr>)"

definition set_rt_timeout :: "string \<Rightarrow> config_vars \<Rightarrow> config_vars res" where
  "set_rt_timeout v c = Inr (c\<lparr>cv_fsm := (cv_fsm c)\<lparr>cfg_rt_timeout := word_of_int (strtol v)\<rparr>\<rparr>)"

definition set_loss_rate_up :: "(string \<Rightarrow> u16 res) \<Rightarrow> string \<Rightarrow> config_vars \<Rightarrow> config_vars res" where
  "set_loss_rate_up loss v c =
     bindE (loss v) (\<lambda>r. Inr (c\<lparr>cv_filt := (cv_filt c)\<lparr>fc_loss_rate_up := r\<rparr>\<rparr>))"

definition set_loss_rate_dn :: "(string \<Rightarrow> u16 res) \<Rightarrow> string \<Rightarrow> config_vars \<Rightarrow> config_vars res" where
  "set_loss_rate_dn loss v c =
     bindE (loss v) (\<lambda>r. Inr (c\<lparr>cv_filt := (cv_filt c)\<lparr>fc_loss_rate_dn := r\<rparr>\<rparr>))"

definition requires_argument :: "string \<Rightarrow> string" where
  "requires_argument opt = ''ERROR: '' @ opt @ '' requires one argument.''"

definition ipv4_option :: "(string \<Rightarrow> u16 res) \<Rightarrow> string \<Rightarrow> option_action" where
  "ipv4_option loss arg =
     (if strncmp_eq ''-l'' arg 3 then Flag (\<lambda>c. c\<lparr>cv_listen := True\<rparr>)
      else if strncmp_eq ''-a'' arg 3
      then Value (requires_argument ''-a'') (\<lambda>v c. Inr (c\<lparr>cv_source_address := v\<rparr>))
      else if strncmp_eq ''-s'' arg 3
      then Value (requires_argument ''-s'') (\<lambda>v c. Inr (c\<lparr>cv_source_port := v\<rparr>))
      else if strncmp_eq ''-w'' arg 3 then Value (requires_argument ''-w'') set_recv_capacity
      else if strncmp_eq ''-t'' arg 3 then Value (requires_argument ''-t'') set_rt_timeout
      else if strncmp_eq ''-d'' arg 3
      then Value (requires_argument ''-t'') (\<lambda>v c. Inr (c\<lparr>cv_device := Some v\<rparr>))
      else if strncmp_eq ''-Lu'' arg 3 then Value (requires_argument ''-Lu'') (set_loss_rate_up loss)
      else if strncmp_eq ''-Ld'' arg 3 then Value (requires_argument ''-Lu'') (set_loss_rate_dn loss)
      else if strncmp_eq ''-h'' arg 3 then Help
      else Unrecognized)"

definition udp_option :: "(string \<Rightarrow> u16 res) \<Rightarrow> string \<Rightarrow> option_action" where
  "udp_option loss arg =
     (if strncmp_eq ''-l'' arg 3 then Flag (\<lambda>c. c\<lparr>cv_listen := True\<rparr>)
      else if strncmp_eq ''-w'' arg 3 then Value (requires_argument ''-w'') set_recv_capacity
      else if strncmp_eq ''-t'' arg 3 then Value (requires_argument ''-t'') set_rt_timeout
      else if strncmp_eq ''-Lu'' arg 3 then Value (requires_argument ''-Lu'') (set_loss_rate_up loss)
      else if strncmp_eq ''-Ld'' arg 3 then Value (requires_argument ''-Lu'') (set_loss_rate_dn loss)
      else if strncmp_eq ''-h'' arg 3 then Help
      else Unrecognized)"

definition ethernet_option :: "string \<Rightarrow> option_action" where
  "ethernet_option arg =
     (if strncmp_eq ''-a'' arg 3
      then Value (requires_argument ''-a'') (\<lambda>v c. Inr (c\<lparr>cv_source_address := v\<rparr>))
      else if strncmp_eq ''-s'' arg 3
      then Value (requires_argument ''-s'') (\<lambda>v c. Inr (c\<lparr>cv_source_port := v\<rparr>))
      else if strncmp_eq ''-n'' arg 3
      then Value (requires_argument ''-n'') (\<lambda>v c. Inr (c\<lparr>cv_next_hop := v\<rparr>))
      else if strncmp_eq ''-w'' arg 3 then Value (requires_argument ''-w'') set_recv_capacity
      else if strncmp_eq ''-t'' arg 3 then Value (requires_argument ''-t'') set_rt_timeout
      else if strncmp_eq ''-d'' arg 3
      then Value (requires_argument ''-t'') (\<lambda>v c. Inr (c\<lparr>cv_device := Some v\<rparr>))
      else if strncmp_eq ''-h'' arg 3 then Help
      else Unrecognized)"

text \<open>Reading past the end of \<open>argv\<close> is undefined.\<close>

definition argv_at :: "string list \<Rightarrow> nat \<Rightarrow> string res" where
  "argv_at argv i = (if i < length argv then Inr (argv ! i) else Inl Undefined_Behaviour)"

text \<open>The loop of the three functions; \<open>usage\<close> is what \<open>show_usage\<close> writes for a message. The result
  is the variables and the index of the first argument that is not an option.\<close>

function option_loop :: "(string \<Rightarrow> option_action) \<Rightarrow> (string option \<Rightarrow> string) \<Rightarrow> string list \<Rightarrow> nat \<Rightarrow>
    config_vars \<Rightarrow> (config_vars \<times> nat) parsed res" where
  "option_loop option usage argv cur c =
     (if int (length argv) - int cur > 2 then
        bindE (argv_at argv cur) (\<lambda>arg.
        case option arg of
          Flag f \<Rightarrow> option_loop option usage argv (cur + 1) (f c)
        | Value err f \<Rightarrow>
            if cur + 3 \<ge> length argv then Inr (Quit 1 (usage (Some err)))
            else bindE (argv_at argv (cur + 1)) (\<lambda>v.
                 bindE (f v c) (\<lambda>c. option_loop option usage argv (cur + 2) c))
        | Help \<Rightarrow> Inr (Quit 0 (usage None))
        | Unrecognized \<Rightarrow> Inr (Quit 1 (usage (Some (''ERROR: unrecognized option '' @ arg)))))
      else Inr (Run (c, cur)))"
  by pat_completeness auto
termination
  by (relation "measure (\<lambda>(option, usage, argv, cur, c). length argv - cur)") auto

declare option_loop.simps [simp del]

section \<open>Usage\<close>

definition TUN_DFLT :: string where "TUN_DFLT = ''tun144''"
definition TAP_DFLT :: string where "TAP_DFLT = ''tap10''"
definition ipv4_LOCAL_ADDRESS_DFLT :: string where "ipv4_LOCAL_ADDRESS_DFLT = ''169.254.144.9''"
definition ethernet_LOCAL_ADDRESS_DFLT :: string where "ethernet_LOCAL_ADDRESS_DFLT = ''169.254.10.9''"
definition GATEWAY_DFLT :: string where "GATEWAY_DFLT = ''169.254.10.1''"

definition usage_end :: "string option \<Rightarrow> string" where
  "usage_end msg = (case msg of None \<Rightarrow> [] | Some m \<Rightarrow> m) @ newline"

definition ipv4_show_usage :: "string \<Rightarrow> string option \<Rightarrow> string" where
  "ipv4_show_usage argv0 msg =
     ''Usage: '' @ argv0 @ '' [options] <host> <port>'' @ newline @ newline @
     ''   Option                                                          Default'' @ newline @
     ''   --                                                              --'' @ newline @ newline @
     ''   -l              Server (listen) mode.                           (client mode)'' @ newline @
     ''                   In server mode, <host>:<port> is the address to bind.'' @ newline @ newline @
     ''   -a <addr>       Set source address (client mode only)           '' @ ipv4_LOCAL_ADDRESS_DFLT @ newline @
     ''   -s <port>       Set source port (client mode only)              (random)'' @ newline @ newline @
     ''   -w <winsz>      Use a window of <winsz> bytes                   '' @
        to_string_nat (unat MAX_PAYLOAD_SIZE) @ newline @ newline @
     ''   -t <tmout>      Set rt_timeout to tmout                         '' @
        to_string_nat (unat (cfg_rt_timeout TCPConfig_init)) @ newline @ newline @
     ''   -d <tundev>     Connect to tun <tundev>                         '' @ TUN_DFLT @ newline @ newline @
     ''   -Lu <loss>      Set uplink loss to <rate> (float in 0..1)       (no loss)'' @ newline @
     ''   -Ld <loss>      Set downlink loss to <rate> (float in 0..1)     (no loss)'' @ newline @ newline @
     ''   -h              Show this message.'' @ newline @ newline @ usage_end msg"

definition udp_show_usage :: "string \<Rightarrow> string option \<Rightarrow> string" where
  "udp_show_usage argv0 msg =
     ''Usage: '' @ argv0 @ '' [options] <host> <port>'' @ newline @ newline @
     ''   Option                                                          Default'' @ newline @
     ''   --                                                              --'' @ newline @ newline @
     ''   -l              Server (listen) mode.                           (client mode)'' @ newline @
     ''                   In server mode, <host>:<port> is the address to bind.'' @ newline @ newline @
     ''   -w <winsz>      Use a window of <winsz> bytes                   '' @
        to_string_nat (unat MAX_PAYLOAD_SIZE) @ newline @ newline @
     ''   -t <tmout>      Set rt_timeout to tmout                         '' @
        to_string_nat (unat (cfg_rt_timeout TCPConfig_init)) @ newline @ newline @
     ''   -Lu <loss>      Set uplink loss to <rate> (float in 0..1)       (no loss)'' @ newline @
     ''   -Ld <loss>      Set downlink loss to <rate> (float in 0..1)     (no loss)'' @ newline @ newline @
     ''   -h              Show this message and quit.'' @ newline @ newline @ usage_end msg"

definition ethernet_show_usage :: "string \<Rightarrow> string option \<Rightarrow> string" where
  "ethernet_show_usage argv0 msg =
     ''Usage: '' @ argv0 @ '' [options] <host> <port>'' @ newline @ newline @
     ''   Option                                                          Default'' @ newline @
     ''   --                                                              --'' @ newline @ newline @
     ''   -a <addr>       Set IP source address (client mode only)        '' @ ethernet_LOCAL_ADDRESS_DFLT @ newline @
     ''   -s <port>       Set TCP source port (client mode only)          (random)'' @ newline @ newline @
     ''   -n <addr>       Set IP next-hop address                         '' @ GATEWAY_DFLT @ newline @
     ''   -w <winsz>      Use a window of <winsz> bytes                   '' @
        to_string_nat (unat MAX_PAYLOAD_SIZE) @ newline @ newline @
     ''   -t <tmout>      Set rt_timeout to tmout                         '' @
        to_string_nat (unat (cfg_rt_timeout TCPConfig_init)) @ newline @ newline @
     ''   -d <tapdev>     Connect to tap <tapdev>                         '' @ TAP_DFLT @ newline @ newline @
     ''   -h              Show this message.'' @ newline @ newline @ usage_end msg"

section \<open>Configurations\<close>

text \<open>The variables before the loop.\<close>

definition config_start :: "getaddrinfo \<Rightarrow> string \<Rightarrow> string \<Rightarrow> config_vars res" where
  "config_start gai source_address source_port =
     bindE (FdAdapterConfig_init gai) (\<lambda>c_filt.
       Inr \<lparr>cv_fsm = TCPConfig_init, cv_filt = c_filt, cv_listen = False, cv_device = None,
            cv_source_address = source_address, cv_source_port = source_port, cv_next_hop = GATEWAY_DFLT\<rparr>)"

definition random_port :: "u32 \<Rightarrow> string" where
  "random_port random = to_string_nat (unat (ucast random :: u16))"

text \<open>What comes after the loop, when it did not end the program.\<close>

fun continue_with :: "'a parsed \<Rightarrow> ('a \<Rightarrow> 'b parsed res) \<Rightarrow> 'b parsed res" where
  "continue_with (Run x) f = f x"
| "continue_with (Quit status txt) f = Inr (Quit status txt)"

definition ipv4_get_config :: "getaddrinfo \<Rightarrow> getnameinfo \<Rightarrow> (string \<Rightarrow> u16 res) \<Rightarrow> u32 \<Rightarrow> string list \<Rightarrow>
    (TCPConfig \<times> FdAdapterConfig \<times> bool \<times> string option) parsed res" where
  "ipv4_get_config gai gni loss random argv =
     (let usage = ipv4_show_usage (argv ! 0) in
      bindE (config_start gai ipv4_LOCAL_ADDRESS_DFLT (random_port random)) (\<lambda>c.
      bindE (option_loop (ipv4_option loss) usage argv 1 c) (\<lambda>r. continue_with r (\<lambda>(c, cur).
      if cv_listen c then
        bindE (argv_at argv (cur + 1)) (\<lambda>service.
        bindE (Address_of_host gai ''0'' service) (\<lambda>source.
        bindE (address_port gni source) (\<lambda>port.
        if port = 0 then Inr (Quit 1 (usage (Some ''ERROR: listen port cannot be zero in server mode.'')))
        else Inr (Run (cv_fsm c, (cv_filt c)\<lparr>fc_source := source\<rparr>, True, cv_device c)))))
      else
        bindE (argv_at argv cur) (\<lambda>host.
        bindE (argv_at argv (cur + 1)) (\<lambda>service.
        bindE (Address_of_host gai host service) (\<lambda>destination.
        bindE (Address_of_host gai (cv_source_address c) (cv_source_port c)) (\<lambda>source.
          Inr (Run (cv_fsm c, (cv_filt c)\<lparr>fc_destination := destination, fc_source := source\<rparr>,
                    False, cv_device c))))))))))"

definition udp_get_config :: "getaddrinfo \<Rightarrow> (string \<Rightarrow> u16 res) \<Rightarrow> string list \<Rightarrow>
    (TCPConfig \<times> FdAdapterConfig \<times> bool) parsed res" where
  "udp_get_config gai loss argv =
     bindE (config_start gai [] []) (\<lambda>c.
     bindE (option_loop (udp_option loss) (udp_show_usage (argv ! 0)) argv 1 c) (\<lambda>r. continue_with r (\<lambda>(c, cur).
     bindE (argv_at argv (length argv - 1)) (\<lambda>service.
     if cv_listen c then
       bindE (Address_of_host gai ''0'' service) (\<lambda>source.
         Inr (Run (cv_fsm c, (cv_filt c)\<lparr>fc_source := source\<rparr>, True)))
     else
       bindE (argv_at argv (length argv - 2)) (\<lambda>host.
       bindE (Address_of_host gai host service) (\<lambda>destination.
         Inr (Run (cv_fsm c, (cv_filt c)\<lparr>fc_destination := destination\<rparr>, False))))))))"

definition ethernet_get_config :: "getaddrinfo \<Rightarrow> u32 \<Rightarrow> string list \<Rightarrow>
    (TCPConfig \<times> FdAdapterConfig \<times> Address \<times> string) parsed res" where
  "ethernet_get_config gai random argv =
     bindE (config_start gai ethernet_LOCAL_ADDRESS_DFLT (random_port random)) (\<lambda>c.
     bindE (option_loop ethernet_option (ethernet_show_usage (argv ! 0)) argv 1 c) (\<lambda>r. continue_with r (\<lambda>(c, cur).
     bindE (argv_at argv cur) (\<lambda>host.
     bindE (argv_at argv (cur + 1)) (\<lambda>service.
     bindE (Address_of_host gai host service) (\<lambda>destination.
     bindE (Address_of_host gai (cv_source_address c) (cv_source_port c)) (\<lambda>source.
     bindE (Address_of_host gai (cv_next_hop c) ''0'') (\<lambda>next_hop.
       Inr (Run (cv_fsm c, (cv_filt c)\<lparr>fc_destination := destination, fc_source := source\<rparr>, next_hop,
                 case cv_device c of None \<Rightarrow> TAP_DFLT | Some d \<Rightarrow> d))))))))))"

section \<open>Connections\<close>

text \<open>\<open>main\<close> of the three programs up to the established connection.\<close>

definition ipv4_connection :: "getaddrinfo \<Rightarrow> getnameinfo \<Rightarrow> 'k os \<Rightarrow> ('r \<Rightarrow> 'r \<times> u32) \<Rightarrow> 'r \<Rightarrow> ('k \<Rightarrow> bool) \<Rightarrow> nat \<Rightarrow>
    (string \<Rightarrow> u16 res) \<Rightarrow> u32 \<Rightarrow> u32 \<Rightarrow> 'k \<Rightarrow> string list \<Rightarrow>
    (('k, ('r, TCPOverIPv4OverTunFdAdapter) LossyFdAdapter) sponge \<times>
     ('k, ('r, TCPOverIPv4OverTunFdAdapter) LossyFdAdapter) sponge Rule list \<times> bool) parsed res" where
  "ipv4_connection gai gni os gen seed abort n loss random random_isn k argv =
     (if length argv < 3
      then Inr (Quit 1 (ipv4_show_usage (argv ! 0) (Some ''ERROR: required arguments are missing.'')))
      else
        bindE (ipv4_get_config gai gni loss random argv) (\<lambda>r. continue_with r (\<lambda>(c_fsm, c_filt, listen, tun_dev_name).
        bindE (TunFD_init os k (case tun_dev_name of None \<Rightarrow> TUN_DFLT | Some d \<Rightarrow> d)) (\<lambda>(k, tun).
        bindE (FdAdapterBase_init gai) (\<lambda>base.
        bindE (TCPSpongeSocket_init os k \<lparr>lo_rand = seed, lo_adapter = \<lparr>ta_base = base, ta_tun = tun\<rparr>\<rparr>) (\<lambda>tcp_socket.
        let ad = lossy_adapter gen (tun_adapter gai gni os) in
        bindE (if listen
               then listen_and_accept gni os ad abort n c_fsm random_isn c_filt tcp_socket []
               else ss_connect gni os ad abort n c_fsm random_isn c_filt tcp_socket []) (\<lambda>x. Inr (Run x))))))))"

definition udp_connection :: "getaddrinfo \<Rightarrow> getnameinfo \<Rightarrow> 'k os \<Rightarrow> ('r \<Rightarrow> 'r \<times> u32) \<Rightarrow> 'r \<Rightarrow> ('k \<Rightarrow> bool) \<Rightarrow> nat \<Rightarrow>
    (string \<Rightarrow> u16 res) \<Rightarrow> u32 \<Rightarrow> 'k \<Rightarrow> string list \<Rightarrow>
    (('k, ('r, TCPOverUDPSocketAdapter) LossyFdAdapter) sponge \<times>
     ('k, ('r, TCPOverUDPSocketAdapter) LossyFdAdapter) sponge Rule list \<times> bool) parsed res" where
  "udp_connection gai gni os gen seed abort n loss random_isn k argv =
     (if length argv < 3
      then Inr (Quit 1 (udp_show_usage (argv ! 0) (Some ''ERROR: required arguments are missing.'')))
      else
        bindE (udp_get_config gai loss argv) (\<lambda>r. continue_with r (\<lambda>(c_fsm, c_filt, listen).
        bindE (UDPSocket_init os k) (\<lambda>(k, udp_sock).
        bindE (if listen then sock_bind os k udp_sock (fc_source c_filt) else Inr k) (\<lambda>k.
        bindE (FdAdapterBase_init gai) (\<lambda>base.
        bindE (TCPSpongeSocket_init os k \<lparr>lo_rand = seed, lo_adapter = \<lparr>ua_base = base, ua_sock = udp_sock\<rparr>\<rparr>) (\<lambda>tcp_socket.
        let ad = lossy_adapter gen (udp_adapter gni os) in
        bindE (if listen
               then listen_and_accept gni os ad abort n c_fsm random_isn c_filt tcp_socket []
               else ss_connect gni os ad abort n c_fsm random_isn c_filt tcp_socket []) (\<lambda>x. Inr (Run x)))))))))"

definition ethernet_connection :: "getaddrinfo \<Rightarrow> getnameinfo \<Rightarrow> 'k os \<Rightarrow> ('k \<Rightarrow> bool) \<Rightarrow> nat \<Rightarrow>
    u32 list \<Rightarrow> u32 \<Rightarrow> u32 \<Rightarrow> 'k \<Rightarrow> string list \<Rightarrow>
    (('k, TCPOverIPv4OverEthernetAdapter) sponge \<times> ('k, TCPOverIPv4OverEthernetAdapter) sponge Rule list \<times> bool)
      parsed res" where
  "ethernet_connection gai gni os abort n random_address random random_isn k argv =
     (if length argv < 3
      then Inr (Quit 1 (ethernet_show_usage (argv ! 0) (Some ''ERROR: required arguments are missing.'')))
      else
        let local_ethernet_address = random_private_ethernet_address random_address in
        bindE (ethernet_get_config gai random argv) (\<lambda>r. continue_with r (\<lambda>(c_fsm, c_filt, next_hop, tap_dev_name).
        bindE (TapFD_init os k tap_dev_name) (\<lambda>(k, tap).
        bindE (TCPOverIPv4OverEthernetAdapter_init gai os k tap local_ethernet_address (fc_source c_filt) next_hop) (\<lambda>(k, adapter).
        bindE (TCPSpongeSocket_init os k adapter) (\<lambda>tcp_socket.
        bindE (ss_connect gni os (eth_adapter gai gni os) abort n c_fsm random_isn c_filt tcp_socket []) (\<lambda>x.
          Inr (Run x))))))))"

text \<open>
  What the programs do with the connection: copy the standard streams, for a number of rounds, and
  wait until the connection is closed. The result tells whether the program has come to its end.
\<close>

definition program_end :: "'k os \<Rightarrow> ('k, 'a) adapter \<Rightarrow> ('k \<Rightarrow> bool) \<Rightarrow> nat \<Rightarrow> nat \<Rightarrow>
    ('k, 'a) sponge \<times> ('k, 'a) sponge Rule list \<times> bool \<Rightarrow> bool parsed res" where
  "program_end os ad abort n rounds x =
     (case x of (s, rules, connected) \<Rightarrow>
      if \<not> connected then Inr (Run False)
      else
      bindE (bidirectional_stream_copy os rounds (ss_kernel s) (ss_owner s)) (\<lambda>(c, _, finished).
      if \<not> finished then Inr (Run False)
      else
      bindE (wait_until_closed os ad abort n True (s\<lparr>ss_kernel := cp_kernel c, ss_owner := cp_socket c\<rparr>) rules)
        (\<lambda>(_, _, ended). Inr (Run ended))))"

definition ipv4_main :: "getaddrinfo \<Rightarrow> getnameinfo \<Rightarrow> 'k os \<Rightarrow> ('r \<Rightarrow> 'r \<times> u32) \<Rightarrow> 'r \<Rightarrow> ('k \<Rightarrow> bool) \<Rightarrow> nat \<Rightarrow> nat \<Rightarrow>
    (string \<Rightarrow> u16 res) \<Rightarrow> u32 \<Rightarrow> u32 \<Rightarrow> 'k \<Rightarrow> string list \<Rightarrow> bool parsed res" where
  "ipv4_main gai gni os gen seed abort n rounds loss random random_isn k argv =
     bindE (ipv4_connection gai gni os gen seed abort n loss random random_isn k argv) (\<lambda>r.
       continue_with r (program_end os (lossy_adapter gen (tun_adapter gai gni os)) abort n rounds))"

definition udp_main :: "getaddrinfo \<Rightarrow> getnameinfo \<Rightarrow> 'k os \<Rightarrow> ('r \<Rightarrow> 'r \<times> u32) \<Rightarrow> 'r \<Rightarrow> ('k \<Rightarrow> bool) \<Rightarrow> nat \<Rightarrow> nat \<Rightarrow>
    (string \<Rightarrow> u16 res) \<Rightarrow> u32 \<Rightarrow> 'k \<Rightarrow> string list \<Rightarrow> bool parsed res" where
  "udp_main gai gni os gen seed abort n rounds loss random_isn k argv =
     bindE (udp_connection gai gni os gen seed abort n loss random_isn k argv) (\<lambda>r.
       continue_with r (program_end os (lossy_adapter gen (udp_adapter gni os)) abort n rounds))"

definition ethernet_main :: "getaddrinfo \<Rightarrow> getnameinfo \<Rightarrow> 'k os \<Rightarrow> ('k \<Rightarrow> bool) \<Rightarrow> nat \<Rightarrow> nat \<Rightarrow>
    u32 list \<Rightarrow> u32 \<Rightarrow> u32 \<Rightarrow> 'k \<Rightarrow> string list \<Rightarrow> bool parsed res" where
  "ethernet_main gai gni os abort n rounds random_address random random_isn k argv =
     bindE (ethernet_connection gai gni os abort n random_address random random_isn k argv) (\<lambda>r.
       continue_with r (program_end os (eth_adapter gai gni os) abort n rounds))"

section \<open>Lists of options\<close>

text \<open>An option as the user means it, and how it is written on the command line.\<close>

datatype option_item = Item string "string option"

fun render_item :: "option_item \<Rightarrow> string list" where
  "render_item (Item name None) = [name]"
| "render_item (Item name (Some v)) = [name, v]"

text \<open>The program knows the option, with or without a value, and what it then does.\<close>

fun item_known :: "(string \<Rightarrow> option_action) \<Rightarrow> option_item \<Rightarrow> bool" where
  "item_known option (Item name None) = (case option name of Flag _ \<Rightarrow> True | _ \<Rightarrow> False)"
| "item_known option (Item name (Some v)) = (case option name of Value _ _ \<Rightarrow> True | _ \<Rightarrow> False)"

fun apply_item :: "(string \<Rightarrow> option_action) \<Rightarrow> option_item \<Rightarrow> config_vars \<Rightarrow> config_vars res" where
  "apply_item option (Item name v) c =
     (case (option name, v) of
        (Flag f, _) \<Rightarrow> Inr (f c)
      | (Value err f, Some v) \<Rightarrow> f v c
      | _ \<Rightarrow> Inr c)"

fun apply_items :: "(string \<Rightarrow> option_action) \<Rightarrow> option_item list \<Rightarrow> config_vars \<Rightarrow> config_vars res" where
  "apply_items option [] c = Inr c"
| "apply_items option (i # is) c = bindE (apply_item option i c) (apply_items option is)"

definition render_items :: "option_item list \<Rightarrow> string list" where
  "render_items items = concat (map render_item items)"

lemma option_loop_items:
  "list_all (item_known option) items \<Longrightarrow>
   option_loop option usage (pre @ render_items items @ [host, port]) (length pre) c =
     bindE (apply_items option items c) (\<lambda>c'. Inr (Run (c', length pre + length (render_items items))))"
proof (induction items arbitrary: pre c)
  case Nil
  then show ?case by (simp add: option_loop.simps [of _ _ _ "length pre"] render_items_def)
next
  case (Cons i items)
  obtain name v where i: "i = Item name v" by (cases i)
  let ?rest = "render_items items @ [host, port]"
  show ?case
  proof (cases v)
    case None
    then obtain f where f: "option name = Flag f"
      using Cons.prems i by (cases "option name") auto
    have argv: "pre @ render_items (i # items) @ [host, port] = (pre @ [name]) @ ?rest"
      by (simp add: render_items_def i None)
    have "option_loop option usage ((pre @ [name]) @ ?rest) (length pre) c =
        option_loop option usage ((pre @ [name]) @ ?rest) (length (pre @ [name])) (f c)"
      using f by (subst option_loop.simps) (simp add: argv_at_def nth_append)
    then show ?thesis
      unfolding argv using Cons.IH [of "pre @ [name]" "f c"] Cons.prems f
      by (simp add: i None render_items_def)
  next
    case (Some x)
    then obtain err f where f: "option name = Value err f"
      using Cons.prems i by (cases "option name") auto
    have argv: "pre @ render_items (i # items) @ [host, port] = (pre @ [name, x]) @ ?rest"
      by (simp add: render_items_def i Some)
    have "option_loop option usage ((pre @ [name, x]) @ ?rest) (length pre) c =
        bindE (f x c) (\<lambda>c. option_loop option usage ((pre @ [name, x]) @ ?rest) (length (pre @ [name, x])) c)"
      using f by (subst option_loop.simps) (simp add: argv_at_def nth_append)
    then show ?thesis
      unfolding argv using Cons.IH [of "pre @ [name, x]"] Cons.prems f
      by (simp add: i Some render_items_def bindE_assoc)
  qed
qed

text \<open>Whatever the arguments are, the loop stops in front of the last two.\<close>

lemma option_loop_last_two:
  "cur + 2 \<le> length argv \<Longrightarrow> option_loop option usage argv cur c = Inr (Run (c', cur')) \<Longrightarrow> cur' + 2 = length argv"
proof (induction option usage argv cur c rule: option_loop.induct)
  case (1 option usage argv cur c)
  show ?case
  proof (cases "int (length argv) - int cur > 2")
    case True
    then have at: "argv_at argv cur = Inr (argv ! cur)" by (simp add: argv_at_def)
    note eq = "1.prems"(2) [unfolded option_loop.simps [of option usage argv cur c]]
    show ?thesis
    proof (cases "option (argv ! cur)")
      case (Flag f)
      then show ?thesis using "1.IH"(1) [OF True at] eq True at by auto
    next
      case (Value err f)
      then obtain v c1 where "\<not> cur + 3 \<ge> length argv" "argv_at argv (cur + 1) = Inr v" "f v c = Inr c1"
          "option_loop option usage argv (cur + 2) c1 = Inr (Run (c', cur'))"
        using eq True at by (auto simp: bindE_eq_Inr split: if_splits)
      then show ?thesis using "1.IH"(2) [OF True at Value] by auto
    qed (use eq True at in auto)
  next
    case False
    then show ?thesis using "1.prems" by (simp add: option_loop.simps [of option usage argv cur c])
  qed
qed


section \<open>No access past the arguments\<close>

definition actions_defined :: "(string \<Rightarrow> option_action) \<Rightarrow> bool" where
  "actions_defined option \<longleftrightarrow> (\<forall>arg err f v c. option arg = Value err f \<longrightarrow> defined (f v c))"

lemma argv_at_inside [simp]: "i < length argv \<Longrightarrow> argv_at argv i = Inr (argv ! i)"
  by (simp add: argv_at_def)

lemma option_loop_defined: "actions_defined option \<Longrightarrow> defined (option_loop option usage argv cur c)"
proof (induction option usage argv cur c rule: option_loop.induct)
  case (1 option usage argv cur c)
  show ?case
  proof (cases "int (length argv) - int cur > 2")
    case True
    then have at: "argv_at argv cur = Inr (argv ! cur)" "argv_at argv (cur + 1) = Inr (argv ! (cur + 1))" by simp_all
    show ?thesis
    proof (cases "option (argv ! cur)")
      case (Flag f)
      then show ?thesis
        using "1.IH"(1) [OF True at(1) Flag "1.prems"] True at by (simp add: option_loop.simps [of option usage argv cur c])
    next
      case (Value err f)
      have "defined (bindE (f (argv ! (cur + 1)) c) (\<lambda>c. option_loop option usage argv (cur + 2) c))"
        if "\<not> cur + 3 \<ge> length argv"
        using "1.IH"(2) [OF True at(1) Value that at(2) _ "1.prems"] "1.prems" Value
        by (auto simp: actions_defined_def)
      then show ?thesis
        using Value True at by (simp add: option_loop.simps [of option usage argv cur c])
    qed (use True at in \<open>simp_all add: option_loop.simps [of option usage argv cur c]\<close>)
  qed (simp add: option_loop.simps [of option usage argv cur c])
qed

lemma set_options_defined [simp]:
  "defined (set_recv_capacity v c)" "defined (set_rt_timeout v c)"
  "defined (loss v) \<Longrightarrow> defined (set_loss_rate_up loss v c)"
  "defined (loss v) \<Longrightarrow> defined (set_loss_rate_dn loss v c)"
  by (auto simp: set_recv_capacity_def set_rt_timeout_def set_loss_rate_up_def set_loss_rate_dn_def)

lemma options_defined:
  "\<forall>s. defined (loss s) \<Longrightarrow> actions_defined (ipv4_option loss)"
  "\<forall>s. defined (loss s) \<Longrightarrow> actions_defined (udp_option loss)"
  "actions_defined ethernet_option"
  by (auto simp: actions_defined_def ipv4_option_def udp_option_def ethernet_option_def split: if_splits)

text \<open>A resolver whose addresses are as long as it says.\<close>

definition resolver_lengths :: "getaddrinfo \<Rightarrow> bool" where
  "resolver_lengths gai \<longleftrightarrow> (\<forall>node service hints addrs. gai node service hints = Inr addrs \<longrightarrow>
     list_all (\<lambda>(a, l). unat l \<le> length a) addrs)"

lemma resolve_defined:
  assumes "resolver_lengths gai"
  shows "defined (Address_resolve gai node service hints)"
proof (cases "gai node service hints")
  case (Inr addrs)
  then have "list_all (\<lambda>(a, l). unat l \<le> length a) addrs" using assms by (simp add: resolver_lengths_def)
  then show ?thesis by (cases addrs) (auto simp: Inr Address_resolve_def Address_of_sockaddr_def)
qed (simp add: Address_resolve_def)

lemma address_defined:
  assumes "resolver_lengths gai"
  shows "defined (Address_of_host gai a b)" "defined (Address_of_ip gai a p)"
  using resolve_defined [OF assms] by (simp_all add: Address_of_host_def Address_of_ip_def)

lemma port_defined: "defined (address_port gni a)"
proof -
  have "defined (stoi s)" for s by (simp add: stoi_def Let_def)
  then show ?thesis by (auto simp: address_port_def ip_port_def split: sum.splits intro!: defined_bind)
qed

lemma config_start_defined: "resolver_lengths gai \<Longrightarrow> defined (config_start gai a b)"
  by (auto simp: config_start_def FdAdapterConfig_init_def intro!: defined_bind address_defined)

lemma continue_defined: "(\<And>x. r = Run x \<Longrightarrow> defined (f x)) \<Longrightarrow> defined (continue_with r f)"
  by (cases r) auto

lemma get_config_defined:
  assumes argv: "3 \<le> length argv" and gai: "resolver_lengths gai" and loss: "\<forall>s. defined (loss s)"
  shows "defined (ipv4_get_config gai gni loss random argv)" "defined (udp_get_config gai loss argv)"
    "defined (ethernet_get_config gai random argv)"
proof -
  have last: "defined (argv_at argv cur) \<and> defined (argv_at argv (Suc cur))"
    if "option_loop option usage argv (Suc 0) c = Inr (Run (c', cur))" for option usage c c' cur
    using option_loop_last_two [OF _ that] argv by auto
  show "defined (ipv4_get_config gai gni loss random argv)"
    unfolding ipv4_get_config_def Let_def
    by (intro defined_bind continue_defined config_start_defined option_loop_defined options_defined gai loss)
      (auto dest!: last intro!: defined_bind address_defined port_defined gai)
  show "defined (udp_get_config gai loss argv)"
    unfolding udp_get_config_def Let_def
    by (intro defined_bind continue_defined config_start_defined option_loop_defined options_defined gai loss)
      (use argv in \<open>auto intro!: defined_bind address_defined gai\<close>)
  show "defined (ethernet_get_config gai random argv)"
    unfolding ethernet_get_config_def Let_def
    by (intro defined_bind continue_defined config_start_defined option_loop_defined options_defined gai)
      (auto dest!: last intro!: defined_bind address_defined gai)
qed

section \<open>Properties\<close>


lemma example_numbers: "strtol ''-0x1f'' = - 31" "strtol '' 017'' = 15" "strtol ''12ab'' = 12"
  by code_simp+

lemma example_actions:
  "udp_option loss ''-l'' = Flag (\<lambda>c. c\<lparr>cv_listen := True\<rparr>)"
  "udp_option loss ''-w'' = Value (requires_argument ''-w'') set_recv_capacity"
  "udp_option loss ''-t'' = Value (requires_argument ''-t'') set_rt_timeout"
  by (simp_all add: udp_option_def strncmp_eq_def)

definition example_vars :: config_vars where
  "example_vars = \<lparr>cv_fsm = TCPConfig_init, cv_filt = \<lparr>fc_source = ipv4_address 0 0, fc_destination = ipv4_address 0 0,
     fc_loss_rate_dn = 0, fc_loss_rate_up = 0\<rparr>, cv_listen = False, cv_device = None, cv_source_address = [],
     cv_source_port = [], cv_next_hop = []\<rparr>"


text \<open>
  With at least a host and a port on the command line none of the three programs reads past
  the end of \<open>argv\<close>, whatever the arguments are: reading the configuration ends with a
  configuration, with a usage text, or with an exception.
\<close>

theorem get_config_in_bounds:
  assumes "3 \<le> length argv" "resolver_lengths gai" "\<forall>s. loss s \<noteq> Inl Undefined_Behaviour"
  shows "ipv4_get_config gai gni loss random argv \<noteq> Inl Undefined_Behaviour \<and>
    udp_get_config gai loss argv \<noteq> Inl Undefined_Behaviour \<and>
    ethernet_get_config gai random argv \<noteq> Inl Undefined_Behaviour"
  using get_config_defined [OF assms(1,2)] assms(3) by (simp add: defined_def)

lemma numeric_resolver_lengths: "resolver_lengths numeric_getaddrinfo"
  by (simp add: resolver_lengths_def numeric_getaddrinfo_def sockaddr_in_def be16_def be32_def)

theorem get_config_in_bounds_witness:
  "ipv4_get_config numeric_getaddrinfo numeric_getnameinfo (\<lambda>s. Inr 0) 0 [''tcp_ipv4'', ''-a'', ''-l''] \<noteq>
     Inl Undefined_Behaviour"
  using get_config_in_bounds [of "[''tcp_ipv4'', ''-a'', ''-l'']", OF _ numeric_resolver_lengths,
      of "\<lambda>s. Inr 0" numeric_getnameinfo 0] by simp

text \<open>
  The options for losses are compared without their terminating null character: every argument
  that begins with \<open>-Lu\<close> is taken for the option.
\<close>

theorem loss_option_prefix:
  "ipv4_option loss (''-Lu'' @ s) = Value (requires_argument ''-Lu'') (set_loss_rate_up loss) \<and>
   udp_option loss (''-Ld'' @ s) = Value (requires_argument ''-Lu'') (set_loss_rate_dn loss)"
  by (simp add: ipv4_option_def udp_option_def strncmp_eq_def)

end
