(* ===== verification/Lab7.thy ===== *)
theory Lab7
  imports Network_Simulator Command_Line
begin

text \<open>
  The program \<open>src/apps/lab7.cc\<close>: a TCP socket on a simulated host whose frames go over a local
  socket pair to a router, which exchanges frames with the other side over UDP. The adapter and the
  socket of the host, the construction of the router, and the event loop of the network thread are
  modelled. Random numbers and the exit flag are arguments; the loop takes a bound on the number
  of rounds. The functions for random Ethernet addresses are those of the network simulator.
\<close>

section \<open>The adapter\<close>

text \<open>
  The fields are those of \<open>TCPOverIPv4OverEthernetAdapter\<close>, with the first end of the socket pair in
  place of the device; the second end belongs to the network thread.
\<close>

type_synonym NetworkInterfaceAdapter = TCPOverIPv4OverEthernetAdapter

fun nia_send_pending_loop :: "'k os \<Rightarrow> 'k \<Rightarrow> EthernetFrame list \<Rightarrow> NetworkInterfaceAdapter \<Rightarrow>
    ('k \<times> NetworkInterfaceAdapter) res" where
  "nia_send_pending_loop os k [] a = Inr (k, a\<lparr>ea_interface := (ea_interface a)\<lparr>ni_frames_out := []\<rparr>\<rparr>)"
| "nia_send_pending_loop os k (f # fs) a =
     bindE (fd_write os k (ea_tap a) (ethernet_frame_serialize f) True) (\<lambda>(k, w, _).
       nia_send_pending_loop os k fs (a\<lparr>ea_tap := w, ea_interface := (ea_interface a)\<lparr>ni_frames_out := fs\<rparr>\<rparr>))"

definition nia_send_pending :: "'k os \<Rightarrow> 'k \<Rightarrow> NetworkInterfaceAdapter \<Rightarrow> ('k \<times> NetworkInterfaceAdapter) res" where
  "nia_send_pending os k a = nia_send_pending_loop os k (ni_frames_out (ea_interface a)) a"

definition NetworkInterfaceAdapter_init :: "getaddrinfo \<Rightarrow> 'k os \<Rightarrow> 'k \<Rightarrow> u32 list \<Rightarrow> Address \<Rightarrow> Address \<Rightarrow>
    ('k \<times> NetworkInterfaceAdapter \<times> FDWrapper) res" where
  "NetworkInterfaceAdapter_init gai os k random ip_address next_hop =
     bindE (FdAdapterBase_init gai) (\<lambda>base.
     bindE (socket_pair_helper os k SOCK_DGRAM) (\<lambda>(k, first, second).
       Inr (k, \<lparr>ea_base = base, ea_tap = first,
                ea_interface = NetworkInterface_init (random_host_ethernet_address random) ip_address,
                ea_next_hop = next_hop\<rparr>, second)))"

definition nia_read :: "getaddrinfo \<Rightarrow> getnameinfo \<Rightarrow> 'k os \<Rightarrow> 'k \<Rightarrow> NetworkInterfaceAdapter \<Rightarrow>
    ('k \<times> NetworkInterfaceAdapter \<times> TCPSegment option) res" where
  "nia_read gai gni os k a =
     bindE (fd_read os k (ea_tap a) max_size) (\<lambda>(k, w, str).
     let a = a\<lparr>ea_tap := w\<rparr>;
         (result, frame) = ethernet_frame_parse EthernetFrame_init str
     in
     if result \<noteq> NoError then Inr (k, a, None)
     else
     bindE (ni_recv_frame (ea_interface a) frame) (\<lambda>(i, ip_dgram).
     bindE (nia_send_pending os k (a\<lparr>ea_interface := i\<rparr>)) (\<lambda>(k, a).
     case ip_dgram of
       None \<Rightarrow> Inr (k, a, None)
     | Some d \<Rightarrow>
       bindE (unwrap_tcp_in_ip gai gni (ea_base a) d) (\<lambda>(base, seg). Inr (k, a\<lparr>ea_base := base\<rparr>, seg)))))"

definition nia_write :: "getnameinfo \<Rightarrow> 'k os \<Rightarrow> 'k \<Rightarrow> NetworkInterfaceAdapter \<Rightarrow> TCPSegment \<Rightarrow>
    ('k \<times> NetworkInterfaceAdapter) res" where
  "nia_write gni os k a seg =
     bindE (wrap_tcp_in_ip gni (ea_base a) seg) (\<lambda>(seg, ip_dgram).
     bindE (send_datagram (ea_interface a) ip_dgram (ea_next_hop a)) (\<lambda>i.
       nia_send_pending os k (a\<lparr>ea_interface := i\<rparr>)))"

definition nia_tick :: "'k os \<Rightarrow> 'k \<Rightarrow> NetworkInterfaceAdapter \<Rightarrow> u64 \<Rightarrow> ('k \<times> NetworkInterfaceAdapter) res" where
  "nia_tick os k a ms_since_last_tick =
     nia_send_pending os k (a\<lparr>ea_interface := ni_tick (ea_interface a) ms_since_last_tick\<rparr>)"

definition nia_adapter :: "getaddrinfo \<Rightarrow> getnameinfo \<Rightarrow> 'k os \<Rightarrow> ('k, NetworkInterfaceAdapter) adapter" where
  "nia_adapter gai gni os = \<lparr>ad_read = nia_read gai gni os, ad_write = nia_write gni os, ad_tick = nia_tick os,
     ad_base = ea_base, ad_set_base = \<lambda>a b. a\<lparr>ea_base := b\<rparr>, ad_fd = ea_tap\<rparr>"

section \<open>The socket\<close>

text \<open>The socket, the second end of the pair, and the local address.\<close>

record 'k TCPSocketLab7 =
  l7_socket :: "('k, NetworkInterfaceAdapter) sponge"
  l7_rules :: "('k, NetworkInterfaceAdapter) sponge Rule list"
  l7_frame_fd :: FDWrapper
  l7_local_address :: Address

definition TCPSocketLab7_init :: "getaddrinfo \<Rightarrow> 'k os \<Rightarrow> 'k \<Rightarrow> u32 list \<Rightarrow> Address \<Rightarrow> Address \<Rightarrow>
    'k TCPSocketLab7 res" where
  "TCPSocketLab7_init gai os k random ip_address next_hop =
     bindE (NetworkInterfaceAdapter_init gai os k random ip_address next_hop) (\<lambda>(k, adapter, frame_fd).
     bindE (TCPSpongeSocket_init os k adapter) (\<lambda>s.
       Inr \<lparr>l7_socket = s, l7_rules = [], l7_frame_fd = frame_fd, l7_local_address = ip_address\<rparr>))"

definition address_ip :: "getnameinfo \<Rightarrow> Address \<Rightarrow> string res" where
  "address_ip gni a = bindE (ip_port gni a) (\<lambda>(ip, _). Inr ip)"

definition l7_connect :: "getaddrinfo \<Rightarrow> getnameinfo \<Rightarrow> 'k os \<Rightarrow> ('k \<Rightarrow> bool) \<Rightarrow> nat \<Rightarrow> u32 \<Rightarrow> u32 \<Rightarrow> Address \<Rightarrow>
    'k TCPSocketLab7 \<Rightarrow> ('k TCPSocketLab7 \<times> bool) res" where
  "l7_connect gai gni os abort n random random_isn address l =
     bindE (FdAdapterConfig_init gai) (\<lambda>multiplexer_config.
     bindE (address_ip gni (l7_local_address l)) (\<lambda>ip.
     bindE (Address_of_ip gai ip (ucast random)) (\<lambda>local.
     bindE (address_to_string gni local) (\<lambda>txt.
     let l = l\<lparr>l7_local_address := local,
               l7_socket := ss_print (''DEBUG: Connecting from '' @ txt @ ''...'' @ newline) (l7_socket l)\<rparr>;
         multiplexer_config = multiplexer_config\<lparr>fc_source := local, fc_destination := address\<rparr>
     in
     bindE (ss_connect gni os (nia_adapter gai gni os) abort n TCPConfig_init random_isn multiplexer_config
              (l7_socket l) (l7_rules l)) (\<lambda>(s, rules, ended).
       Inr (l\<lparr>l7_socket := s, l7_rules := rules\<rparr>, ended))))))"

definition l7_bind :: "getaddrinfo \<Rightarrow> getnameinfo \<Rightarrow> Address \<Rightarrow> 'k TCPSocketLab7 \<Rightarrow> 'k TCPSocketLab7 res" where
  "l7_bind gai gni address l =
     bindE (address_ip gni address) (\<lambda>ip.
     bindE (address_ip gni (l7_local_address l)) (\<lambda>local_ip.
     if ip \<noteq> local_ip
     then bindE (address_to_string gni address) (\<lambda>txt. Inl (Runtime_Error (''Cannot bind to '' @ txt)))
     else
       bindE (address_port gni address) (\<lambda>port.
       bindE (Address_of_ip gai local_ip port) (\<lambda>local. Inr (l\<lparr>l7_local_address := local\<rparr>)))))"

definition l7_listen_and_accept :: "getaddrinfo \<Rightarrow> getnameinfo \<Rightarrow> 'k os \<Rightarrow> ('k \<Rightarrow> bool) \<Rightarrow> nat \<Rightarrow> u32 \<Rightarrow>
    'k TCPSocketLab7 \<Rightarrow> ('k TCPSocketLab7 \<times> bool) res" where
  "l7_listen_and_accept gai gni os abort n random_isn l =
     bindE (FdAdapterConfig_init gai) (\<lambda>multiplexer_config.
     bindE (listen_and_accept gni os (nia_adapter gai gni os) abort n TCPConfig_init random_isn
              (multiplexer_config\<lparr>fc_source := l7_local_address l\<rparr>) (l7_socket l) (l7_rules l)) (\<lambda>(s, rules, ended).
       Inr (l\<lparr>l7_socket := s, l7_rules := rules\<rparr>, ended)))"

section \<open>The router\<close>

definition l7_add_interface :: "getaddrinfo \<Rightarrow> Router \<Rightarrow> u32 list \<Rightarrow> string \<Rightarrow> (Router \<times> u32) res" where
  "l7_add_interface gai r random ip =
     bindE (Address_of_ip gai ip 0) (\<lambda>addr.
     let (r, n) = add_interface r (async_of_interface (NetworkInterface_init (random_router_ethernet_address random) addr))
     in Inr (r, ucast n))"

definition l7_add_route :: "getaddrinfo \<Rightarrow> Router \<Rightarrow> string \<Rightarrow> u8 \<Rightarrow> string option \<Rightarrow> u32 \<Rightarrow> Router res" where
  "l7_add_route gai r route_prefix len next_hop interface_num =
     bindE (bindE (Address_of_ip gai route_prefix 0) ipv4_numeric) (\<lambda>p.
     bindE (case next_hop of None \<Rightarrow> Inr None
            | Some ip \<Rightarrow> bindE (Address_of_ip gai ip 0) (\<lambda>a. Inr (Some a))) (\<lambda>next_hop.
       Inr (add_route r p len next_hop (ucast interface_num))))"

definition lab7_router :: "getaddrinfo \<Rightarrow> u32 list \<Rightarrow> u32 list \<Rightarrow> bool \<Rightarrow> (Router \<times> u32 \<times> u32) res" where
  "lab7_router gai random1 random2 is_client =
     (if is_client then
        bindE (l7_add_interface gai Router_init random1 ''192.168.0.1'') (\<lambda>(r, host_side).
        bindE (l7_add_interface gai r random2 ''10.0.0.192'') (\<lambda>(r, internet_side).
        bindE (l7_add_route gai r ''192.168.0.0'' 16 None host_side) (\<lambda>r.
        bindE (l7_add_route gai r ''10.0.0.0'' 8 None internet_side) (\<lambda>r.
        bindE (l7_add_route gai r ''172.16.0.0'' 12 (Some ''10.0.0.172'') internet_side) (\<lambda>r.
          Inr (r, host_side, internet_side))))))
      else
        bindE (l7_add_interface gai Router_init random1 ''172.16.0.1'') (\<lambda>(r, host_side).
        bindE (l7_add_interface gai r random2 ''10.0.0.172'') (\<lambda>(r, internet_side).
        bindE (l7_add_route gai r ''172.16.0.0'' 12 None host_side) (\<lambda>r.
        bindE (l7_add_route gai r ''10.0.0.0'' 8 None internet_side) (\<lambda>r.
        bindE (l7_add_route gai r ''192.168.0.0'' 16 (Some ''10.0.0.192'') internet_side) (\<lambda>r.
          Inr (r, host_side, internet_side)))))))"

section \<open>The network thread\<close>

record 'k l7_net =
  ln_kernel :: 'k
  ln_frame_fd :: FDWrapper
  ln_internet :: FDWrapper
  ln_bounce :: Address
  ln_router :: Router
  ln_host_side :: u32
  ln_internet_side :: u32
  ln_cerr :: "string list"

definition lab7_summary :: "EthernetFrame \<Rightarrow> string res" where
  "lab7_summary frame =
     (let ret = ethernet_header_to_string (ef_header frame) in
      if eth_type (ef_header frame) = TYPE_IPv4 then
        let (result, dgram) = ipv4_datagram_parse IPv4Datagram_init (concat (ef_payload frame)) in
        Inr (if result = NoError then
               ret @ '' '' @ ipv4_header_summary (dg_header dgram) @
               (if ip_proto (dg_header dgram) = PROTO_TCP then
                  let (result, tcp_seg) = tcp_segment_parse TCPSegment_init (concat (dg_payload dgram))
                        (pseudo_cksum (dg_header dgram)) in
                  if result = NoError then '' '' @ tcp_header_summary (ts_header tcp_seg) else []
                else [])
             else ret @ '' (bad IPv4)'')
      else if eth_type (ef_header frame) = TYPE_ARP then
        bindE (pieces_to_buffer (ef_payload frame)) (\<lambda>payload.
        let (result, arp) = arp_parse ARPMessage_init payload in
        Inr (if result = NoError then ret @ '' '' @ arp_to_string arp else ret @ '' (bad ARP)''))
      else Inr ret)"

definition l7_debug :: "bool \<Rightarrow> string \<Rightarrow> EthernetFrame \<Rightarrow> 'k l7_net \<Rightarrow> 'k l7_net res" where
  "l7_debug debug what frame s =
     (if debug then bindE (lab7_summary frame) (\<lambda>txt. Inr (s\<lparr>ln_cerr := ln_cerr s @ [what @ txt @ newline]\<rparr>))
      else Inr s)"

text \<open>A frame for one of the interfaces, after which everything that waits is routed.\<close>

definition l7_receive :: "u32 \<Rightarrow> EthernetFrame \<Rightarrow> 'k l7_net \<Rightarrow> 'k l7_net res" where
  "l7_receive side frame s =
     bindE (rt_interface (ln_router s) (ucast side)) (\<lambda>ai.
     bindE (async_recv_frame ai frame) (\<lambda>ai.
     bindE (route ((ln_router s)\<lparr>rt_interfaces := (rt_interfaces (ln_router s))[unat side := ai]\<rparr>)) (\<lambda>r.
       Inr (s\<lparr>ln_router := r\<rparr>))))"

text \<open>The queue of an interface; the front of an empty queue is undefined.\<close>

definition l7_frames :: "u32 \<Rightarrow> 'k l7_net \<Rightarrow> EthernetFrame list res" where
  "l7_frames side s = bindE (rt_interface (ln_router s) (ucast side)) (\<lambda>ai. Inr (ai_frames_out ai))"

definition l7_front :: "u32 \<Rightarrow> 'k l7_net \<Rightarrow> EthernetFrame res" where
  "l7_front side s =
     bindE (l7_frames side s) (\<lambda>f. case f of [] \<Rightarrow> Inl Undefined_Behaviour | x # _ \<Rightarrow> Inr x)"

definition l7_pop :: "u32 \<Rightarrow> 'k l7_net \<Rightarrow> 'k l7_net res" where
  "l7_pop side s =
     bindE (rt_interface (ln_router s) (ucast side)) (\<lambda>ai.
     case ai_frames_out ai of
       [] \<Rightarrow> Inl Undefined_Behaviour
     | x # f \<Rightarrow> Inr (s\<lparr>ln_router := (ln_router s)\<lparr>rt_interfaces := (rt_interfaces (ln_router s))
         [unat side := ai\<lparr>ai_interface := (ai_interface ai)\<lparr>ni_frames_out := f\<rparr>\<rparr>]\<rparr>\<rparr>))"

definition l7_interest :: "('k l7_net \<Rightarrow> u32) \<Rightarrow> 'k l7_net \<Rightarrow> bool res" where
  "l7_interest side s = bindE (l7_frames (side s) s) (\<lambda>f. Inr (f \<noteq> []))"

definition host_to_router :: "'k os \<Rightarrow> bool \<Rightarrow> 'k l7_net \<Rightarrow> 'k l7_net res" where
  "host_to_router os debug s =
     bindE (fd_read os (ln_kernel s) (ln_frame_fd s) max_size) (\<lambda>(k, w, str).
     let s = s\<lparr>ln_kernel := k, ln_frame_fd := w\<rparr>;
         (result, frame) = ethernet_frame_parse EthernetFrame_init str
     in
     if result \<noteq> NoError then Inr s
     else bindE (l7_debug debug ''     Host->router:     '' frame s) (l7_receive (ln_host_side s) frame))"

definition router_to_host :: "'k os \<Rightarrow> bool \<Rightarrow> 'k l7_net \<Rightarrow> 'k l7_net res" where
  "router_to_host os debug s =
     bindE (l7_front (ln_host_side s) s) (\<lambda>f.
     bindE (l7_debug debug ''     Router->host:     '' f s) (\<lambda>s.
     bindE (fd_write os (ln_kernel s) (ln_frame_fd s) (ethernet_frame_serialize f) True) (\<lambda>(k, w, _).
       l7_pop (ln_host_side s) (s\<lparr>ln_kernel := k, ln_frame_fd := w\<rparr>))))"

definition router_to_internet :: "'k os \<Rightarrow> bool \<Rightarrow> 'k l7_net \<Rightarrow> 'k l7_net res" where
  "router_to_internet os debug s =
     bindE (l7_front (ln_internet_side s) s) (\<lambda>f.
     bindE (l7_debug debug ''     Router->Internet: '' f s) (\<lambda>s.
     bindE (udp_sendto os (ln_kernel s) (ln_internet s) (ln_bounce s) (ethernet_frame_serialize f)) (\<lambda>(k, w).
       l7_pop (ln_internet_side s) (s\<lparr>ln_kernel := k, ln_internet := w\<rparr>))))"

definition internet_to_router :: "'k os \<Rightarrow> bool \<Rightarrow> 'k l7_net \<Rightarrow> 'k l7_net res" where
  "internet_to_router os debug s =
     bindE (fd_read os (ln_kernel s) (ln_internet s) max_size) (\<lambda>(k, w, str).
     let s = s\<lparr>ln_kernel := k, ln_internet := w\<rparr>;
         (result, frame) = ethernet_frame_parse EthernetFrame_init str
     in
     if result \<noteq> NoError then Inr s
     else bindE (l7_debug debug ''     Internet->router: '' frame s) (l7_receive (ln_internet_side s) frame))"

text \<open>The rules without an interest of their own are always interested.\<close>

definition l7_net_rules :: "'k os \<Rightarrow> bool \<Rightarrow> 'k l7_net Rule list" where
  "l7_net_rules os debug =
     (let rules = add_rule [] ln_frame_fd In (host_to_router os debug) (\<lambda>s. Inr True) Inr;
          rules = add_rule rules ln_frame_fd Out (router_to_host os debug) (l7_interest ln_host_side) Inr;
          rules = add_rule rules ln_internet Out (router_to_internet os debug) (l7_interest ln_internet_side) Inr
      in add_rule rules ln_internet In (internet_to_router os debug) (\<lambda>s. Inr True) Inr)"

definition l7_poll :: "'k os \<Rightarrow> 'k l7_net poll" where
  "l7_poll os s fds timeout_ms =
     (let (k, r) = os_poll os (ln_kernel s) fds timeout_ms in (s\<lparr>ln_kernel := k\<rparr>, r))"

definition l7_tick :: "u32 \<Rightarrow> 'k l7_net \<Rightarrow> 'k l7_net res" where
  "l7_tick side s =
     bindE (rt_interface (ln_router s) (ucast side)) (\<lambda>ai.
       Inr (s\<lparr>ln_router := (ln_router s)\<lparr>rt_interfaces := (rt_interfaces (ln_router s))
         [unat side := ai\<lparr>ai_interface := ni_tick (ai_interface ai) 50\<rparr>]\<rparr>\<rparr>))"

fun network_thread :: "'k os \<Rightarrow> ('k \<Rightarrow> bool) \<Rightarrow> nat \<Rightarrow> 'k l7_net Rule list \<Rightarrow> 'k l7_net \<Rightarrow>
    ('k l7_net \<times> 'k l7_net Rule list \<times> bool) res" where
  "network_thread os exit_flag 0 rules s = Inr (s, rules, False)"
| "network_thread os exit_flag (Suc n) rules s =
     bindE (wait_next_event (l7_poll os) rules 50 s) (\<lambda>(s, rules, result).
     if result = Exit then Inr (s\<lparr>ln_cerr := ln_cerr s @ [''Exiting...'' @ newline]\<rparr>, rules, True)
     else
       bindE (l7_tick (ln_host_side s) s) (\<lambda>s.
       bindE (l7_tick (ln_internet_side s) s) (\<lambda>s.
       if exit_flag (ln_kernel s) then Inr (s, rules, True)
       else network_thread os exit_flag n rules s)))"

section \<open>The program\<close>

text \<open>
  \<open>program_body\<close> up to the start of the network thread: the thread's state and the socket, with the
  kernel in the socket's state.
\<close>

definition lab7_setup :: "getaddrinfo \<Rightarrow> 'k os \<Rightarrow> 'k \<Rightarrow> (nat \<Rightarrow> u32 list) \<Rightarrow> bool \<Rightarrow> string \<Rightarrow> string \<Rightarrow>
    ('k l7_net \<times> 'k TCPSocketLab7) res" where
  "lab7_setup gai os k random is_client bounce_host bounce_port =
     bindE (UDPSocket_init os k) (\<lambda>(k, internet_socket).
     bindE (Address_of_host gai bounce_host bounce_port) (\<lambda>bounce_address.
     bindE (udp_sendto os k internet_socket bounce_address (bvl_of_string [])) (\<lambda>(k, internet_socket).
     bindE (udp_sendto os k internet_socket bounce_address (bvl_of_string [])) (\<lambda>(k, internet_socket).
     bindE (udp_sendto os k internet_socket bounce_address (bvl_of_string [])) (\<lambda>(k, internet_socket).
     bindE (lab7_router gai (random 0) (random 1) is_client) (\<lambda>(router, host_side, internet_side).
     bindE (Address_of_ip gai (if is_client then ''192.168.0.50'' else ''172.16.0.100'') 0) (\<lambda>ip_address.
     bindE (Address_of_ip gai (if is_client then ''192.168.0.1'' else ''172.16.0.1'') 0) (\<lambda>next_hop.
     bindE (TCPSocketLab7_init gai os k (random 2) ip_address next_hop) (\<lambda>sock.
       Inr (\<lparr>ln_kernel = ss_kernel (l7_socket sock), ln_frame_fd = l7_frame_fd sock, ln_internet = internet_socket,
             ln_bounce = bounce_address, ln_router = router, ln_host_side = host_side,
             ln_internet_side = internet_side, ln_cerr = []\<rparr>, sock))))))))))"

text \<open>What the main thread does with the socket before it copies the standard streams.\<close>

definition lab7_open :: "getaddrinfo \<Rightarrow> getnameinfo \<Rightarrow> 'k os \<Rightarrow> ('k \<Rightarrow> bool) \<Rightarrow> nat \<Rightarrow> u32 \<Rightarrow> u32 \<Rightarrow> bool \<Rightarrow>
    'k TCPSocketLab7 \<Rightarrow> ('k TCPSocketLab7 \<times> bool) res" where
  "lab7_open gai gni os abort n random random_isn is_client sock =
     bindE (Address_of_ip gai ''172.16.0.100'' 1234) (\<lambda>address.
     if is_client then l7_connect gai gni os abort n random random_isn address sock
     else
       bindE (l7_bind gai gni address sock) (\<lambda>sock. l7_listen_and_accept gai gni os abort n random_isn sock))"

text \<open>The main thread: open the connection, copy the standard streams, and wait for the end.\<close>

definition lab7_main_thread :: "getaddrinfo \<Rightarrow> getnameinfo \<Rightarrow> 'k os \<Rightarrow> ('k \<Rightarrow> bool) \<Rightarrow> nat \<Rightarrow> nat \<Rightarrow> u32 \<Rightarrow> u32 \<Rightarrow> bool \<Rightarrow>
    'k TCPSocketLab7 \<Rightarrow> bool parsed res" where
  "lab7_main_thread gai gni os abort n rounds random random_isn is_client sock =
     bindE (lab7_open gai gni os abort n random random_isn is_client sock) (\<lambda>(sock, connected).
       program_end os (nia_adapter gai gni os) abort n rounds (l7_socket sock, l7_rules sock, connected))"

definition lab7_print_usage :: "string \<Rightarrow> string" where
  "lab7_print_usage argv0 = ''Usage: '' @ argv0 @ '' client HOST PORT [debug]'' @ newline @
     ''or     '' @ argv0 @ '' server HOST PORT [debug]'' @ newline"

text \<open>The arguments of \<open>program_body\<close>.\<close>

definition lab7_arguments :: "string list \<Rightarrow> (bool \<times> string \<times> string \<times> bool) parsed" where
  "lab7_arguments argv =
     (if length argv \<noteq> 4 \<and> length argv \<noteq> 5 then Quit 1 (lab7_print_usage (argv ! 0))
      else if argv ! 1 \<noteq> ''client'' \<and> argv ! 1 \<noteq> ''server'' then Quit 1 (lab7_print_usage (argv ! 0))
      else Run (argv ! 1 = ''client'', argv ! 2, argv ! 3, length argv = 5))"

section \<open>Frames are only added\<close>

lemma recv_frames_append:
  assumes "async_recv_frame ai f = Inr ai'"
  shows "\<exists>fs. ai_frames_out ai' = ai_frames_out ai @ fs"
proof -
  have "ai = async_queued_first (ai_frames_out ai) (unqueued ai)"
    by (simp add: async_queued_first_def unqueued_def queued_first_def ai_frames_out_def)
  then have "async_recv_frame ai f =
      bindE (async_recv_frame (unqueued ai) f) (\<lambda>x. Inr (async_queued_first (ai_frames_out ai) x))"
    using recv_frame_queued by metis
  then have "bindE (async_recv_frame (unqueued ai) f) (\<lambda>x. Inr (async_queued_first (ai_frames_out ai) x)) = Inr ai'"
    using assms by simp
  then obtain x where "ai' = async_queued_first (ai_frames_out ai) x" by (auto simp: bindE_eq_Inr)
  then show ?thesis by (simp add: ai_frames_out_def async_queued_first_def)
qed

lemma send_datagram_keeps:
  assumes "send_datagram i d hop = Inr i'"
  shows "\<exists>fs. ni_frames_out i' = ni_frames_out i @ fs" "ni_time i' = ni_time i"
  using assms send_frame_frame send_arp_frame
  by (fastforce simp: send_datagram_def bindE_eq_Inr Let_def split: option.splits if_splits)+

lemma send_arp_time: "send_arp i op ip eth = Inr i' \<Longrightarrow> ni_time i' = ni_time i"
  using send_arp_frame by fastforce

lemma send_waiting_time: "send_waiting q i ip eth = Inr i' \<Longrightarrow> ni_time i' = ni_time i"
  using send_waiting_result by fastforce

lemma recv_arp_time:
  assumes "recv_arp i msg = Inr i'"
  shows "ni_time i' = ni_time i"
proof -
  let ?ip = "arp_sender_ip_address msg"
  define i1 where "i1 = (if ni_ip2eth i ?ip = None
    then i\<lparr>ni_timestamps_pair := ni_timestamps_pair i @ [((?ip, arp_sender_ethernet_address msg), ni_time i)],
           ni_ip2eth := (ni_ip2eth i)(?ip \<mapsto> arp_sender_ethernet_address msg)\<rparr> else i)"
  have 1: "ni_time i1 = ni_time i" by (simp add: i1_def)
  note eq = assms [unfolded recv_arp_def Let_def, folded i1_def]
  obtain i2 where i2: "(if ni_timestamps_arp i1 ?ip \<noteq> None
      then send_waiting (waiting i1 ?ip) (i1\<lparr>ni_timestamps_arp := (ni_timestamps_arp i1)(?ip := None)\<rparr>)
        ?ip (the (ni_ip2eth i1 ?ip)) else Inr i1) = Inr i2"
    using eq by (auto simp: bindE_eq_Inr)
  then have 2: "ni_time i2 = ni_time i1" using send_waiting_time by (fastforce split: if_splits)
  have "ni_time i' = ni_time i2"
    using eq [unfolded i2] send_arp_time by (fastforce simp: bindE_eq_Inr split: if_splits)
  with 1 2 show ?thesis by simp
qed

lemma recv_frame_time:
  assumes "async_recv_frame ai f = Inr ai'"
  shows "ni_time (ai_interface ai') = ni_time (ai_interface ai)"
proof -
  obtain i r where i: "ni_recv_frame (ai_interface ai) f = Inr (i, r)"
    using assms by (auto simp: async_recv_frame_def bindE_eq_Inr)
  then have "ai_interface ai' = i"
    using assms by (auto simp: async_recv_frame_def Let_def split: option.splits)
  moreover have "ni_time i = ni_time (ai_interface ai)"
    using i recv_arp_time
    by (auto simp: ni_recv_frame_def bindE_eq_Inr Let_def split: prod.splits if_splits)
  ultimately show ?thesis by simp
qed

text \<open>What routing does to the interfaces: their number, times and queued frames stay.\<close>

definition grown :: "Router \<Rightarrow> Router \<Rightarrow> bool" where
  "grown r r' \<longleftrightarrow> length (rt_interfaces r') = length (rt_interfaces r) \<and>
     (\<forall>k < length (rt_interfaces r).
        ni_time (ai_interface (rt_interfaces r' ! k)) = ni_time (ai_interface (rt_interfaces r ! k)) \<and>
        (\<exists>fs. ai_frames_out (rt_interfaces r' ! k) = ai_frames_out (rt_interfaces r ! k) @ fs))"

lemma grown_refl: "grown r r"
  by (simp add: grown_def)

lemma grown_trans: "grown r r1 \<Longrightarrow> grown r1 r2 \<Longrightarrow> grown r r2"
  by (fastforce simp: grown_def)

lemma grown_update:
  assumes "k < length (rt_interfaces r)" "ni_time (ai_interface ai) = ni_time (ai_interface (rt_interfaces r ! k))"
    "\<exists>fs. ai_frames_out ai = ai_frames_out (rt_interfaces r ! k) @ fs"
  shows "grown r (r\<lparr>rt_interfaces := (rt_interfaces r)[k := ai]\<rparr>)"
  using assms by (auto simp: grown_def nth_list_update)

lemma route_one_grown:
  assumes "route_one_datagram r d = Inr r'"
  shows "grown r r'"
proof -
  have "grown r r'" if s: "rt_send r N d hop = Inr r'" for N d hop
  proof -
    obtain i where i: "unat N < length (rt_interfaces r)"
        "send_datagram (ai_interface (rt_interfaces r ! unat N)) d hop = Inr i"
        "r' = r\<lparr>rt_interfaces := (rt_interfaces r)[unat N := (rt_interfaces r ! unat N)\<lparr>ai_interface := i\<rparr>]\<rparr>"
      using s by (auto simp: rt_send_def rt_interface_def bindE_eq_Inr split: if_splits)
    then show ?thesis
      using send_datagram_keeps [OF i(2)] by (simp add: grown_update ai_frames_out_def)
  qed
  then show ?thesis
    using assms grown_refl
    by (auto simp: route_one_datagram_def Let_def bindE_eq_Inr split: if_splits option.splits)
qed

lemma route_grown:
  assumes "route r = Inr r'"
  shows "grown r r'"
proof -
  have list: "grown r r'" if "route_list ds r = Inr r'" for ds r r'
    using that by (induction ds arbitrary: r) (auto simp: bindE_eq_Inr grown_refl intro: grown_trans route_one_grown)
  obtain r1 where "route_list (concat (map ai_datagrams_out (rt_interfaces r))) r = Inr r1" "r' = clear_queues r1"
    using assms by (auto simp: route_eq bindE_eq_Inr)
  then have "grown r r1" "grown r1 r'" using list by (auto simp: grown_def clear_queues_def ai_frames_out_def)
  then show ?thesis by (rule grown_trans)
qed

section \<open>Nothing undefined below\<close>

lemma SystemCall_defined: "defined (SystemCall what r m)"
  by (simp add: SystemCall_def Let_def)

lemma fd_read_defined: "defined (fd_read os k w n)"
  by (auto simp: fd_read_def Let_def intro!: defined_bind SystemCall_defined split: prod.splits)

lemma bvl_remove_prefix_defined: "defined (bvl_remove_prefix vs n)"
  by (induction vs n rule: bvl_remove_prefix.induct) auto

lemma fd_write_defined: "defined (fd_write os k w buffer b)"
proof -
  have "defined (fd_write_loop os k w buffer b t)" for t
  proof (induction os k w buffer b t rule: fd_write_loop.induct)
    case (1 os k w buffer b t)
    then show ?case
      by (subst fd_write_loop.simps)
        (auto simp: Let_def intro!: defined_bind SystemCall_defined bvl_remove_prefix_defined split: prod.splits)
  qed
  then show ?thesis by (simp add: fd_write_def)
qed

lemma udp_sendto_defined: "defined (udp_sendto os k w a b)"
  by (auto simp: udp_sendto_def sendmsg_helper_def Let_def intro!: defined_bind SystemCall_defined split: prod.splits)

lemma ipv4_serialize_defined: "defined (ipv4_datagram_serialize d)"
  by (auto simp: ipv4_datagram_serialize_def ipv4_header_serialize_def Let_def intro!: defined_bind)

lemma send_frame_defined: "defined (send_frame i d eth)"
  by (auto simp: send_frame_def Let_def intro!: defined_bind ipv4_serialize_defined)

lemma ipv4_numeric_defined: "defined (ipv4_numeric a)"
  by (simp add: ipv4_numeric_def)

lemma send_arp_defined: "defined (send_arp i op ip eth)"
  by (auto simp: send_arp_def arp_serialize_def Let_def intro!: defined_bind ipv4_numeric_defined)

lemma send_datagram_defined: "defined (send_datagram i d hop)"
  by (auto simp: send_datagram_def Let_def send_frame_defined send_arp_defined
      intro!: defined_bind ipv4_numeric_defined split: option.splits)

lemma send_waiting_defined: "defined (send_waiting q i ip eth)"
  by (induction q arbitrary: i) (auto intro!: defined_bind send_frame_defined)

lemma recv_frame_defined: "defined (async_recv_frame ai f)"
proof -
  have "defined (recv_arp i msg)" for i msg
    by (auto simp: recv_arp_def Let_def send_waiting_defined send_arp_defined
        intro!: defined_bind ipv4_numeric_defined)
  then show ?thesis
    by (auto simp: async_recv_frame_def ni_recv_frame_def Let_def intro!: defined_bind split: prod.splits option.splits)
qed

lemma rt_interface_defined: "defined (rt_interface r k)"
  by (simp add: rt_interface_def)

lemma route_defined: "defined (route r)"
proof -
  have send: "defined (rt_send r N d hop)" for r N d hop
    by (auto simp: rt_send_def intro!: defined_bind rt_interface_defined send_datagram_defined)
  have one: "defined (route_one_datagram r d)" for r d
    by (auto simp: route_one_datagram_def Let_def send split: option.splits)
  have "defined (route_list ds r)" for ds r
    by (induction ds arbitrary: r) (auto intro!: defined_bind one)
  then show ?thesis by (auto simp: route_eq intro!: defined_bind)
qed

lemma debug_defined: "defined (l7_debug debug what f s)"
proof -
  have "defined (pieces_to_buffer ps)" for ps by (auto simp: pieces_to_buffer_def split: list.splits)
  then have "defined (lab7_summary f)"
    by (auto simp: lab7_summary_def Let_def split_def intro!: defined_bind)
  then show ?thesis by (auto simp: l7_debug_def intro!: defined_bind)
qed

lemma debug_keeps:
  assumes "l7_debug debug what f s = Inr s'"
  shows "ln_router s' = ln_router s" "ln_host_side s' = ln_host_side s" "ln_internet_side s' = ln_internet_side s"
  using assms by (auto simp: l7_debug_def bindE_eq_Inr split: if_splits)

section \<open>The rules of the network thread\<close>

text \<open>Two interfaces, a well-formed router, and clocks that did not run for longer than \<open>T\<close>.\<close>

definition l7_inv :: "nat \<Rightarrow> 'k l7_net \<Rightarrow> bool" where
  "l7_inv T s \<longleftrightarrow> rt_wf (ln_router s) \<and> length (rt_interfaces (ln_router s)) = 2 \<and>
     unat (ln_host_side s) < 2 \<and> unat (ln_internet_side s) < 2 \<and> ln_host_side s \<noteq> ln_internet_side s \<and>
     (\<forall>k < 2. unat (ni_time (ai_interface (rt_interfaces (ln_router s) ! k))) \<le> T)"

lemma unat_ucast_side: "unat (ucast (side :: u32) :: u64) = unat side"
  using u32_bound [of side] by (simp add: unat_ucast_mod)

lemma l7_interface:
  fixes side :: u32
  assumes "l7_inv T s" "unat side < 2"
  shows "rt_interface (ln_router s) (ucast side) = Inr (rt_interfaces (ln_router s) ! unat side)"
  using assms unfolding rt_interface_def unat_ucast_side by (simp add: l7_inv_def)

lemma l7_interest_iff:
  assumes "l7_inv T s" "unat (side s) < 2"
  shows "l7_interest side s = Inr (ai_frames_out (rt_interfaces (ln_router s) ! unat (side s)) \<noteq> [])"
  using l7_interface [OF assms] by (simp add: l7_interest_def l7_frames_def)

text \<open>After a step that keeps the sides and only adds frames, the invariant and the interests hold.\<close>

lemma l7_grown:
  assumes "l7_inv T s" "rt_wf (ln_router s')" "grown (ln_router s) (ln_router s')"
    "ln_host_side s' = ln_host_side s" "ln_internet_side s' = ln_internet_side s"
  shows "l7_inv T s'" "unat (side s) < 2 \<Longrightarrow> side s' = side s \<Longrightarrow> l7_interest side s = Inr True \<Longrightarrow> l7_interest side s' = Inr True"
proof -
  show inv: "l7_inv T s'" using assms by (simp add: l7_inv_def grown_def)
  assume side: "unat (side s) < 2" "side s' = side s" "l7_interest side s = Inr True"
  then have "ai_frames_out (rt_interfaces (ln_router s) ! unat (side s)) \<noteq> []"
    using l7_interest_iff [of T s side, OF assms(1) side(1)] by simp
  then have "ai_frames_out (rt_interfaces (ln_router s') ! unat (side s)) \<noteq> []"
    using assms(1,3) side(1) by (fastforce simp: grown_def l7_inv_def)
  then show "l7_interest side s' = Inr True" using l7_interest_iff [of T s' side, OF inv] side by simp
qed

lemma l7_receive_grown:
  assumes inv: "l7_inv T s" and side: "unat side < 2" and r: "l7_receive side f s = Inr s'"
  shows "rt_wf (ln_router s') \<and> grown (ln_router s) (ln_router s') \<and> ln_host_side s' = ln_host_side s \<and>
    ln_internet_side s' = ln_internet_side s"
proof -
  let ?r = "ln_router s" and ?k = "unat side"
  obtain ai r1 where ai: "async_recv_frame (rt_interfaces ?r ! ?k) f = Inr ai"
      "route (?r\<lparr>rt_interfaces := (rt_interfaces ?r)[?k := ai]\<rparr>) = Inr r1" "s' = s\<lparr>ln_router := r1\<rparr>"
    using r l7_interface [OF inv side] by (auto simp: l7_receive_def bindE_eq_Inr)
  have k: "?k < length (rt_interfaces ?r)" and wf: "rt_wf ?r" using inv side by (auto simp: l7_inv_def)
  have wf1: "rt_wf (?r\<lparr>rt_interfaces := (rt_interfaces ?r)[?k := ai]\<rparr>)"
    using wf async_recv_frame_wf [OF rt_wf_nth [OF wf k] ai(1)] by (rule rt_wf_update)
  have "grown ?r (?r\<lparr>rt_interfaces := (rt_interfaces ?r)[?k := ai]\<rparr>)"
    using k recv_frame_time [OF ai(1)] recv_frames_append [OF ai(1)] by (rule grown_update)
  then have "grown ?r r1" using route_grown [OF ai(2)] grown_trans by blast
  then show ?thesis using route_wf [OF wf1 ai(2)] ai(3) by simp
qed

lemma to_router_grown:
  assumes "l7_inv T s" "host_to_router os debug s = Inr s' \<or> internet_to_router os debug s = Inr s'"
  shows "rt_wf (ln_router s') \<and> grown (ln_router s) (ln_router s') \<and> ln_host_side s' = ln_host_side s \<and>
    ln_internet_side s' = ln_internet_side s"
proof -
  have step: "rt_wf (ln_router s') \<and> grown (ln_router s) (ln_router s') \<and> ln_host_side s' = ln_host_side s \<and>
      ln_internet_side s' = ln_internet_side s"
    if "ln_router s1 = ln_router s" "ln_host_side s1 = ln_host_side s" "ln_internet_side s1 = ln_internet_side s"
      "s' = s1 \<or> (\<exists>what f s2. l7_debug debug what f s1 = Inr s2 \<and> unat side < 2 \<and> l7_receive side f s2 = Inr s')"
    for s1 side
    using that(4)
  proof
    assume "s' = s1"
    then show ?thesis using that(1-3) assms(1) grown_refl by (simp add: l7_inv_def)
  next
    assume "\<exists>what f s2. l7_debug debug what f s1 = Inr s2 \<and> unat side < 2 \<and> l7_receive side f s2 = Inr s'"
    then obtain what f s2 where s2: "l7_debug debug what f s1 = Inr s2" "unat side < 2" "l7_receive side f s2 = Inr s'"
      by blast
    have "l7_inv T s2" using assms(1) that(1-3) debug_keeps [OF s2(1)] by (simp add: l7_inv_def)
    then show ?thesis using l7_receive_grown [OF _ s2(2,3)] that(1-3) debug_keeps [OF s2(1)] by simp
  qed
  have sides: "unat (ln_host_side s) < 2" "unat (ln_internet_side s) < 2" using assms(1) by (simp_all add: l7_inv_def)
  from assms(2) show ?thesis
  proof
    assume "host_to_router os debug s = Inr s'"
    then obtain k w where "s' = s\<lparr>ln_kernel := k, ln_frame_fd := w\<rparr> \<or>
        (\<exists>what f s2. l7_debug debug what f (s\<lparr>ln_kernel := k, ln_frame_fd := w\<rparr>) = Inr s2 \<and>
          l7_receive (ln_host_side s) f s2 = Inr s')"
      by (auto simp: host_to_router_def bindE_eq_Inr Let_def split_def split: if_splits) blast
    then show ?thesis using step [of "s\<lparr>ln_kernel := k, ln_frame_fd := w\<rparr>" "ln_host_side s"] sides by auto
  next
    assume "internet_to_router os debug s = Inr s'"
    then obtain k w where "s' = s\<lparr>ln_kernel := k, ln_internet := w\<rparr> \<or>
        (\<exists>what f s2. l7_debug debug what f (s\<lparr>ln_kernel := k, ln_internet := w\<rparr>) = Inr s2 \<and>
          l7_receive (ln_internet_side s) f s2 = Inr s')"
      by (auto simp: internet_to_router_def bindE_eq_Inr Let_def split_def split: if_splits) blast
    then show ?thesis using step [of "s\<lparr>ln_kernel := k, ln_internet := w\<rparr>" "ln_internet_side s"] sides by auto
  qed
qed

text \<open>The two rules that send take one frame from the queue of their side.\<close>

definition popped :: "nat \<Rightarrow> Router \<Rightarrow> Router \<Rightarrow> bool" where
  "popped k r r' \<longleftrightarrow> k < length (rt_interfaces r) \<and> ai_frames_out (rt_interfaces r ! k) \<noteq> [] \<and>
     (let ai = rt_interfaces r ! k in r' = r\<lparr>rt_interfaces := (rt_interfaces r)
        [k := ai\<lparr>ai_interface := (ai_interface ai)\<lparr>ni_frames_out := tl (ai_frames_out ai)\<rparr>\<rparr>]\<rparr>)"

lemma l7_pop_eq:
  assumes "l7_inv T s" "unat side < 2"
  shows "l7_pop side s = Inr s' \<longleftrightarrow> (\<exists>r. popped (unat side) (ln_router s) r \<and> s' = s\<lparr>ln_router := r\<rparr>)"
    "defined (l7_pop side s) \<longleftrightarrow> ai_frames_out (rt_interfaces (ln_router s) ! unat side) \<noteq> []"
  using assms l7_interface [OF assms]
  by (auto simp: l7_pop_def popped_def Let_def l7_inv_def split: list.splits)

lemma l7_front_eq:
  assumes "l7_inv T s" "unat side < 2"
  shows "l7_front side s = (case ai_frames_out (rt_interfaces (ln_router s) ! unat side) of
    [] \<Rightarrow> Inl Undefined_Behaviour | f # _ \<Rightarrow> Inr f)"
  using l7_interface [OF assms] by (simp add: l7_front_def l7_frames_def)

lemma popped_wf: "rt_wf r \<Longrightarrow> popped k r r' \<Longrightarrow> rt_wf r'"
  using rt_wf_nth by (auto simp: popped_def Let_def intro!: rt_wf_update)

lemma sending_steps:
  assumes inv: "l7_inv T s"
  shows "router_to_host os debug s = Inr s' \<Longrightarrow> popped (unat (ln_host_side s)) (ln_router s) (ln_router s') \<and>
      ln_host_side s' = ln_host_side s \<and> ln_internet_side s' = ln_internet_side s"
    "router_to_internet os debug s = Inr s' \<Longrightarrow> popped (unat (ln_internet_side s)) (ln_router s) (ln_router s') \<and>
      ln_host_side s' = ln_host_side s \<and> ln_internet_side s' = ln_internet_side s"
proof -
  have pop: "popped (unat side) (ln_router s) (ln_router s') \<and> ln_host_side s' = ln_host_side s \<and>
      ln_internet_side s' = ln_internet_side s"
    if d: "l7_debug debug what f s = Inr s1" "ln_router s2 = ln_router s1" "ln_host_side s2 = ln_host_side s1"
      "ln_internet_side s2 = ln_internet_side s1" and p: "l7_pop side s2 = Inr s'" "unat side < 2" for what f s1 s2 side
  proof -
    note same = debug_keeps [OF d(1)]
    have inv2: "l7_inv T s2" using inv same d(2-4) by (simp add: l7_inv_def)
    obtain r where "popped (unat side) (ln_router s2) r" "s' = s2\<lparr>ln_router := r\<rparr>"
      using l7_pop_eq(1) [OF inv2 p(2)] p(1) by blast
    then show ?thesis using same d(2-4) by simp
  qed
  have sides: "unat (ln_host_side s) < 2" "unat (ln_internet_side s) < 2" using inv by (simp_all add: l7_inv_def)
  {
    assume "router_to_host os debug s = Inr s'"
    then obtain f s1 k w n where s1: "l7_debug debug ''     Router->host:     '' f s = Inr s1"
        "l7_pop (ln_host_side s1) (s1\<lparr>ln_kernel := k, ln_frame_fd := w\<rparr>) = Inr s'"
      by (auto simp: router_to_host_def bindE_eq_Inr split_def)
    show "popped (unat (ln_host_side s)) (ln_router s) (ln_router s') \<and>
        ln_host_side s' = ln_host_side s \<and> ln_internet_side s' = ln_internet_side s"
      using pop [OF s1(1) _ _ _ s1(2)] sides(1) debug_keeps [OF s1(1)] by simp
  }
  assume "router_to_internet os debug s = Inr s'"
  then obtain f s1 k w where s1: "l7_debug debug ''     Router->Internet: '' f s = Inr s1"
      "l7_pop (ln_internet_side s1) (s1\<lparr>ln_kernel := k, ln_internet := w\<rparr>) = Inr s'"
    by (auto simp: router_to_internet_def bindE_eq_Inr split_def)
  show "popped (unat (ln_internet_side s)) (ln_router s) (ln_router s') \<and>
      ln_host_side s' = ln_host_side s \<and> ln_internet_side s' = ln_internet_side s"
    using pop [OF s1(1) _ _ _ s1(2)] sides(2) debug_keeps [OF s1(1)] by simp
qed

lemma l7_popped:
  assumes inv: "l7_inv T s" and p: "popped k (ln_router s) (ln_router s')"
    and sides: "ln_host_side s' = ln_host_side s" "ln_internet_side s' = ln_internet_side s"
  shows "l7_inv T s'"
    "unat (side s) < 2 \<Longrightarrow> side s' = side s \<Longrightarrow> unat (side s) \<noteq> k \<Longrightarrow> l7_interest side s = Inr True \<Longrightarrow>
      l7_interest side s' = Inr True"
proof -
  have "length (rt_interfaces (ln_router s')) = length (rt_interfaces (ln_router s))"
      "ni_time (ai_interface (rt_interfaces (ln_router s') ! j)) = ni_time (ai_interface (rt_interfaces (ln_router s) ! j))"
    if "j < 2" for j
    using p inv that by (auto simp: popped_def Let_def nth_list_update l7_inv_def)
  then show inv': "l7_inv T s'" using inv popped_wf [OF _ p] sides by (auto simp: l7_inv_def)
  assume s: "unat (side s) < 2" "side s' = side s" "unat (side s) \<noteq> k" "l7_interest side s = Inr True"
  have "rt_interfaces (ln_router s') ! unat (side s) = rt_interfaces (ln_router s) ! unat (side s)"
    using p s(3) by (simp add: popped_def Let_def)
  then show "l7_interest side s' = Inr True"
    using l7_interest_iff [of T s side, OF inv s(1)] l7_interest_iff [of T s' side, OF inv'] s by simp
qed

lemma to_router_defined:
  "defined (host_to_router os debug s)" "defined (internet_to_router os debug s)"
  unfolding host_to_router_def internet_to_router_def l7_receive_def
  by (auto simp: Let_def split: prod.splits
      intro!: defined_bind fd_read_defined debug_defined rt_interface_defined recv_frame_defined route_defined)

lemma sending_defined:
  assumes inv: "l7_inv T s"
  shows "l7_interest ln_host_side s = Inr True \<Longrightarrow> defined (router_to_host os debug s)"
    "l7_interest ln_internet_side s = Inr True \<Longrightarrow> defined (router_to_internet os debug s)"
proof -
  have sides: "unat (ln_host_side s) < 2" "unat (ln_internet_side s) < 2" using inv by (simp_all add: l7_inv_def)
  have front: "defined (l7_front (side s) s)" and pop: "defined (l7_pop (side s) s')"
    if "l7_interest side s = Inr True" "unat (side s) < 2" "ln_router s' = ln_router s"
      "ln_host_side s' = ln_host_side s" "ln_internet_side s' = ln_internet_side s" for side s'
  proof -
    have ne: "ai_frames_out (rt_interfaces (ln_router s) ! unat (side s)) \<noteq> []"
      using l7_interest_iff [of T s side, OF inv that(2)] that(1) by simp
    then show "defined (l7_front (side s) s)"
      using l7_front_eq [OF inv that(2)] by (auto simp: neq_Nil_conv)
    have "l7_inv T s'" using inv that(3-5) by (simp add: l7_inv_def)
    then show "defined (l7_pop (side s) s')" using l7_pop_eq(2) [OF _ that(2)] ne that(3) by metis
  qed
  have pop1: "defined (l7_pop (ln_host_side s1) (s1\<lparr>ln_kernel := k, ln_frame_fd := w\<rparr>))"
    if "l7_debug debug what f s = Inr s1" "l7_interest ln_host_side s = Inr True" for what f s1 k w
    using pop [of ln_host_side "s1\<lparr>ln_kernel := k, ln_frame_fd := w\<rparr>"] debug_keeps [OF that(1)] that(2) sides by simp
  have pop2: "defined (l7_pop (ln_internet_side s1) (s1\<lparr>ln_kernel := k, ln_internet := w\<rparr>))"
    if "l7_debug debug what f s = Inr s1" "l7_interest ln_internet_side s = Inr True" for what f s1 k w
    using pop [of ln_internet_side "s1\<lparr>ln_kernel := k, ln_internet := w\<rparr>"] debug_keeps [OF that(1)] that(2) sides by simp
  show "l7_interest ln_host_side s = Inr True \<Longrightarrow> defined (router_to_host os debug s)"
    using front [of ln_host_side s] sides(1) unfolding router_to_host_def
    by (auto intro!: defined_bind debug_defined fd_write_defined pop1)
  show "l7_interest ln_internet_side s = Inr True \<Longrightarrow> defined (router_to_internet os debug s)"
    using front [of ln_internet_side s] sides(2) unfolding router_to_internet_def
    by (auto intro!: defined_bind debug_defined udp_sendto_defined pop2)
qed

lemma l7_rules_eq:
  "l7_net_rules os debug =
    [\<lparr>rl_fd = ln_frame_fd, rl_direction = In, rl_callback = host_to_router os debug, rl_interest = \<lambda>s. Inr True, rl_cancel = Inr\<rparr>,
     \<lparr>rl_fd = ln_frame_fd, rl_direction = Out, rl_callback = router_to_host os debug, rl_interest = l7_interest ln_host_side, rl_cancel = Inr\<rparr>,
     \<lparr>rl_fd = ln_internet, rl_direction = Out, rl_callback = router_to_internet os debug, rl_interest = l7_interest ln_internet_side, rl_cancel = Inr\<rparr>,
     \<lparr>rl_fd = ln_internet, rl_direction = In, rl_callback = internet_to_router os debug, rl_interest = \<lambda>s. Inr True, rl_cancel = Inr\<rparr>]"
  by (simp add: l7_net_rules_def add_rule_def)

lemma l7_poll_keeps:
  assumes "l7_poll os s fds t = (s', x)"
  shows "ln_router s' = ln_router s" "ln_host_side s' = ln_host_side s" "ln_internet_side s' = ln_internet_side s"
  using assms by (auto simp: l7_poll_def Let_def split: prod.splits)

lemma l7_callback_inv:
  assumes inv: "l7_inv T s"
    and step: "host_to_router os debug s = Inr s' \<or> internet_to_router os debug s = Inr s' \<or>
      router_to_host os debug s = Inr s' \<or> router_to_internet os debug s = Inr s'"
  shows "l7_inv T s'"
proof -
  consider (to) "host_to_router os debug s = Inr s' \<or> internet_to_router os debug s = Inr s'"
    | (host) "router_to_host os debug s = Inr s'" | (internet) "router_to_internet os debug s = Inr s'"
    using step by blast
  then show ?thesis
  proof cases
    case to
    then show ?thesis using to_router_grown [OF inv to] l7_grown(1) [OF inv] by blast
  next
    case host
    then show ?thesis using sending_steps(1) [OF inv host] l7_popped(1) [OF inv] by blast
  next
    case internet
    then show ?thesis using sending_steps(2) [OF inv internet] l7_popped(1) [OF inv] by blast
  qed
qed

lemma l7_steady:
  assumes inv: "l7_inv T s"
  shows "host_to_router os debug s = Inr s' \<Longrightarrow> l7_interest ln_host_side s = Inr True \<Longrightarrow>
      l7_interest ln_host_side s' = Inr True"
    "host_to_router os debug s = Inr s' \<Longrightarrow> l7_interest ln_internet_side s = Inr True \<Longrightarrow>
      l7_interest ln_internet_side s' = Inr True"
    "router_to_host os debug s = Inr s' \<Longrightarrow> l7_interest ln_internet_side s = Inr True \<Longrightarrow>
      l7_interest ln_internet_side s' = Inr True"
proof -
  have sides: "unat (ln_host_side s) < 2" "unat (ln_internet_side s) < 2" "unat (ln_internet_side s) \<noteq> unat (ln_host_side s)"
    using inv by (auto simp: l7_inv_def word_unat_eq_iff)
  {
    assume "host_to_router os debug s = Inr s'"
    then have g: "rt_wf (ln_router s') \<and> grown (ln_router s) (ln_router s') \<and> ln_host_side s' = ln_host_side s \<and>
        ln_internet_side s' = ln_internet_side s" using to_router_grown [OF inv] by blast
    show "l7_interest ln_host_side s = Inr True \<Longrightarrow> l7_interest ln_host_side s' = Inr True"
      using l7_grown(2) [OF inv, of s' ln_host_side] g sides by blast
    show "l7_interest ln_internet_side s = Inr True \<Longrightarrow> l7_interest ln_internet_side s' = Inr True"
      using l7_grown(2) [OF inv, of s' ln_internet_side] g sides by blast
  }
  assume "router_to_host os debug s = Inr s'"
  note p = sending_steps(1) [OF inv this]
  show "l7_interest ln_internet_side s = Inr True \<Longrightarrow> l7_interest ln_internet_side s' = Inr True"
    using l7_popped(2) [OF inv, of "unat (ln_host_side s)" s' ln_internet_side] p sides by blast
qed

lemma l7_poll_steady:
  assumes inv: "l7_inv T s" and p: "l7_poll os s fds t = (s', x)"
  shows "l7_inv T s'" "l7_interest ln_host_side s' = l7_interest ln_host_side s"
    "l7_interest ln_internet_side s' = l7_interest ln_internet_side s"
  using inv l7_poll_keeps [OF p] by (simp_all add: l7_inv_def l7_interest_def l7_frames_def)

interpretation net: steady_client "l7_inv T" "l7_net_rules os debug" "l7_poll os" for T os debug
proof (unfold_locales, goal_cases)
  case (1 rule s s')
  then have "host_to_router os debug s = Inr s' \<or> internet_to_router os debug s = Inr s' \<or>
      router_to_host os debug s = Inr s' \<or> router_to_internet os debug s = Inr s'"
    unfolding l7_rules_eq by auto
  then show ?case by (rule l7_callback_inv [OF 1(2)])
next
  case (3 s fds t s' r)
  then show ?case by (rule l7_poll_steady(1))
next
  case (4 rule s)
  have "defined (l7_interest side s)" for side :: "'a l7_net \<Rightarrow> u32"
    by (auto simp: l7_interest_def l7_frames_def intro!: defined_bind rt_interface_defined)
  then show ?case using 4 unfolding l7_rules_eq by auto
next
  case (5 rule s)
  then show ?case using to_router_defined sending_defined [OF 5(2)] unfolding l7_rules_eq by auto
next
  case (8 r s fds t s' x)
  then show ?case
    using l7_poll_steady(2,3) [OF 8(2,3)] unfolding l7_rules_eq by (auto simp: keeps_interest_def)
next
  case 9
  show ?case
    unfolding l7_rules_eq by (simp add: keeps_interest_def l7_steady)
qed (auto simp: l7_rules_eq keeps_interest_def)

section \<open>The life of the thread\<close>

lemma l7_tick_inv:
  assumes inv: "l7_inv T s" and side: "unat side < 2" and T: "T + 50 < 18446744073709551616"
  shows "\<exists>s'. l7_tick side s = Inr s' \<and> l7_inv (T + 50) s' \<and> ln_host_side s' = ln_host_side s \<and>
    ln_internet_side s' = ln_internet_side s"
proof -
  let ?r = "ln_router s" and ?k = "unat side"
  let ?ai = "rt_interfaces ?r ! ?k"
  let ?ai' = "?ai\<lparr>ai_interface := ni_tick (ai_interface ?ai) 50\<rparr>"
  have k: "?k < length (rt_interfaces ?r)" and wf: "rt_wf ?r" and time: "unat (ni_time (ai_interface ?ai)) \<le> T"
    using inv side by (auto simp: l7_inv_def)
  then have room: "unat (ni_time (ai_interface ?ai)) + unat (50 :: u64) < 18446744073709551616" using T by simp
  have "rt_wf (?r\<lparr>rt_interfaces := (rt_interfaces ?r)[?k := ?ai']\<rparr>)"
    using wf ni_tick_wf [OF rt_wf_nth [OF wf k] room] by (intro rt_wf_update) simp_all
  moreover have "unat (ni_time (ni_tick (ai_interface ?ai) 50)) \<le> T + 50"
    using room time by (simp add: ni_tick_def Let_def split_def word_nat)
  ultimately show ?thesis
    using inv k by (auto simp: l7_tick_def l7_interface [OF inv side] l7_inv_def nth_list_update intro: le_SucI trans_le_add1)
qed

lemma network_thread_keeps:
  "l7_inv T s \<Longrightarrow> subseq rules (l7_net_rules os debug) \<Longrightarrow> T + 100 * n < 18446744073709551616 \<Longrightarrow>
   defined (network_thread os exit_flag n rules s) \<and>
   (\<forall>s' rules' fin. network_thread os exit_flag n rules s = Inr (s', rules', fin) \<longrightarrow>
      l7_inv (T + 100 * n) s' \<and> subseq rules' (l7_net_rules os debug))"
proof (induction n arbitrary: T s rules)
  case (Suc n)
  note wait = net.wait_defined [OF Suc.prems(2,1), of 50]
  show ?case
  proof (cases "wait_next_event (l7_poll os) rules 50 s")
    case (Inr x)
    obtain s1 rules1 result where x: "x = (s1, rules1, result)" by (cases x)
    have keep: "l7_inv T s1" "subseq rules1 rules"
      using net.wait_keeps [OF subseq_set [OF Suc.prems(2)] Suc.prems(1) Inr [unfolded x]] by simp_all
    then have sub: "subseq rules1 (l7_net_rules os debug)" using Suc.prems(2) subseq_order.trans by blast
    show ?thesis
    proof (cases "result = Exit")
      case True
      have "l7_inv (T + 100 * Suc n) (s1\<lparr>ln_cerr := cs\<rparr>)" for cs
        using keep(1) by (auto simp: l7_inv_def intro: trans_le_add1)
      then show ?thesis using True Inr x sub by simp
    next
      case False
      have sides: "unat (ln_host_side s1) < 2" "unat (ln_internet_side s1) < 2" using keep(1) by (simp_all add: l7_inv_def)
      obtain s2 where s2: "l7_tick (ln_host_side s1) s1 = Inr s2" "l7_inv (T + 50) s2"
          "ln_internet_side s2 = ln_internet_side s1"
        using l7_tick_inv [OF keep(1) sides(1)] Suc.prems(3) by auto
      obtain s3 where s3: "l7_tick (ln_internet_side s2) s2 = Inr s3" "l7_inv (T + 100) s3"
        using l7_tick_inv [OF s2(2), of "ln_internet_side s2"] sides(2) s2(3) Suc.prems(3) by (auto simp: add.assoc)
      have "l7_inv (T + 100 * Suc n) s3" using s3(2) by (auto simp: l7_inv_def intro: trans_le_add1)
      then show ?thesis
        using Suc.IH [OF s3(2) sub] Suc.prems(3) False Inr x s2(1) s3(1) sub by (simp add: algebra_simps)
    qed
  qed (use wait in simp)
qed (auto simp: l7_inv_def)

lemma l7_add_interface_wf:
  assumes "l7_add_interface gai r random ip = Inr (r', n)" "rt_wf r" "length (rt_interfaces r) \<le> 1"
    "\<forall>k < length (rt_interfaces r). ni_time (ai_interface (rt_interfaces r ! k)) = 0"
  shows "rt_wf r' \<and> length (rt_interfaces r') = Suc (length (rt_interfaces r)) \<and>
    n = of_nat (length (rt_interfaces r)) \<and>
    (\<forall>k < length (rt_interfaces r'). ni_time (ai_interface (rt_interfaces r' ! k)) = 0)"
  using assms NetworkInterface_init_wf
  by (auto simp: l7_add_interface_def add_interface_def Let_def bindE_eq_Inr rt_wf_def async_of_interface_def
      sz_def nth_append NetworkInterface_init_def less_Suc_eq le_Suc_eq)

lemma l7_add_route_wf:
  assumes "l7_add_route gai r p len hop n = Inr r'" "rt_wf r" "unat len \<le> 32"
  shows "rt_wf r' \<and> rt_interfaces r' = rt_interfaces r"
  using assms by (auto simp: l7_add_route_def bindE_eq_Inr add_route_def rt_wf_def trie_ok_Insert)

lemma l7_built:
  assumes add: "l7_add_interface gai Router_init random1 ip1 = Inr (r1, host_side)"
      "l7_add_interface gai r1 random2 ip2 = Inr (r2, internet_side)"
    and routes: "l7_add_route gai r2 p1 l1 h1 n1 = Inr r3" "l7_add_route gai r3 p2 l2 h2 n2 = Inr r4"
      "l7_add_route gai r4 p3 l3 h3 n3 = Inr r"
    and len: "unat l1 \<le> 32" "unat l2 \<le> 32" "unat l3 \<le> 32"
  shows "rt_wf r \<and> length (rt_interfaces r) = 2 \<and> host_side = 0 \<and> internet_side = 1 \<and>
    (\<forall>k < 2. ni_time (ai_interface (rt_interfaces r ! k)) = 0)"
proof -
  have start: "rt_wf Router_init" "rt_interfaces Router_init = []"
    using trie_ok_new by (simp_all add: rt_wf_def Router_init_def)
  note 1 = l7_add_interface_wf [OF add(1) start(1), unfolded start(2), simplified]
  have 2: "rt_wf r2 \<and> length (rt_interfaces r2) = 2 \<and> internet_side = 1 \<and>
      (\<forall>k < length (rt_interfaces r2). ni_time (ai_interface (rt_interfaces r2 ! k)) = 0)"
    using l7_add_interface_wf [OF add(2)] 1 by simp
  note 3 = l7_add_route_wf [OF routes(1) _ len(1)]
  note 4 = l7_add_route_wf [OF routes(2) _ len(2)]
  note 5 = l7_add_route_wf [OF routes(3) _ len(3)]
  show ?thesis using 1 2 3 4 5 by simp
qed

lemma lab7_router_wf:
  assumes "lab7_router gai random1 random2 is_client = Inr (r, host_side, internet_side)"
  shows "rt_wf r \<and> length (rt_interfaces r) = 2 \<and> host_side = 0 \<and> internet_side = 1 \<and>
    (\<forall>k < 2. ni_time (ai_interface (rt_interfaces r ! k)) = 0)"
proof (cases is_client)
  case True
  then obtain r1 r2 r3 r4 where "l7_add_interface gai Router_init random1 ''192.168.0.1'' = Inr (r1, host_side)"
    "l7_add_interface gai r1 random2 ''10.0.0.192'' = Inr (r2, internet_side)"
    "l7_add_route gai r2 ''192.168.0.0'' 16 None host_side = Inr r3"
    "l7_add_route gai r3 ''10.0.0.0'' 8 None internet_side = Inr r4"
    "l7_add_route gai r4 ''172.16.0.0'' 12 (Some ''10.0.0.172'') internet_side = Inr r"
    using assms unfolding lab7_router_def by (auto simp: bindE_eq_Inr)
  from l7_built [OF this] show ?thesis by simp
next
  case False
  then obtain r1 r2 r3 r4 where "l7_add_interface gai Router_init random1 ''172.16.0.1'' = Inr (r1, host_side)"
    "l7_add_interface gai r1 random2 ''10.0.0.172'' = Inr (r2, internet_side)"
    "l7_add_route gai r2 ''172.16.0.0'' 12 None host_side = Inr r3"
    "l7_add_route gai r3 ''10.0.0.0'' 8 None internet_side = Inr r4"
    "l7_add_route gai r4 ''192.168.0.0'' 16 (Some ''10.0.0.192'') internet_side = Inr r"
    using assms unfolding lab7_router_def by (auto simp: bindE_eq_Inr)
  from l7_built [OF this] show ?thesis by simp
qed

lemma lab7_setup_inv:
  assumes "lab7_setup gai os k random is_client bounce_host bounce_port = Inr (s, sock)"
  shows "l7_inv 0 s"
proof -
  obtain r h i where "lab7_router gai (random 0) (random 1) is_client = Inr (r, h, i)" "ln_router s = r"
      "ln_host_side s = h" "ln_internet_side s = i"
    using assms unfolding lab7_setup_def by (auto simp: bindE_eq_Inr)
  then show ?thesis using lab7_router_wf by (fastforce simp: l7_inv_def less_2_cases_iff)
qed

section \<open>The adapter of the host\<close>

text \<open>
  \<open>NetworkInterfaceAdapter\<close> repeats the code of \<open>TCPOverIPv4OverEthernetAdapter\<close> over a socket pair in
  place of a TAP device, so it is quiet in the same sense.
\<close>

lemma nia_send_pending_loop_eq: "nia_send_pending_loop os k fs a = send_pending_loop os k fs a"
  by (induction fs arbitrary: k a) (simp_all add: split_def)

lemma nia_send_pending_eq: "nia_send_pending os = send_pending os"
  by (intro ext) (simp add: nia_send_pending_def send_pending_def nia_send_pending_loop_eq)

lemma nia_adapter_eq: "nia_adapter gai gni os = eth_adapter gai gni os"
proof -
  have "nia_read gai gni os = eth_adapter_read gai gni os" "nia_write gni os = eth_adapter_write gni os"
      "nia_tick os = eth_adapter_tick os"
    by (intro ext, simp only: nia_read_def eth_adapter_read_def nia_write_def eth_adapter_write_def nia_tick_def
        eth_adapter_tick_def nia_send_pending_eq)+
  then show ?thesis by (simp add: nia_adapter_def eth_adapter_def)
qed

interpretation nia: quiet_adapter "nia_adapter gai gni os"
    "\<lambda>a. stream_kernel os inp out \<and> fd_num (ea_tap a) \<noteq> fd" "fd_traffic inp out fd"
  for gai gni os inp out fd
  unfolding nia_adapter_eq by (rule tap.quiet_adapter_axioms)

section \<open>The network thread is safe\<close>

text \<open>
  C36. The network thread of \<open>lab7\<close>, started on what \<open>program_body\<close> set up and whatever the main thread
  did to the kernel meanwhile, never reads an empty queue, an interface that does not exist or a
  cancelled rule, for every kernel, every traffic and every number of rounds before the clocks wrap around:
  it goes on, returns, or ends with an exception that its handler prints. The router
  keeps its invariant and its two interfaces, and no rule is added.
\<close>

theorem network_thread_safe:
  assumes "lab7_setup gai os k random is_client bounce_host bounce_port = Inr (s, sock)"
    and "100 * n < 18446744073709551616"
  shows "case network_thread os exit_flag n (l7_net_rules os debug) (s\<lparr>ln_kernel := k'\<rparr>) of
      Inl e \<Rightarrow> e \<noteq> Undefined_Behaviour
    | Inr (s', rules, ended) \<Rightarrow> rt_wf (ln_router s') \<and> length (rt_interfaces (ln_router s')) = 2 \<and>
        subseq rules (l7_net_rules os debug)"
proof -
  have "l7_inv 0 (s\<lparr>ln_kernel := k'\<rparr>)" using lab7_setup_inv [OF assms(1)] by (simp add: l7_inv_def)
  from network_thread_keeps [OF this, of "l7_net_rules os debug" os debug n exit_flag] assms(2)
  show ?thesis by (auto simp: defined_def l7_inv_def split: sum.splits)
qed

text \<open>A kernel without traffic.\<close>

definition idle_os :: "unit os" where
  "idle_os = \<lparr>os_read = \<lambda>k fd n. (k, (0, 0), []), os_writev = \<lambda>k fd iov. (k, (int (length (concat (map fst iov))), 0)),
     os_close = \<lambda>k fd. (k, (0, 0)), os_getfl = \<lambda>k fd. (k, (0, 0)), os_setfl = \<lambda>k fd fl. (k, (0, 0)),
     os_poll = \<lambda>k fds t. (k, (0, 0), map (\<lambda>_. 0) fds), os_socket = \<lambda>k d t. (k, (3, 0)),
     os_getsockopt = \<lambda>k fd o'. (k, (0, 0), if o' = SO_DOMAIN then AF_UNIX else SOCK_STREAM, 4),
     os_setsockopt = \<lambda>k fd l o'. (k, (0, 0)), os_getname = \<lambda>k p fd. (k, (- 1, 5), [], 0),
     os_bind = \<lambda>k fd a n. (k, (0, 0)), os_connect = \<lambda>k fd a n. (k, (0, 0)), os_shutdown = \<lambda>k fd h. (k, (0, 0)),
     os_recvfrom = \<lambda>k fd n. (k, (- 1, 5), [], [], 0),
     os_sendmsg = \<lambda>k fd a n iov. (k, (int (length (concat (map fst iov))), 0)),
     os_listen = \<lambda>k fd b. (k, (- 1, 5)), os_accept = \<lambda>k fd. (k, (- 1, 5)), os_open = \<lambda>k p. (k, (- 1, 5)),
     os_ioctl = \<lambda>k fd f n. (k, (- 1, 5)), os_socketpair = \<lambda>k d t. (k, (0, 0), 4, 5), os_clock = \<lambda>k. (k, 0)\<rparr>"

definition idle_setup where
  "idle_setup = lab7_setup numeric_getaddrinfo idle_os () (\<lambda>i. [1, 2, 3, 4, 5, 6]) True ''104.196.238.229'' ''3000''"

lemma idle_run: "case idle_setup of Inl e \<Rightarrow> False | Inr (s, sock) \<Rightarrow>
  (case network_thread idle_os (\<lambda>k. False) 2 (l7_net_rules idle_os False) (s\<lparr>ln_kernel := ()\<rparr>) of
     Inl e \<Rightarrow> False | Inr (s', rules, ended) \<Rightarrow> \<not> ended)"
  by code_simp

theorem network_thread_safe_witness:
  "\<exists>s sock s' rules. idle_setup = Inr (s, sock) \<and>
     network_thread idle_os (\<lambda>k. False) 2 (l7_net_rules idle_os False) (s\<lparr>ln_kernel := ()\<rparr>) = Inr (s', rules, False) \<and>
     rt_wf (ln_router s') \<and> subseq rules (l7_net_rules idle_os False)"
proof -
  obtain s sock s' rules where r: "idle_setup = Inr (s, sock)"
      "network_thread idle_os (\<lambda>k. False) 2 (l7_net_rules idle_os False) (s\<lparr>ln_kernel := ()\<rparr>) = Inr (s', rules, False)"
    using idle_run by (auto split: sum.splits)
  then show ?thesis
    using network_thread_safe [OF r(1) [unfolded idle_setup_def], where n = 2 and exit_flag = "\<lambda>k. False" and
        debug = False and k' = "()"] r(2)
    by (intro exI [of _ s] exI [of _ sock] exI [of _ s'] exI [of _ rules]) simp
qed

end
