(* ===== verification/Packet_Dump.thy ===== *)
theory Packet_Dump
  imports Command_Line Printing
begin

text \<open>
  The programs that show packets: \<open>src/apps/udp_tcpdump.cc\<close>, which captures UDP datagrams with
  \<open>libpcap\<close> and prints the TCP segments in them, and \<open>src/apps/tun.cc\<close>, which prints what arrives on a
  TUN device.

  A captured packet is the list of its \<open>caplen\<close> bytes; reading outside of it is undefined.
  \<open>inet_ntop\<close> and the calls of \<open>libpcap\<close> are arguments.
\<close>

section \<open>The command line of the packet dumper\<close>

definition tcpdump_usage :: "string \<Rightarrow> string option \<Rightarrow> string" where
  "tcpdump_usage arg0 errmsg =
     ''Usage: '' @ arg0 @ '' [-i <intf>] [-F <file>] [-h|--help] <expression>'' @ newline @ newline @
     ''  -i <intf>    only capture packets from <intf> (default: all)'' @ newline @ newline @
     ''  -F <file>    reads in a filter expression from <file>'' @ newline @
     ''               <expression> is ignored if -F is supplied.'' @ newline @ newline @
     ''  -h, --help   show this message'' @ newline @ newline @
     ''  <expression> a filter expression in pcap-filter(7) syntax'' @ newline @
     (case errmsg of None \<Rightarrow> [] | Some m \<Rightarrow> newline @ m) @ newline"

text \<open>The device and the index of the first word of the filter expression.\<close>

function parse_arguments :: "string list \<Rightarrow> nat \<Rightarrow> string option \<Rightarrow> (string option \<times> nat) parsed" where
  "parse_arguments argv i dev =
     (if i < length argv then
        if strncmp_eq ''-i'' (argv ! i) 3 then
          if i + 1 \<ge> length argv then Quit 1 (tcpdump_usage (argv ! 0) (Some ''ERROR: -i requires an argument''))
          else parse_arguments argv (i + 2) (Some (argv ! (i + 1)))
        else if strncmp_eq ''-h'' (argv ! i) 3 \<or> strncmp_eq ''--help'' (argv ! i) 7
        then Quit 0 (tcpdump_usage (argv ! 0) None)
        else Run (dev, i)
      else Run (dev, i))"
  by pat_completeness auto

termination
  by (relation "measure (\<lambda>(argv, i, dev). length argv - i)") auto

section \<open>Reading a packet\<close>

definition data_at :: "bytes \<Rightarrow> int \<Rightarrow> u8 res" where
  "data_at data i = (if 0 \<le> i \<and> i < int (length data) then Inr (data ! nat i) else Inl Undefined_Behaviour)"

text \<open>\<open>inet_ntop\<close> on the bytes of an address; \<open>None\<close> is the null pointer.\<close>

datatype address_family = INET | INET6

type_synonym inet_ntop = "address_family \<Rightarrow> bytes \<Rightarrow> string option"

definition inet4_addr :: "inet_ntop \<Rightarrow> bytes \<Rightarrow> nat \<Rightarrow> string res" where
  "inet4_addr ntop data i =
     (if i + 4 \<le> length data
      then Inr (case ntop INET (take 4 (drop i data)) of None \<Rightarrow> ''unknown'' | Some s \<Rightarrow> s)
      else Inl Undefined_Behaviour)"

definition inet6_addr :: "inet_ntop \<Rightarrow> bytes \<Rightarrow> nat \<Rightarrow> string res" where
  "inet6_addr ntop data i =
     (if i + 16 \<le> length data
      then Inr (case ntop INET6 (take 16 (drop i data)) of None \<Rightarrow> ''unknown'' | Some s \<Rightarrow> s)
      else Inl Undefined_Behaviour)"

text \<open>
  The result of \<open>process_ipv4_ipv6\<close>: \<open>None\<close> is the return value -1; otherwise the offset and the two
  addresses. The first component is what is written to the standard error. Overflow of an \<open>int\<close>
  is undefined.
\<close>

type_synonym ip_result = "string \<times> (int \<times> string \<times> string) option"

function skip_extensions :: "int \<Rightarrow> bytes \<Rightarrow> u8 \<Rightarrow> int \<Rightarrow> (string \<times> int option) res" where
  "skip_extensions len data nxt data_offset =
     (if nxt \<noteq> 0x11 then
        if nxt \<noteq> 0 \<and> nxt \<noteq> 43 \<and> nxt \<noteq> 60 then Inr (''Not UDP or fragmented; '', None)
        else
          bindE (data_at data data_offset) (\<lambda>nxt.
          bindE (data_at data (data_offset + 1)) (\<lambda>size.
          let data_offset = data_offset + 8 * (1 + int (unat size)) in
          if 2147483645 < data_offset then Inl Undefined_Behaviour
          else if len < data_offset + 2 then Inr ([], None)
          else skip_extensions len data nxt data_offset))
      else Inr ([], Some data_offset))"
  by pat_completeness auto

termination
proof (relation "measure (\<lambda>(len, data, nxt, data_offset). nat (len - data_offset))", goal_cases)
  case (2 len data nxt data_offset nxt' size data_offset')
  have pos: "0 < 8 * (1 + int n)" for n by simp
  have "data_offset < data_offset'" by (simp only: 2(5) less_add_same_cancel1 pos)
  then show ?case using 2(7) by simp
qed simp

definition process_ipv4_ipv6 :: "inet_ntop \<Rightarrow> int \<Rightarrow> bytes \<Rightarrow> ip_result res" where
  "process_ipv4_ipv6 ntop len data =
     (if len < 1 then Inr ([], None)
      else
      bindE (data_at data 0) (\<lambda>first.
      let pt = first AND 0xf0 in
      if pt = 0x40 then
        let data_offset = int (unat (first AND 0x0f)) * 4 in
        if len < data_offset then Inr ([], None)
        else
        bindE (data_at data 9) (\<lambda>proto.
        if proto \<noteq> 0x11 then Inr (''Not UDP; '', None)
        else
        bindE (inet4_addr ntop data 12) (\<lambda>src_addr.
        bindE (inet4_addr ntop data 16) (\<lambda>dst_addr.
          Inr ([], Some (data_offset + 8, src_addr, dst_addr)))))
      else if pt = 0x60 then
        if len < 42 then Inr ([], None)
        else
        bindE (data_at data 6) (\<lambda>nxt.
        bindE (skip_extensions len data nxt 40) (\<lambda>(err, r).
        case r of
          None \<Rightarrow> Inr (err, None)
        | Some data_offset \<Rightarrow>
          bindE (inet6_addr ntop data 8) (\<lambda>src_addr.
          bindE (inet6_addr ntop data 24) (\<lambda>dst_addr.
            Inr (err, Some (data_offset + 8, src_addr, dst_addr))))))
      else Inr ([], None)))"

section \<open>Printing a packet\<close>

datatype datalink = DLT_RAW | DLT_NULL | DLT_EN10MB | DLT_LINUX_SLL | DLT_LINUX_SLL2 | DLT_OTHER int

text \<open>Where the IP packet starts, or the message for a packet that is skipped, or the end of the
  program for an unknown type. The 16-bit types are assembled from two bytes.\<close>

datatype link_start = Start nat | Skip string | Give_Up string

definition be_at :: "bytes \<Rightarrow> int \<Rightarrow> u16 res" where
  "be_at data i =
     bindE (data_at data i) (\<lambda>a. bindE (data_at data (i + 1)) (\<lambda>b.
       Inr (push_bit 8 (ucast a) OR ucast b)))"

definition malformed :: string where
  "malformed = ''[INFO] Skipping malformed packet.'' @ newline"

definition non_ip :: string where
  "non_ip = ''[INFO] Skipping non-IP packet.'' @ newline"

definition link_header :: "datalink \<Rightarrow> bytes \<Rightarrow> link_start res" where
  "link_header dl_type pkt_data =
     (let ethertype = (\<lambda>i hdr_off. bindE (be_at pkt_data i) (\<lambda>pt.
            Inr (if pt \<noteq> 0x0800 \<and> pt \<noteq> 0x86dd then Skip non_ip else Start hdr_off)))
      in
      case dl_type of
        DLT_NULL \<Rightarrow>
          if length pkt_data < 4 then Inr (Skip malformed)
          else
          bindE (data_at pkt_data 3) (\<lambda>pt.
            Inr (if pt \<noteq> 2 \<and> pt \<noteq> 24 \<and> pt \<noteq> 28 \<and> pt \<noteq> 30 then Skip non_ip else Start 4))
      | DLT_EN10MB \<Rightarrow> if length pkt_data < 14 then Inr (Skip malformed) else ethertype 12 14
      | DLT_LINUX_SLL \<Rightarrow> if length pkt_data < 16 then Inr (Skip malformed) else ethertype 14 16
      | DLT_LINUX_SLL2 \<Rightarrow> if length pkt_data < 20 then Inr (Skip malformed) else ethertype 0 20
      | DLT_RAW \<Rightarrow> Inr (Start 0)
      | DLT_OTHER _ \<Rightarrow> Inr (Give_Up ''Mysterious datalink type. Giving up.''))"

definition flags_text :: "TCPHeader \<Rightarrow> string" where
  "flags_text h =
     (if th_urg h then ''U'' else []) @ (if th_psh h then ''P'' else []) @ (if th_rst h then ''R'' else []) @
     (if th_syn h then ''S'' else []) @ (if th_fin h then ''F'' else []) @ (if th_ack h then ''.'' else [])"

definition segment_text :: "string \<Rightarrow> string \<Rightarrow> bytes \<Rightarrow> string" where
  "segment_text src dst payload =
     (let (res, seg) = tcp_segment_parse TCPSegment_init payload 0 in
      if parse_result_index res > parse_result_index BadChecksum
      then ''(did not recognize TCP header) src: '' @ src @ '' dst: '' @ dst @ newline
      else
        let h = ts_header seg; seqlen = ucast (length_in_sequence_space seg) :: u32 in
        src @ '':'' @ show_dec (th_sport h) @ '' > '' @ dst @ '':'' @ show_dec (th_dport h) @ newline @
        ''    Flags ['' @ flags_text h @ ''] cksum 0x'' @ setw 4 (CHR ''0'') (show_hex (th_cksum h)) @
        (if res = NoError then '' (correct)'' else '' (incorrect!)'') @
        '' seq '' @ show_dec (raw_value (th_seqno h)) @
        (if seqlen > 0 then '':'' @ show_dec (raw_value (wi_plus (th_seqno h) seqlen)) else []) @
        '' ack '' @ show_dec (raw_value (th_ackno h)) @ '' win '' @ show_dec (th_win h) @
        '' length '' @ to_string_nat (length payload) @ newline)"

text \<open>
  One packet, with what is written to the standard output and to the standard error and whether
  the program goes on. The length of the payload is a \<open>size_t\<close>: it wraps around when the UDP
  header is cut off, and the constructor of \<open>std::string\<close> throws for it.
\<close>

definition dump_packet :: "inet_ntop \<Rightarrow> datalink \<Rightarrow> bytes \<Rightarrow> (string \<times> string \<times> bool) res" where
  "dump_packet ntop dl_type pkt_data =
     bindE (link_header dl_type pkt_data) (\<lambda>l.
     case l of
       Skip message \<Rightarrow> Inr ([], message, True)
     | Give_Up message \<Rightarrow> Inr ([], message, False)
     | Start hdr_off \<Rightarrow>
       bindE (process_ipv4_ipv6 ntop (to_int32 (int (length pkt_data) - int hdr_off)) (drop hdr_off pkt_data))
         (\<lambda>(err, r).
       case r of
         None \<Rightarrow> Inr ([], err @ ''Error parsing IPv4/IPv6 packet. Skipping.'' @ newline, True)
       | Some (start_off, src, dst) \<Rightarrow>
         let payload_off = of_nat hdr_off + word_of_int start_off :: u64;
             payload_len = sz pkt_data - payload_off
         in
         if 0x7fffffffffffffff < payload_len then Inl Length_Error
         else
           let payload = take (unat payload_len) (drop (unat payload_off) pkt_data) in
           Inr (segment_text src dst payload @ hexdump payload 8, err, True)))"

section \<open>The program\<close>

text \<open>
  \<open>libpcap\<close>: opening a device gives an error or the type of its link; compiling and setting a
  filter may give an error. What \<open>pcap_next_ex\<close> returns is a list of packets and timeouts, and the
  negative value that ends it.
\<close>

record pcap =
  pcap_open_live :: "string option \<Rightarrow> string + datalink"
  pcap_description :: "datalink \<Rightarrow> string"
  pcap_compile :: "string \<Rightarrow> string option"
  pcap_setfilter :: "string \<Rightarrow> string option"

fun supported_link :: "datalink \<Rightarrow> bool" where
  "supported_link (DLT_OTHER _) = False"
| "supported_link _ = True"

datatype capture = Captured bytes | Listen_Again

fun dump_loop :: "inet_ntop \<Rightarrow> datalink \<Rightarrow> capture list \<Rightarrow> (string \<times> string \<times> bool) res" where
  "dump_loop ntop dl_type [] = Inr ([], [], True)"
| "dump_loop ntop dl_type (Listen_Again # cs) = dump_loop ntop dl_type cs"
| "dump_loop ntop dl_type (Captured pkt_data # cs) =
     bindE (dump_packet ntop dl_type pkt_data) (\<lambda>(out, err, go_on).
     if \<not> go_on then Inr (out, err, False)
     else
     bindE (dump_loop ntop dl_type cs) (\<lambda>(out', err', go_on). Inr (out @ out', err @ err', go_on)))"

text \<open>After the loop the handle is closed; the error message of a closed handle must not be read.\<close>

definition tcpdump_capture ::
    "inet_ntop \<Rightarrow> pcap \<Rightarrow> capture list \<Rightarrow> int \<Rightarrow> string \<Rightarrow> datalink \<Rightarrow> (string \<times> string \<times> int) res" where
  "tcpdump_capture ntop p captures next_ret filter_expression dl_type =
     (case pcap_compile p filter_expression of
        Some e \<Rightarrow> Inr (''Error compiling filter expression: '' @ e @ newline, [], 1)
      | None \<Rightarrow>
        (case pcap_setfilter p filter_expression of
           Some e \<Rightarrow> Inr (''Error configuring packet filter: '' @ e @ newline, [], 1)
         | None \<Rightarrow>
           bindE (dump_loop ntop dl_type captures) (\<lambda>(out, err, go_on).
           if \<not> go_on then Inr (out, err, 1)
           else if next_ret = - 1 then Inl Undefined_Behaviour
           else Inr (out, err, 0))))"

definition tcpdump_main ::
    "inet_ntop \<Rightarrow> pcap \<Rightarrow> capture list \<Rightarrow> int \<Rightarrow> string list \<Rightarrow> (string \<times> string \<times> int) res" where
  "tcpdump_main ntop p captures next_ret argv =
     (case parse_arguments argv 1 None of
        Quit status message \<Rightarrow> Inr (message, [], status)
      | Run (dev, exp_start) \<Rightarrow>
        (let start = (case dev of Some d \<Rightarrow> ''Capturing on interface '' @ d | None \<Rightarrow> ''Capturing on all interfaces'')
         in
         case pcap_open_live p dev of
           Inl errbuf \<Rightarrow> Inr (start @ newline @ ''Error initiating capture: '' @ errbuf @ newline, [], 1)
         | Inr dlt \<Rightarrow>
           if \<not> supported_link dlt
           then Inr (start @ newline @ ''Error: unsupported datalink type '' @ pcap_description p dlt @ newline, [], 1)
           else
             let filter_expression = concat (map (\<lambda>a. a @ '' '') (drop exp_start argv));
                 start = start @ '' (type: '' @ pcap_description p dlt @ '')'' @ newline @
                   ''Using filter expression: '' @ filter_expression @ newline
             in
             bindE (tcpdump_capture ntop p captures next_ret filter_expression dlt) (\<lambda>(out, err, status).
               Inr (start @ out, err, status))))"

section \<open>The packets of a TUN device\<close>

text \<open>One round of the loop; the result is the output.\<close>

definition tun_packet :: "bytes \<Rightarrow> string res" where
  "tun_packet buffer =
     (let head = newline @ newline @ ''***'' @ newline @ ''*** Got packet:'' @ newline @ ''***'' @ newline @
            hexdump buffer 0 @ ''attempting to parse as ipv4 datagram... '';
          (result, ip_dgram) = ipv4_datagram_parse IPv4Datagram_init buffer
      in
      if result \<noteq> NoError then Inr (head @ ''failed.'' @ newline)
      else
      let h = dg_header ip_dgram;
          head = head @ ''success! totlen='' @ show_dec (ip_len h) @ '', IPv4 header contents:'' @ newline @
            ipv4_header_to_string h
      in
      if ip_proto h \<noteq> PROTO_TCP then Inr (head @ newline @ ''Not TCP, skipping.'' @ newline)
      else
      bindE (pieces_to_buffer (dg_payload ip_dgram)) (\<lambda>payload.
      let head = head @ newline @ ''Attempting to parse as a TCP segment... '';
          (result, tcp_seg) = tcp_segment_parse TCPSegment_init payload (pseudo_cksum h)
      in
      if result \<noteq> NoError then Inr (head @ ''failed.'' @ newline)
      else Inr (head @ ''success! payload len='' @ to_string_nat (length (ts_payload tcp_seg)) @
        '', TCP header contents:'' @ newline @ tcp_header_to_string (ts_header tcp_seg) @ newline)))"

text \<open>The loop for a number of packets, and \<open>main\<close> up to it.\<close>

fun tun_loop :: "'k os \<Rightarrow> nat \<Rightarrow> 'k \<Rightarrow> FDWrapper \<Rightarrow> ('k \<times> FDWrapper \<times> string) res" where
  "tun_loop os 0 k tun = Inr (k, tun, [])"
| "tun_loop os (Suc n) k tun =
     bindE (fd_read os k tun max_size) (\<lambda>(k, tun, buffer).
     bindE (tun_packet buffer) (\<lambda>out.
     bindE (tun_loop os n k tun) (\<lambda>(k, tun, out'). Inr (k, tun, out @ out'))))"

definition tun_main :: "'k os \<Rightarrow> nat \<Rightarrow> 'k \<Rightarrow> ('k \<times> FDWrapper \<times> string) res" where
  "tun_main os n k = bindE (TunFD_init os k ''tun144'') (\<lambda>(k, tun). tun_loop os n k tun)"

section \<open>Reads inside the packet\<close>

lemma data_at_defined: "0 \<le> i \<Longrightarrow> i < int (length data) \<Longrightarrow> defined (data_at data i)"
  by (simp add: data_at_def)

declare skip_extensions.simps [simp del]

lemma skip_extensions_inside:
  assumes "40 \<le> off" "off + 2 \<le> int (length data)" "length data \<le> 65535"
  shows "defined (skip_extensions (int (length data)) data nxt off) \<and>
    (\<forall>err off'. skip_extensions (int (length data)) data nxt off = Inr (err, Some off') \<longrightarrow>
       off \<le> off' \<and> off' + 2 \<le> int (length data))"
  using assms(1,2)
proof (induction "nat (int (length data) - off)" arbitrary: nxt off rule: less_induct)
  case less
  let ?n = "int (length data)"
  have reads: "data_at data off = Inr (data ! nat off)" "data_at data (off + 1) = Inr (data ! nat (off + 1))"
    using less(2,3) by (simp_all add: data_at_def)
  obtain m where m: "unat (data ! nat (off + 1)) = m" "m < 256" using u8_bound [of "data ! nat (off + 1)"] by simp
  let ?next = "off + 8 * (1 + int m)"
  note eq = skip_extensions.simps [of ?n data nxt off, unfolded reads bindE_Inr m(1) Let_def]
  show ?case
  proof (cases "nxt = 17 \<or> nxt \<noteq> 0 \<and> nxt \<noteq> 43 \<and> nxt \<noteq> 60 \<or> ?n < ?next + 2")
    case True
    then show ?thesis using less(2,3) assms(3) m(2) by (auto simp: eq)
  next
    case False
    then have step: "skip_extensions ?n data nxt off = skip_extensions ?n data (data ! nat off) ?next"
      using less(2,3) assms(3) by (auto simp: eq)
    have next_off: "nat (?n - ?next) < nat (?n - off)" "40 \<le> ?next" "?next + 2 \<le> ?n" "off \<le> ?next"
      using False less(2,3) by auto
    show ?thesis using less(1) [OF next_off(1-3), of "data ! nat off"] next_off(4) unfolding step by auto
  qed
qed

text \<open>An IPv4 packet that has a whole header.\<close>

definition whole_header :: "bytes \<Rightarrow> bool" where
  "whole_header d \<longleftrightarrow> (case d of [] \<Rightarrow> True | b # _ \<Rightarrow> b AND 0xf0 = 0x40 \<longrightarrow> 20 \<le> length d)"

lemma process_inside:
  assumes "whole_header d" "length d \<le> 65535"
  shows "defined (process_ipv4_ipv6 ntop (int (length d)) d)"
proof (cases d)
  case (Cons b bs)
  have first: "data_at d 0 = Inr b" by (simp add: data_at_def Cons)
  have len: "\<not> int (length d) < 1" by (simp add: Cons)
  consider (v4) "b AND 0xf0 = 0x40" "20 \<le> length d" | (v6) "b AND 0xf0 = 0x60" "42 \<le> int (length d)"
    | (other) "b AND 0xf0 \<noteq> 0x40" "b AND 0xf0 \<noteq> 0x60 \<or> int (length d) < 42"
    using assms(1) Cons by (fastforce simp: whole_header_def)
  then show ?thesis
  proof cases
    case v4
    then have "data_at d 9 = Inr (d ! 9)" "12 + 4 \<le> length d" "16 + 4 \<le> length d" by (simp_all add: data_at_def)
    then show ?thesis using v4 len by (simp add: process_ipv4_ipv6_def first inet4_addr_def Let_def)
  next
    case v6
    then have reads: "data_at d 6 = Inr (d ! 6)" "8 + 16 \<le> length d" "24 + 16 \<le> length d" by (simp_all add: data_at_def)
    have "defined (skip_extensions (int (length d)) d (d ! 6) 40)"
      using skip_extensions_inside [of 40 d "d ! 6"] v6(2) assms(2) by simp
    then show ?thesis
      using v6 reads len by (auto simp: process_ipv4_ipv6_def first inet6_addr_def Let_def split: option.split)
  next
    case other
    then show ?thesis using len by (auto simp: process_ipv4_ipv6_def first Let_def)
  qed
qed (simp add: process_ipv4_ipv6_def)

lemma link_header_inside:
  "defined (link_header dl pkt)" "link_header dl pkt = Inr (Start h) \<Longrightarrow> h \<le> length pkt"
proof -
  have be: "be_at pkt i = Inr (push_bit 8 (ucast (pkt ! nat i)) OR ucast (pkt ! nat (i + 1)))"
    if "0 \<le> i" "i + 1 < int (length pkt)" for i
    using that by (simp add: be_at_def data_at_def)
  show "defined (link_header dl pkt)"
    by (cases dl) (auto simp: link_header_def be data_at_def)
  show "link_header dl pkt = Inr (Start h) \<Longrightarrow> h \<le> length pkt"
    by (cases dl) (auto simp: link_header_def be data_at_def split: if_splits)
qed

lemma dump_packet_start:
  assumes "link_header dl pkt = Inr (Start h)" "length pkt \<le> 65535"
  shows "dump_packet ntop dl pkt =
    bindE (process_ipv4_ipv6 ntop (int (length (drop h pkt))) (drop h pkt)) (\<lambda>(err, r).
      case r of
        None \<Rightarrow> Inr ([], err @ ''Error parsing IPv4/IPv6 packet. Skipping.'' @ newline, True)
      | Some (start_off, src, dst) \<Rightarrow>
        let payload_off = of_nat h + word_of_int start_off :: u64; payload_len = sz pkt - payload_off
        in
        if 0x7fffffffffffffff < payload_len then Inl Length_Error
        else
          let payload = take (unat payload_len) (drop (unat payload_off) pkt) in
          Inr (segment_text src dst payload @ hexdump payload 8, err, True))"
proof -
  have "to_int32 (int (length pkt) - int h) = int (length (drop h pkt))"
    using link_header_inside(2) [OF assms(1)] assms(2) by (simp add: to_int32_id)
  then show ?thesis by (simp only: dump_packet_def assms(1) bindE_Inr link_start.case)
qed

text \<open>
  C38. The packet dumper reads only bytes of the captured packet, for every kind of link and every
  packet whose IPv4 header is whole (IPv6 packets may end anywhere): the only exception is the
  one of a payload whose UDP header is cut off.
\<close>

theorem dump_packet_safe:
  assumes "length pkt \<le> 65535"
    and "\<forall>h. link_header dl pkt = Inr (Start h) \<longrightarrow> whole_header (drop h pkt)"
  shows "dump_packet ntop dl pkt \<noteq> Inl Undefined_Behaviour"
proof -
  obtain l where l: "link_header dl pkt = Inr l"
    using link_header_inside(1) [of dl pkt] by (cases dl) (auto simp: link_header_def be_at_def data_at_def split: if_splits)
  show ?thesis
  proof (cases l)
    case (Start h)
    have "defined (process_ipv4_ipv6 ntop (int (length (drop h pkt))) (drop h pkt))"
      using process_inside [of "drop h pkt"] assms l Start by simp
    then have "defined (dump_packet ntop dl pkt)"
      unfolding dump_packet_start [OF l [unfolded Start] assms(1)]
      by (rule defined_bind) (auto simp: Let_def split: option.split prod.split)
    then show ?thesis by (simp add: defined_def)
  qed (auto simp: dump_packet_def l)
qed

theorem dump_packet_safe_witness:
  "dump_packet (\<lambda>f b. None) DLT_NULL ([0, 0, 0, 30, 0x60] @ replicate 46 0) \<noteq> Inl Undefined_Behaviour"
  using dump_packet_safe [of "[0, 0, 0, 30, 0x60] @ replicate 46 0" DLT_NULL "\<lambda>f b. None"]
  by (simp add: link_header_def data_at_def whole_header_def)

text \<open>A packet of one byte that claims to be IPv4 is read behind its end.\<close>

theorem short_ipv4_overread: "dump_packet ntop DLT_RAW [0x40] = Inl Undefined_Behaviour"
  by (simp add: dump_packet_start [of DLT_RAW "[0x40]" 0] link_header_def process_ipv4_ipv6_def data_at_def Let_def)

text \<open>The exception of a packet that ends behind its IP header is not caught: it ends the program.\<close>

theorem cut_udp_header_throws:
  assumes "ntop INET [10, 0, 0, 1] = Some src" "ntop INET [10, 0, 0, 2] = Some dst"
  shows "dump_packet ntop DLT_RAW [0x45, 0, 0, 0, 0, 0, 0, 0, 0, 0x11, 0, 0, 10, 0, 0, 1, 10, 0, 0, 2] = Inl Length_Error"
proof -
  let ?p = "[0x45, 0, 0, 0, 0, 0, 0, 0, 0, 0x11, 0, 0, 10, 0, 0, 1, 10, 0, 0, 2] :: bytes"
  have "process_ipv4_ipv6 ntop (int (length ?p)) ?p = Inr ([], Some (28, src, dst))"
    using assms by (simp add: process_ipv4_ipv6_def data_at_def inet4_addr_def Let_def)
  then show ?thesis
    using dump_packet_start [of DLT_RAW ?p 0 ntop] by (simp add: link_header_def Let_def sz_def)
qed

lemma show_zero: "show_dec 0 = ''0''" "show_hex 0 = ''0''"
proof -
  have "to_string_nat 0 = ''0''" "hex_string 0 = ''0''" by code_simp+
  then show "show_dec 0 = ''0''" "show_hex 0 = ''0''" by (simp_all add: show_dec_def show_hex_def)
qed

text \<open>
  A segment with a bad checksum is shown as incorrect but without its contents, since the parser
  gives up before it reads the header: every number is 0.
\<close>

theorem bad_checksum_shows_zeros:
  assumes "ck_value (ck_add (InternetChecksum_init 0) payload) \<noteq> 0"
  shows "segment_text src dst payload =
    src @ '':0 > '' @ dst @ '':0'' @ newline @
    ''    Flags [] cksum 0x0000 (incorrect!) seq 0 ack 0 win 0 length '' @ to_string_nat (length payload) @ newline"
  using assms
  by (simp add: segment_text_def tcp_segment_parse_def Let_def TCPSegment_init_def TCPHeader_init_def show_zero
      flags_text_def length_in_sequence_space_def sz_def setw_def numeral_eq_Suc)

section \<open>What the dumper shows\<close>

definition addr4_text :: "inet_ntop \<Rightarrow> bytes \<Rightarrow> string" where
  "addr4_text ntop b = (case ntop INET b of None \<Rightarrow> ''unknown'' | Some s \<Rightarrow> s)"

lemma dump_udp_ipv4:
  assumes "length hdr = 20" "hdr ! 0 = 0x45" "hdr ! 9 = 0x11" "length udp = 8"
    and "link_header dl (link @ hdr @ udp @ payload) = Inr (Start (length link))"
    and "length (link @ hdr @ udp @ payload) \<le> 65535"
  shows "dump_packet ntop dl (link @ hdr @ udp @ payload) =
    Inr (segment_text (addr4_text ntop (take 4 (drop 12 hdr))) (addr4_text ntop (drop 16 hdr)) payload @
         hexdump payload 8, [], True)"
proof -
  let ?d = "hdr @ udp @ payload"
  have reads: "data_at ?d 0 = Inr 0x45" "data_at ?d 9 = Inr 0x11" "12 + 4 \<le> length ?d" "16 + 4 \<le> length ?d"
      "take 4 (drop 12 ?d) = take 4 (drop 12 hdr)" "take 4 (drop 16 ?d) = drop 16 hdr"
    using assms(1-4) by (simp_all add: data_at_def nth_append)
  have "process_ipv4_ipv6 ntop (int (length ?d)) ?d =
      Inr ([], Some (28, addr4_text ntop (take 4 (drop 12 hdr)), addr4_text ntop (drop 16 hdr)))"
    using assms(1,4) unfolding process_ipv4_ipv6_def inet4_addr_def reads bindE_Inr
    by (simp add: Let_def reads(3-6) addr4_text_def)
  moreover have "of_nat (length link) + (28 :: u64) = of_nat (length link + 28)" by simp
  moreover have "unat (of_nat (length link + 28) :: u64) = length link + 28"
    using assms(6) by (intro unat_u64_of_nat) simp
  moreover have len: "sz (link @ hdr @ udp @ payload) - of_nat (length link + 28) = (of_nat (length payload) :: u64)"
    using assms(1,4) by (simp add: sz_def)
  moreover have "unat (of_nat (length payload) :: u64) = length payload"
    using assms(6) by (intro unat_u64_of_nat) simp
  moreover have "\<not> 0x7fffffffffffffff < (of_nat (length payload) :: u64)"
    using calculation(5) assms(6) by (simp add: word_less_nat_alt)
  ultimately show ?thesis
    using assms(1,4) by (simp add: dump_packet_start [OF assms(5,6)] Let_def)
qed


definition shown_segment :: TCPSegment where
  "shown_segment = TCPSegment_init\<lparr>ts_header := TCPHeader_init\<lparr>th_sport := 80, th_syn := True\<rparr>, ts_payload := [7]\<rparr>"

lemma shown_bytes: "\<exists>ps. tcp_segment_serialize shown_segment 0 = Inr ps \<and> length (concat ps) = 21"
proof -
  have "case tcp_segment_serialize shown_segment 0 of Inl e \<Rightarrow> False | Inr ps \<Rightarrow> length (concat ps) = 21" by code_simp
  then show ?thesis by (auto split: sum.splits)
qed

definition shown_header :: bytes where
  "shown_header = [0x45, 0, 0, 0, 0, 0, 0, 0, 0, 0x11, 0, 0, 0, 0, 0, 0, 0, 0, 0, 0]"


section \<open>What arrives on the TUN device\<close>

text \<open>No packet ends the program: an error can only come from reading the device.\<close>

lemma ipv4_payload_pieces: "ipv4_datagram_parse IPv4Datagram_init b = (r, d) \<Longrightarrow> length (dg_payload d) \<le> 1"
  by (auto simp: ipv4_datagram_parse_def IPv4Datagram_init_def Let_def split: prod.splits if_splits)

lemma tun_packet_total: "\<exists>out. tun_packet b = Inr out"
proof -
  obtain r d where d: "ipv4_datagram_parse IPv4Datagram_init b = (r, d)" by fastforce
  have "\<exists>p. pieces_to_buffer (dg_payload d) = Inr p" using ipv4_payload_pieces [OF d]
    by (cases "dg_payload d") (auto simp: pieces_to_buffer_def)
  then show ?thesis by (auto simp: tun_packet_def d Let_def split: prod.split)
qed

theorem tun_loop_errors:
  "tun_loop os n k tun = Inl e \<Longrightarrow> \<exists>k' tun'. fd_read os k' tun' max_size = Inl e"
proof (induction n arbitrary: k tun)
  case (Suc n)
  show ?case
  proof (cases "fd_read os k tun max_size")
    case (Inr x)
    obtain k1 w b where x: "x = (k1, w, b)" by (cases x)
    obtain out where "tun_packet b = Inr out" using tun_packet_total by blast
    then have "tun_loop os n k1 w = Inl e" using Suc.prems Inr x by (cases "tun_loop os n k1 w") auto
    then show ?thesis by (rule Suc.IH)
  qed (use Suc.prems in auto)
qed simp

end
