(* ===== verification/Web_Client.thy ===== *)
theory Web_Client
  imports Network_Simulator Command_Line
begin

text \<open>
  The clients \<open>src/apps/webget.cc\<close>, which fetches a page over the whole stack of this library, and
  \<open>src/apps/tcp_native.cc\<close>, which copies between the standard streams and a socket of the operating
  system. While the owner of a socket reads and writes, the thread of the connection works on
  the other end of the socket pair: what it does is part of the kernel.
\<close>

section \<open>Fetching a page\<close>

definition crlf :: string where
  "crlf = [CHR 13, CHR 10]"

definition get_request :: "string \<Rightarrow> string \<Rightarrow> string" where
  "get_request host path =
     ''GET '' @ path @ '' HTTP/1.1'' @ crlf @ ''Host: '' @ host @ crlf @ ''Connection: close'' @ crlf @ crlf"

text \<open>The loop that prints what it reads until the end of the file, for a number of rounds; the flag
  tells whether it has ended.\<close>

fun read_to_eof :: "'k os \<Rightarrow> nat \<Rightarrow> 'k \<Rightarrow> FDWrapper \<Rightarrow> ('k \<times> FDWrapper \<times> bytes \<times> bool) res" where
  "read_to_eof os 0 k w = Inr (k, w, [], fd_eof w)"
| "read_to_eof os (Suc n) k w =
     (if fd_eof w then Inr (k, w, [], True)
      else
      bindE (fd_read os k w max_size) (\<lambda>(k, w, str).
      bindE (read_to_eof os n k w) (\<lambda>(k, w, out, ended). Inr (k, w, str @ out, ended))))"

text \<open>From the request to the end of the answer.\<close>

definition http_exchange :: "'k os \<Rightarrow> nat \<Rightarrow> string \<Rightarrow> 'k \<Rightarrow> FDWrapper \<Rightarrow> ('k \<times> FDWrapper \<times> bytes \<times> bool) res" where
  "http_exchange os m get k w =
     bindE (fd_write os k w (bvl_of_string (string_bytes get)) True) (\<lambda>(k, w, _).
     bindE (sock_shutdown os k w SHUT_WR) (\<lambda>(k, w).
       read_to_eof os m k w))"

text \<open>The output, and whether the function has returned; first for a socket that is connected.\<close>

definition web_session :: "'k os \<Rightarrow> ('k, 'a) adapter \<Rightarrow> ('k \<Rightarrow> bool) \<Rightarrow> nat \<Rightarrow> nat \<Rightarrow> string \<Rightarrow> ('k, 'a) sponge \<Rightarrow>
    ('k, 'a) sponge Rule list \<Rightarrow> (bytes \<times> bool) res" where
  "web_session os ad abort n m get s rules =
     bindE (http_exchange os m get (ss_kernel s) (ss_owner s)) (\<lambda>(k, w, out, ended).
     if \<not> ended then Inr (out, False)
     else
     bindE (sock_shutdown os k w SHUT_RD) (\<lambda>(k, w).
     bindE (fd_close os k w) (\<lambda>(k, w).
     bindE (wait_until_closed os ad abort n True (s\<lparr>ss_kernel := k, ss_owner := w\<rparr>) rules) (\<lambda>(s, rules, ended).
       Inr (out, ended)))))"

definition get_URL :: "getaddrinfo \<Rightarrow> getnameinfo \<Rightarrow> 'k os \<Rightarrow> ('k \<Rightarrow> bool) \<Rightarrow> nat \<Rightarrow> nat \<Rightarrow> u32 list \<Rightarrow> u32 \<Rightarrow> u32 \<Rightarrow> 'k \<Rightarrow>
    string \<Rightarrow> string \<Rightarrow> (bytes \<times> bool) res" where
  "get_URL gai gni os abort n m random_address random random_isn k host path =
     bindE (FullStackSocket_init gai os k random_address) (\<lambda>s.
     bindE (Address_of_host gai host ''http'') (\<lambda>addr.
     let get = get_request host path in
     bindE (full_stack_connect gai gni os abort n random random_isn addr s []) (\<lambda>(s, rules, connected).
     if \<not> connected then Inr ([], False)
     else web_session os (eth_adapter gai gni os) abort n m get s rules)))"

definition webget_usage :: "string \<Rightarrow> string" where
  "webget_usage argv0 = ''Usage: '' @ argv0 @ '' HOST PATH'' @ newline @
     [CHR 9] @ ''Example: '' @ argv0 @ '' stanford.edu /class/cs144'' @ newline"

definition webget_arguments :: "string list \<Rightarrow> (string \<times> string) parsed" where
  "webget_arguments argv =
     (if length argv \<noteq> 3 then Quit 1 (webget_usage (argv ! 0)) else Run (argv ! 1, argv ! 2))"

section \<open>Copying over a socket of the operating system\<close>

definition native_usage :: "string \<Rightarrow> string" where
  "native_usage argv0 = ''Usage: '' @ argv0 @ '' [-l] <host> <port>'' @ newline @ newline @
     ''  -l specifies listen mode; <host>:<port> is the listening address.'' @ newline"

text \<open>Leaving the function closes the listening socket.\<close>

definition native_socket :: "getaddrinfo \<Rightarrow> 'k os \<Rightarrow> 'k \<Rightarrow> bool \<Rightarrow> string list \<Rightarrow> ('k \<times> FDWrapper) res" where
  "native_socket gai os k server_mode argv =
     (if server_mode then
        bindE (TCPSocket_init os k) (\<lambda>(k, listening_socket).
        bindE (set_reuseaddr os k listening_socket) (\<lambda>k.
        bindE (Address_of_host gai (argv ! 2) (argv ! 3)) (\<lambda>address.
        bindE (sock_bind os k listening_socket address) (\<lambda>k.
        bindE (tcp_listen os k listening_socket 16) (\<lambda>k.
        bindE (tcp_accept os k listening_socket) (\<lambda>(k, listening_socket, accepted).
          Inr (fd_destroy os k listening_socket, accepted)))))))
      else
        bindE (TCPSocket_init os k) (\<lambda>(k, connecting_socket).
        bindE (Address_of_host gai (argv ! 1) (argv ! 2)) (\<lambda>address.
        bindE (sock_connect os k connecting_socket address) (\<lambda>k. Inr (k, connecting_socket)))))"

definition native_main :: "getaddrinfo \<Rightarrow> 'k os \<Rightarrow> nat \<Rightarrow> 'k \<Rightarrow> string list \<Rightarrow>
    ('k copy_state \<times> 'k copy_state Rule list \<times> bool) parsed res" where
  "native_main gai os rounds k argv =
     (if length argv < 3 then Inr (Quit 1 (native_usage (argv ! 0)))
      else
        let server_mode = strncmp_eq ''-l'' (argv ! 1) 3 in
        if server_mode \<and> length argv < 4 then Inr (Quit 1 (native_usage (argv ! 0)))
        else
          bindE (native_socket gai os k server_mode argv) (\<lambda>(k, socket).
          bindE (bidirectional_stream_copy os rounds k socket) (\<lambda>r. Inr (Run r))))"

section \<open>What the web client sends and prints\<close>

lemma read_to_eof_stream:
  assumes "stream_kernel os inp out"
  shows "read_to_eof os n k w = Inr (k', w', str, ended) \<Longrightarrow>
    fd_num w' = fd_num w \<and> inp k' = (inp k)(fd_num w := inp k (fd_num w) @ str) \<and> out k' = out k \<and> (ended \<longrightarrow> fd_eof w')"
proof (induction n arbitrary: k w str)
  case (Suc n)
  show ?case
  proof (cases "fd_eof w")
    case False
    then obtain k1 w1 s t where r: "fd_read os k w max_size = Inr (k1, w1, s)"
        "read_to_eof os n k1 w1 = Inr (k', w', t, ended)" "str = s @ t"
      using Suc.prems by (auto simp: bindE_eq_Inr)
    show ?thesis using Suc.IH [OF r(2)] stream_fd_read [OF assms r(1)] r(3) by (simp add: fun_eq_iff)
  qed (use Suc.prems in auto)
qed auto

text \<open>
  C39. The web client writes exactly its request to the socket, and when its loop ends it has reached
  the end of the file and printed exactly the bytes that it read, for every behaviour of the
  kernel, the network and the server.
\<close>

theorem http_exchange_faithful:
  assumes "stream_kernel os inp out" "length get < 9223372036854775808"
    and "http_exchange os m get k w = Inr (k', w', str, ended)"
  shows "out k' = (out k)(fd_num w := out k (fd_num w) @ string_bytes get) \<and>
    inp k' = (inp k)(fd_num w := inp k (fd_num w) @ str) \<and> (ended \<longrightarrow> fd_eof w')"
proof -
  let ?b = "bvl_of_string (string_bytes get)"
  obtain k1 w1 n k2 w2 where r: "fd_write os k w ?b True = Inr (k1, w1, n)"
      "sock_shutdown os k1 w1 SHUT_WR = Inr (k2, w2)" "read_to_eof os m k2 w2 = Inr (k', w', str, ended)"
    using assms(3) by (auto simp: http_exchange_def bindE_eq_Inr)
  have b: "concat ?b = string_bytes get" by (simp add: bvl_of_string_def)
  then have len: "length (concat ?b) < 9223372036854775808" using assms(2) by (simp add: string_bytes_def)
  note wr = stream_fd_write [OF assms(1) len r(1)]
  have "out k1 (fd_num w) = out k (fd_num w) @ string_bytes get"
    using fd_write_loop_sound [OF stream_kernel_writev [OF assms(1)] len] r(1) b by (fastforce simp: fd_write_def)
  then have "out k1 = (out k)(fd_num w := out k (fd_num w) @ string_bytes get)" using wr(4) by (metis fun_upd_same)
  then show ?thesis
    using wr(1,3) stream_shutdown [OF assms(1) r(2)] read_to_eof_stream [OF assms(1) r(3)] by simp
qed

text \<open>A kernel where every descriptor can be written and nothing can be read; the state tells whether
  \<open>close\<close> was called, after which \<open>shutdown\<close> fails with EBADF, and what was read and written.\<close>

definition strict_os :: "(bool \<times> (int \<Rightarrow> bytes) \<times> (int \<Rightarrow> bytes)) os" where
  "strict_os = \<lparr>os_read = \<lambda>k fd n. (k, (0, 0), []),
     os_writev = \<lambda>(c, i, w) fd iov. let d = take 2 (concat (map fst iov)) in
       ((c, i, w(fd := w fd @ d)), (int (length d), 0)),
     os_close = \<lambda>(c, i, w) fd. ((True, i, w), (0, 0)), os_getfl = \<lambda>k fd. (k, (0, 0)), os_setfl = \<lambda>k fd fl. (k, (0, 0)),
     os_poll = \<lambda>k fds t. (k, (0, 0), map (\<lambda>_. 0) fds), os_socket = \<lambda>k d t. (k, (- 1, 5)),
     os_getsockopt = \<lambda>k fd o'. (k, (- 1, 5), 0, 0), os_setsockopt = \<lambda>k fd l o'. (k, (- 1, 5)),
     os_getname = \<lambda>k p fd. (k, (- 1, 5), [], 0), os_bind = \<lambda>k fd a n. (k, (- 1, 5)),
     os_connect = \<lambda>k fd a n. (k, (- 1, 5)),
     os_shutdown = \<lambda>k fd h. (k, if fst k then (- 1, 9) else (0, 0)),
     os_recvfrom = \<lambda>k fd n. (k, (- 1, 5), [], [], 0), os_sendmsg = \<lambda>k fd a n iov. (k, (- 1, 5)),
     os_listen = \<lambda>k fd b. (k, (- 1, 5)), os_accept = \<lambda>k fd. (k, (- 1, 5)),
     os_open = \<lambda>k p. (k, (- 1, 5)), os_ioctl = \<lambda>k fd f n. (k, (- 1, 5)),
     os_socketpair = \<lambda>k d t. (k, (- 1, 5), 0, 0), os_clock = \<lambda>k. (k, 0)\<rparr>"

lemma strict_os_ok: "stream_kernel strict_os (\<lambda>k. fst (snd k)) (\<lambda>k. snd (snd k))"
  unfolding stream_kernel_def strict_os_def by (auto simp: Let_def fun_eq_iff)

definition strict_fd :: FDWrapper where
  "strict_fd = \<lparr>fd_num = 3, fd_eof = False, fd_closed = False, fd_read_count = 0, fd_write_count = 0\<rparr>"

lemma strict_run: "case http_exchange strict_os 2 ''GET'' (False, (\<lambda>fd. []), (\<lambda>fd. [])) strict_fd of
  Inl e \<Rightarrow> False | Inr (k, w, str, ended) \<Rightarrow> ended"
  by code_simp

theorem http_exchange_faithful_witness:
  "\<exists>k w str. http_exchange strict_os 2 ''GET'' (False, (\<lambda>fd. []), (\<lambda>fd. [])) strict_fd = Inr (k, w, str, True) \<and>
     snd (snd k) 3 = string_bytes ''GET'' \<and> fst (snd k) 3 = str \<and> fd_eof w"
proof -
  obtain k w str where r: "http_exchange strict_os 2 ''GET'' (False, (\<lambda>fd. []), (\<lambda>fd. [])) strict_fd = Inr (k, w, str, True)"
    using strict_run by (auto split: sum.splits)
  then show ?thesis using http_exchange_faithful [OF strict_os_ok _ r] by (simp add: strict_fd_def)
qed

section \<open>How the web client ends\<close>

text \<open>
  What POSIX says of a descriptor: \<open>close\<close> either fails or leaves a number that is not a descriptor, for
  which \<open>shutdown\<close> fails with EBADF.
\<close>

definition close_contract :: "'k os \<Rightarrow> bool" where
  "close_contract os \<longleftrightarrow> (\<forall>k fd k' c e. os_close os k fd = (k', (c, e)) \<longrightarrow>
     c = - 1 \<and> e \<noteq> 0 \<or> c = 0 \<and> (\<forall>how. snd (os_shutdown os k' fd how) = (- 1, 9)))"

lemma shutdown_after_close:
  assumes "close_contract os" "fd_close os k w = Inr (k', w')"
  shows "sock_shutdown os k' w' how = Inl (Tagged_Error ''shutdown'' 9)"
proof -
  obtain k1 c e where call: "os_close os k (fd_num w) = (k1, (c, e))" by (cases "os_close os k (fd_num w)") auto
  have eqs: "k' = k1" "fd_num w' = fd_num w" "\<not> (c = - 1 \<and> e \<noteq> 0)"
    using assms(2) by (auto simp: fd_close_def call bindE_eq_Inr SystemCall_def Let_def to_int32_id split: if_splits)
  then have "snd (os_shutdown os k' (fd_num w') how) = (- 1, 9)" 
    using assms(1) call unfolding close_contract_def by metis
  then show ?thesis by (cases "os_shutdown os k' (fd_num w') how") (simp add: sock_shutdown_def SystemCall_def Let_def to_int32_id)
qed

lemma SystemCall_error: "SystemCall a r m = Inl e \<Longrightarrow> \<exists>n. e = Tagged_Error a n"
  by (auto simp: SystemCall_def Let_def split: if_splits)

lemma web_session_fails:
  assumes "close_contract os" "http_exchange os m get (ss_kernel s) (ss_owner s) = Inr (k, w, out, True)"
  shows "\<exists>call n'. web_session os ad abort n m get s rules = Inl (Tagged_Error call n')"
proof (cases "sock_shutdown os k w SHUT_RD")
  case (Inl e)
  then obtain r where "SystemCall ''shutdown'' r 0 = Inl e"
    by (cases "SystemCall ''shutdown'' (snd (os_shutdown os k (fd_num w) SHUT_RD)) 0") (auto simp: sock_shutdown_def split_def)
  from SystemCall_error [OF this] show ?thesis using Inl assms(2) by (auto simp: web_session_def)
next
  case (Inr x)
  obtain k1 w1 where x: "x = (k1, w1)" by (cases x)
  show ?thesis
  proof (cases "fd_close os k1 w1")
    case (Inl e)
    then obtain r where "SystemCall ''close'' r 0 = Inl e"
      by (cases "SystemCall ''close'' (snd (os_close os k1 (fd_num w1))) 0") (auto simp: fd_close_def split_def)
    from SystemCall_error [OF this] show ?thesis using Inl Inr x assms(2) by (auto simp: web_session_def)
  next
    case close: (Inr y)
    obtain k2 w2 where y: "y = (k2, w2)" by (cases y)
    from shutdown_after_close [OF assms(1) close [unfolded y]]
    show ?thesis using close Inr x y assms(2) by (simp add: web_session_def wait_until_closed_def)
  qed
qed

lemma web_session_never:
  assumes "close_contract os"
  shows "web_session os ad abort n m get s rules \<noteq> Inr (out, True)"
proof (cases "http_exchange os m get (ss_kernel s) (ss_owner s)")
  case (Inr x)
  obtain k w out' ended where x: "x = (k, w, out', ended)" by (cases x)
  show ?thesis
  proof (cases ended)
    case True
    then have "http_exchange os m get (ss_kernel s) (ss_owner s) = Inr (k, w, out', True)" using Inr x by simp
    from web_session_fails [OF assms this] show ?thesis by (metis Inl_Inr_False)
  qed (simp add: web_session_def Inr x)
qed (simp add: web_session_def)

text \<open>
  \<open>get_URL\<close> closes its socket before it calls \<open>wait_until_closed\<close>, whose first step is to shut the socket
  down: on every kernel whose \<open>close\<close> behaves as POSIX says the function never returns, and a
  download that is complete ends with an exception, so \<open>webget\<close> reports failure.
\<close>

theorem webget_ends_with_exception:
  assumes "close_contract os"
  shows "get_URL gai gni os abort n m random_address random random_isn k host path \<noteq> Inr (out, True) \<and>
    (http_exchange os m get (ss_kernel s) (ss_owner s) = Inr (k', w, out, True) \<longrightarrow>
     (\<exists>call e. web_session os ad abort n m get s rules = Inl (Tagged_Error call e)))"
proof (intro conjI impI)
  show "get_URL gai gni os abort n m random_address random random_isn k host path \<noteq> Inr (out, True)"
  proof
    assume "get_URL gai gni os abort n m random_address random random_isn k host path = Inr (out, True)"
    then obtain s0 addr x where
        "full_stack_connect gai gni os abort n random random_isn addr s0 [] = Inr x"
        and x: "(case x of (s, rules, connected) \<Rightarrow> if \<not> connected then Inr ([], False)
          else web_session os (eth_adapter gai gni os) abort n m (get_request host path) s rules) = Inr (out, True)"
      unfolding get_URL_def Let_def bindE_eq_Inr by blast
    obtain s rules connected where "x = (s, rules, connected)" by (cases x)
    with x have "web_session os (eth_adapter gai gni os) abort n m (get_request host path) s rules = Inr (out, True)"
      by (cases connected) simp_all
    then show False using web_session_never [OF assms] by blast
  qed
qed (rule web_session_fails [OF assms])

lemma strict_os_close: "close_contract strict_os"
  by (auto simp: close_contract_def strict_os_def)

definition strict_session ::
    "(bool \<times> (int \<Rightarrow> bytes) \<times> (int \<Rightarrow> bytes), TCPOverUDPSocketAdapter) sponge" where
  "strict_session = \<lparr>ss_kernel = (False, (\<lambda>fd. []), (\<lambda>fd. [])), ss_owner = strict_fd, ss_thread_data = local_fd 4,
     ss_adapter = ss_adapter local_socket, ss_tcp = None, ss_inbound_shutdown = False,
     ss_outbound_shutdown = False, ss_fully_acked = False, ss_cerr = []\<rparr>"

theorem webget_ends_with_exception_witness:
  "\<exists>call e. web_session strict_os (udp_adapter numeric_getnameinfo strict_os) (\<lambda>k. False) 2 2 ''GET'' strict_session [] =
     Inl (Tagged_Error call e)"
proof -
  obtain k w str where "http_exchange strict_os 2 ''GET'' (False, (\<lambda>fd. []), (\<lambda>fd. [])) strict_fd = Inr (k, w, str, True)"
    using strict_run by (auto split: sum.splits)
  then have "http_exchange strict_os 2 ''GET'' (ss_kernel strict_session) (ss_owner strict_session) = Inr (k, w, str, True)"
    by (simp add: strict_session_def)
  then show ?thesis using webget_ends_with_exception [OF strict_os_close] by blast
qed

end
