(* ===== verification/Stream_Delivery.thy ===== *)
theory Stream_Delivery
  imports Connection_Streams
begin

text \<open>
  Two connections and a network that loses, duplicates and reorders segments: the sender of one
  end (\<open>src/libsponge/tcp_sender.cc\<close>), the stamping and the reactions of both connections
  (\<open>tcp_connection.cc\<close>) and the receiver and the reassembler of the other end
  (\<open>tcp_receiver.cc\<close>, \<open>stream_reassembler.cc\<close>) put together.

  \<open>stream_seg\<close> says that a segment carries bytes of the stream at the place its sequence number
  stands for; \<open>sn_sent\<close> that everything a sender has sent or will send again is such a segment.
\<close>

section \<open>What a sender sends\<close>

definition stream_seg :: "WrappingInt32 \<Rightarrow> bytes \<Rightarrow> TCPSegment \<Rightarrow> bool" where
  "stream_seg isn W g \<longleftrightarrow> (\<exists>k \<le> length W + 2. th_seqno (ts_header g) = wrap (word_of_nat k) isn \<and>
     (th_syn (ts_header g) \<longrightarrow> k = 0 \<and> ts_payload g = []) \<and>
     (ts_payload g \<noteq> [] \<longrightarrow> 0 < k \<and>
        ts_payload g = take (length (ts_payload g)) (drop (k - 1) W)))"

lemma take_drop_append: "xs = take n (drop k W) \<Longrightarrow> length xs = n \<Longrightarrow> xs = take n (drop k (W @ d))"
  by (cases "n = 0") auto

lemma stream_seg_mono:
  assumes "stream_seg isn W g"
  shows "stream_seg isn (W @ d) g"
proof -
  obtain k where k: "k \<le> length W + 2" "th_seqno (ts_header g) = wrap (word_of_nat k) isn"
      "th_syn (ts_header g) \<longrightarrow> k = 0 \<and> ts_payload g = []"
      "ts_payload g \<noteq> [] \<longrightarrow> 0 < k \<and> ts_payload g = take (length (ts_payload g)) (drop (k - 1) W)"
    using assms by (auto simp: stream_seg_def)
  then have "ts_payload g \<noteq> [] \<longrightarrow> ts_payload g = take (length (ts_payload g)) (drop (k - 1) (W @ d))"
    using take_drop_append by blast
  then show ?thesis using k unfolding stream_seg_def by (intro exI [of _ k]) simp
qed

definition sn_sent :: "bytes \<Rightarrow> TCPSender \<Rightarrow> bool" where
  "sn_sent W s \<longleftrightarrow> unat (bs_bytes_readed (sn_stream s)) \<le> length W \<and>
     bs_deq (sn_stream s) = drop (unat (bs_bytes_readed (sn_stream s))) W \<and>
     (sn_fin_sent s \<longrightarrow> bs_eof (sn_stream s)) \<and>
     (\<forall>g \<in> set (sn_segments_out s) \<union> set (sn_segments_outstanding s). stream_seg (sn_isn s) W g)"

lemma sn_sent_emit: "sn_sent W s \<Longrightarrow> stream_seg (sn_isn s) W g \<Longrightarrow> sn_sent W (sn_emit s g n)"
  by (auto simp: sn_sent_def)

lemma sn_number:
  assumes "sn_wf s" "sn_sent W s"
  shows "next_seqno s = wrap (word_of_nat (unat (sn_next_seqno s))) (sn_isn s)"
    "unat (sn_next_seqno s) \<le> length W + 2"
  using assms by (auto simp: next_seqno_def sn_sent_def sn_wf_def sn_numbers_def of_bool_def split: if_splits)

lemma header_seg:
  assumes "sn_wf s" "sn_sent W s" "th_seqno h = next_seqno s" "\<not> th_syn h"
  shows "stream_seg (sn_isn s) W \<lparr>ts_header = h, ts_payload = []\<rparr>"
  using sn_number [OF assms(1,2)] assms(3,4)
  by (auto simp: stream_seg_def intro!: exI [of _ "unat (sn_next_seqno s)"])

lemma data_seg:
  assumes wf: "sn_wf s" "sn_sent W s" "sn_next_seqno s \<noteq> 0" and h: "th_seqno h = next_seqno s" "\<not> th_syn h"
    and n: "unat n \<le> length (bs_deq (sn_stream s))" and nofin: "\<not> sn_fin_sent s"
  shows "stream_seg (sn_isn s) W \<lparr>ts_header = h, ts_payload = peek_output (sn_stream s) n\<rparr>"
proof -
  let ?st = "sn_stream s"
  have st: "bs_wf ?st" "unat (bs_bytes_readed ?st) + length (bs_deq ?st) < 9223372036854775808"
    using wf by (simp_all add: sn_wf_def sn_numbers_def)
  have d: "bs_deq ?st = drop (unat (bs_bytes_readed ?st)) W" using wf by (simp add: sn_sent_def)
  have "unat (sn_next_seqno s) = 1 + unat (bs_bytes_readed ?st)"
    using wf nofin by (simp add: sn_wf_def sn_numbers_def)
  then show ?thesis
    using sn_number [OF wf(1,2)] h n sn_read(1) [OF st(1) n st(2)] unfolding d
    by (auto simp: stream_seg_def intro!: exI [of _ "unat (sn_next_seqno s)"])
qed

lemma sn_sent_read:
  assumes "sn_wf s" "sn_sent W s" "unat n \<le> length (bs_deq (sn_stream s))" "\<not> sn_fin_sent s"
  shows "sn_sent W (s\<lparr>sn_stream := pop_output (sn_stream s) n, sn_bytes_flying := b\<rparr>)"
proof -
  have st: "bs_wf (sn_stream s)"
      "unat (bs_bytes_readed (sn_stream s)) + length (bs_deq (sn_stream s)) < 9223372036854775808"
    using assms by (simp_all add: sn_wf_def sn_numbers_def)
  show ?thesis
    using assms sn_read [OF st(1) assms(3) st(2)] by (auto simp: sn_sent_def add.commute)
qed

lemma fill_step_sent:
  assumes wf: "sn_wf s" "sn_next_seqno s \<noteq> 0" and sent: "sn_sent W s" and more: "fill_more s"
  shows "sn_sent W (fill_step s)"
proof -
  have st: "bs_wf (sn_stream s)" using wf by (simp add: sn_wf_def sn_numbers_def)
  have nofin: "\<not> sn_fin_sent s"
    using sent more by (auto simp: sn_sent_def fill_more_def bs_eof_def buffer_empty_def buffer_size_def)
  have n: "unat (fill_size s) \<le> length (bs_deq (sn_stream s))"
    using unat_fill_size [OF st more] by simp
  have "stream_seg (sn_isn s) W (fill_seg s)"
    unfolding fill_seg_def
    by (rule data_seg [OF wf(1) sent wf(2) _ _ n nofin]) (simp_all add: sn_header_def TCPHeader_init_def)
  then show ?thesis
    using sn_sent_read [OF wf(1) sent n nofin, of "sn_bytes_flying s"]
    by (auto simp: sn_sent_def fill_step_eq fill_fin_def)
qed

text \<open>The initial sequence number never changes.\<close>

lemma fill_loop_isn: "sn_isn (fill_loop s) = sn_isn s"
proof (induction s rule: fill_loop.induct)
  case (1 s)
  have "sn_isn (fill_step s) = sn_isn s" by (simp add: fill_step_eq)
  then show ?case using 1 by (simp add: fill_loop.simps [of s])
qed

lemma fill_window_isn [simp]: "sn_isn (fill_window s) = sn_isn s"
  by (simp add: fill_window_def fill_loop_isn send_syn_def send_fin_def send_probe_def Let_def split_def)

lemma sender_isn [simp]:
  "sn_isn (ack_received s a w) = sn_isn s" "sn_isn (sn_tick s ms) = sn_isn s"
  "sn_isn (send_empty_segment s) = sn_isn s"
  by (simp_all add: ack_received_def sn_tick_def send_empty_segment_def Let_def split_def split: list.split)

lemma fill_window_sent:
  assumes wf: "sn_wf s" and sent: "sn_sent W s"
  shows "sn_sent W (fill_window s)"
proof -
  have st: "bs_wf (sn_stream s)" using wf by (simp add: sn_wf_def sn_numbers_def)
  have syn: "sn_sent W (send_syn s)"
  proof -
    have "stream_seg (sn_isn s) W (TCPSegment_init\<lparr>ts_header := TCPHeader_init\<lparr>th_syn := True, th_seqno := sn_isn s\<rparr>\<rparr>)"
      by (auto simp: stream_seg_def TCPSegment_init_def WrappingInt32.expand wrap_raw intro!: exI [of _ 0])
    then show ?thesis
      using sn_sent_emit [of W "s\<lparr>sn_bytes_flying := sn_bytes_flying s + 1\<rparr>"] sent
      by (auto simp: send_syn_def Let_def sn_sent_def)
  qed
  have fin: "sn_sent W (send_fin s)" if "fin_due s"
    using header_seg [OF wf sent, of "(sn_header s)\<lparr>th_fin := True\<rparr>"] sent that
    by (auto simp: send_fin_def Let_def sn_sent_def fin_due_def TCPSegment_init_def sn_header_def TCPHeader_init_def)
  have probe: "sn_sent W (send_probe s)"
    if "probe_due s" "sn_next_seqno s \<noteq> 0"
  proof -
    have n: "unat (1 :: u64) \<le> length (bs_deq (sn_stream s))"
      using that(1) unat_buffer_size [OF st] by (simp add: probe_due_def word_less_nat_alt Suc_le_eq)
    have nofin: "\<not> sn_fin_sent s"
      using sent that(1) by (auto simp: sn_sent_def probe_due_def bs_eof_def buffer_empty_def buffer_size_def)
    have "stream_seg (sn_isn s) W \<lparr>ts_header = sn_header s, ts_payload = peek_output (sn_stream s) 1\<rparr>"
      by (rule data_seg [OF wf sent that(2) _ _ n nofin]) (simp_all add: sn_header_def TCPHeader_init_def)
    then show ?thesis
      using sn_sent_emit [OF sn_sent_read [OF wf sent n nofin]]
      by (simp add: send_probe_def Let_def bs_read_def TCPSegment_init_def)
  qed
  have loop: "sn_sent W (fill_loop s)" if "sn_next_seqno s \<noteq> 0"
    using fill_loop_induct [of "sn_sent W" s] wf sent that fill_step_sent by blast
  show ?thesis using syn fin probe loop by (simp add: fill_window_eq)
qed

lemma pop_acked_subset: "set (fst (snd (pop_acked ack es segs ts))) \<subseteq> set segs"
proof (induction ack es segs ts rule: pop_acked.induct)
  case (2 ack e es segs ts)
  then show ?case using list.set_sel(2) [of segs] by (cases segs) auto
qed simp


lemma ack_received_sent:
  assumes wf: "sn_wf s" "sn_next_seqno s \<noteq> 0" and sent: "sn_sent W s"
  shows "sn_sent W (ack_received s a w)"
  using wf
proof (cases rule: ack_received_cases [where ackno = a and w = w])
  case ignored
  then show ?thesis using sent by (simp add: sn_sent_def)
next
  case (taken ack)
  have "sn_sent W (ack_taken s ack w)"
    using sent pop_acked_subset [of ack "sn_seqnos_abs_outstanding s" "sn_segments_outstanding s"
      "sn_timestamps_outstanding s"] by (auto simp: sn_sent_def ack_taken_def split_def Let_def)
  then show ?thesis using fill_window_sent [OF taken(1)] unfolding taken(2) by (simp add: Let_def)
qed

lemma sn_tick_sent: "sn_wf s \<Longrightarrow> sn_sent W s \<Longrightarrow> sn_sent W (sn_tick s ms)"
proof -
  assume wf: "sn_wf s" and sent: "sn_sent W s"
  have "length (sn_segments_outstanding s) = length (sn_timestamps_outstanding s)"
    using wf tiles_length by (auto simp: sn_wf_def sn_flight_def)
  then have "hd (sn_segments_outstanding s) \<in> set (sn_segments_outstanding s)"
    if "sn_timestamps_outstanding s \<noteq> []" using that by (intro hd_in_set) auto
  then show ?thesis
    using sent by (auto simp: sn_tick_def Let_def sn_sent_def split: list.split)
qed

lemma send_empty_segment_sent: "sn_wf s \<Longrightarrow> sn_sent W s \<Longrightarrow> sn_sent W (send_empty_segment s)"
  using header_seg [of s W "sn_header s"]
  by (auto simp: sn_sent_def send_empty_segment_def TCPSegment_init_def sn_header_def TCPHeader_init_def)

text \<open>The application writes, at most as much as there is room for, and ends its input. It does not
  write after that: what it wrote would be numbered after the FIN.\<close>

lemma sn_write_sent:
  assumes wf: "sn_wf s" and sent: "sn_sent W s" and nofin: "\<not> input_ended (sn_stream s)" and fits: "fits d"
  shows "sn_sent (W @ take (unat (snd (bs_write (sn_stream s) d))) d)
    (s\<lparr>sn_stream := fst (bs_write (sn_stream s) d)\<rparr>)"
  using sent nofin stream_seg_mono
  by (auto simp: sn_sent_def bs_eof_def input_ended_def) (auto simp: bs_write_def Let_def)


section \<open>What a connection sends\<close>

definition cn_sent :: "WrappingInt32 \<Rightarrow> bytes \<Rightarrow> TCPConnection \<Rightarrow> bool" where
  "cn_sent isn W c \<longleftrightarrow> sn_isn (cn_sender c) = isn \<and> sn_wf (cn_sender c) \<and> sn_sent W (cn_sender c) \<and>
     (\<forall>g \<in> set (cn_segments_out c). stream_seg isn W g)"

lemma cn_stamp_seg [simp]: "stream_seg isn W (cn_stamp c g) = stream_seg isn W g"
  by (simp add: cn_stamp_def Let_def stream_seg_def split: option.split)

lemma send_segments_sent: "cn_sent isn W c \<Longrightarrow> cn_sent isn W (send_segments c)"
  by (auto simp: cn_sent_def send_segments_eq sn_wf_queue) (auto simp: sn_sent_def)

lemma cn_fill_sent: "cn_sent isn W c \<Longrightarrow> cn_sent isn W (cn_fill c)"
  unfolding cn_fill_def
  by (rule send_segments_sent) (simp add: cn_sent_def fill_window_wf fill_window_sent)

lemma connect_sent: "cn_sent isn W c \<Longrightarrow> cn_sent isn W (connect c)"
  unfolding connect_def by (rule cn_fill_sent) (simp add: cn_sent_def)

lemma end_input_stream_sent: "cn_sent isn W c \<Longrightarrow> cn_sent isn W (end_input_stream c)"
  unfolding end_input_stream_def
  by (rule cn_fill_sent, simp add: cn_sent_def sn_end_wf)
    (auto simp: sn_sent_def bs_eof_def buffer_empty_def input_ended_def end_input_def)

lemma cn_set_errors_sent: "cn_sent isn W c \<Longrightarrow> cn_sent isn W (cn_set_errors c)"
  by (auto simp: cn_sent_def cn_set_errors_def sn_wf_def sn_flight_def sn_numbers_def set_error_wf)
    (auto simp: sn_sent_def set_error_def bs_eof_def buffer_empty_def input_ended_def)

lemma cn_tick_sent: "cn_sent isn W c \<Longrightarrow> cn_sent isn W (cn_tick c ms)"
proof -
  assume "cn_sent isn W c"
  then have "cn_sent isn W (c\<lparr>cn_time := cn_time c + ms, cn_sender := sn_tick (cn_sender c) ms\<rparr>)"
    by (simp add: cn_sent_def sn_tick_wf sn_tick_sent)
  then have "cn_sent isn W (c\<lparr>cn_time := cn_time c + ms, cn_sender := sn_tick (cn_sender c) ms\<rparr>)"
      "cn_sent isn W (c\<lparr>cn_time := cn_time c + ms, cn_sender := sn_tick (cn_sender c) ms, cn_rst_to_send := True\<rparr>)"
    by (simp_all add: cn_sent_def)
  then show ?thesis by (simp add: cn_tick_def Let_def send_segments_sent cn_set_errors_sent)
qed

lemma cn_reply_sent: "cn_sent isn W c \<Longrightarrow> cn_sent isn W (c\<lparr>cn_sender := send_empty_segment (cn_sender c)\<rparr>)"
  by (simp add: cn_sent_def send_empty_segment_wf send_empty_segment_sent)

lemma cn_destroy_sent: "cn_sent isn W c \<Longrightarrow> cn_sent isn W (cn_destroy c)"
proof -
  assume "cn_sent isn W c"
  then have "cn_sent isn W (c\<lparr>cn_rst_to_send := True\<rparr>)" by (simp add: cn_sent_def)
  from cn_reply_sent [OF cn_set_errors_sent [OF this]] \<open>cn_sent isn W c\<close> show ?thesis
    by (simp add: cn_destroy_def Let_def send_segments_sent)
qed

lemma cn_write_sent:
  assumes "cn_sent isn W c" "\<not> input_ended (cn_outbound c)"
    "length W + length d < 9223372036854775808"
  shows "cn_sent isn (W @ take (unat (snd (cn_write c d))) d) (fst (cn_write c d))"
proof -
  let ?s = "cn_sender c"
  have "unat (bs_bytes_readed (sn_stream ?s)) + length (bs_deq (sn_stream ?s)) = length W"
    using assms(1) by (simp add: cn_sent_def sn_sent_def)
  then have "sn_wf (?s\<lparr>sn_stream := fst (bs_write (sn_stream ?s) d)\<rparr>)"
    using assms sn_write_wf [of ?s d] by (simp add: cn_sent_def)
  moreover have "sn_sent (W @ take (unat (snd (bs_write (sn_stream ?s) d))) d)
      (?s\<lparr>sn_stream := fst (bs_write (sn_stream ?s) d)\<rparr>)"
    using assms sn_write_sent [of ?s W d] by (simp add: cn_sent_def cn_outbound_def fits_def)
  ultimately show ?thesis
    unfolding cn_write_def Let_def split_def fst_conv snd_conv
    by (intro cn_fill_sent) (use assms(1) in \<open>auto simp: cn_sent_def stream_seg_mono\<close>)
qed

lemma cn_segment_received_sent:
  assumes "cn_segment_received c seg = Inr c'" "cn_sent isn W c"
    "th_ack (ts_header seg) \<Longrightarrow> sn_next_seqno (cn_sender c) \<noteq> 0"
  shows "cn_sent isn W c'"
  using assms(1)
proof (induction rule: cn_segment_received_induct)
  case ack
  then show ?case
    using assms(2) assms(3) [OF ack] by (simp add: cn_sent_def ack_received_wf ack_received_sent)
next
  case (reset c1)
  then show ?case by (intro cn_set_errors_sent) (simp add: cn_sent_def)
qed (use assms(2) in \<open>simp_all add: connect_sent cn_reply_sent send_segments_sent\<close>, simp_all add: cn_sent_def)


section \<open>What a receiver reads\<close>

text \<open>The segments that reach the reassembler as copies it gets right.\<close>

definition rc_clean :: "TCPReceiver \<Rightarrow> TCPSegment \<Rightarrow> bool" where
  "rc_clean r g \<longleftrightarrow> (rc_syn r \<or> th_syn (ts_header g) \<longrightarrow>
     clean_copy (rc_reassembler r) (ts_payload g) (rc_index r g))"

definition rc_got :: "WrappingInt32 \<Rightarrow> (nat \<Rightarrow> u8) \<Rightarrow> bytes \<Rightarrow> TCPReceiver \<Rightarrow> bool" where
  "rc_got isn f R r \<longleftrightarrow> rc_wf r \<and> sr_reads f R (rc_reassembler r) \<and> (rc_syn r \<longrightarrow> rc_isn r = isn)"

lemma sr_reads_output:
  "bs_deq o' = bs_deq (sr_output s) \<Longrightarrow> bs_wf o' \<Longrightarrow> bs_cap o' = bs_cap (sr_output s) \<Longrightarrow>
   bs_bytes_wrote o' = bs_bytes_wrote (sr_output s) \<Longrightarrow> sr_reads f R s \<Longrightarrow> sr_reads f R (s\<lparr>sr_output := o'\<rparr>)"
  by (simp add: sr_reads_def sr_wf_def ring_holds_def)

lemma rc_got_error: "rc_got isn f R r \<Longrightarrow> rc_got isn f R (rc_set_stream_out r (set_error (rc_stream_out r)))"
  using sr_reads_output [of "set_error (rc_stream_out r)" "rc_reassembler r" f R]
  by (auto simp: rc_got_def rc_set_stream_out_def rc_stream_out_def set_error_def rc_wf_def bytes_written_def sr_wf_def bs_wf_def)

lemma rc_got_read:
  "rc_got isn f R r \<Longrightarrow> rc_got isn f (R @ peek_output (rc_stream_out r) n)
     (rc_set_stream_out r (pop_output (rc_stream_out r) n))"
  using rc_read_wf [of r n] sr_reads_read [of f R "rc_reassembler r" n]
  by (auto simp: rc_got_def rc_set_stream_out_def rc_stream_out_def)

text \<open>The place of a segment with data: its index in the stream.\<close>

lemma seg_index:
  assumes seg: "stream_seg isn W g" and W: "length W < 2147483646" and data: "ts_payload g \<noteq> []"
    and isn: "rc_syn r \<longrightarrow> rc_isn r = isn" and syn: "rc_syn r \<or> th_syn (ts_header g)"
    and ckpt: "unat (rc_ckpt r) \<le> length W"
  shows "unat (rc_index r g) + length (ts_payload g) \<le> length W"
    "ts_payload g = take (length (ts_payload g)) (drop (unat (rc_index r g)) W)"
proof -
  obtain k where k: "k \<le> length W + 2" "th_seqno (ts_header g) = wrap (word_of_nat k) isn"
      "0 < k" "ts_payload g = take (length (ts_payload g)) (drop (k - 1) W)" and nosyn: "\<not> th_syn (ts_header g)"
    using seg data by (auto simp: stream_seg_def)
  have uk: "unat (word_of_nat k :: u64) = k" using k(1) W by (intro unat_u64_of_nat) simp
  then have "(word_of_nat k :: u64) \<noteq> 0" using k(3) by (metis unat_0 less_irrefl)
  then have "unwrap (wrap (word_of_nat k) isn) isn (rc_ckpt r) = word_of_nat k"
    using k(1) W ckpt uk by (intro unwrap_near_inverse) simp_all
  then have "rc_index r g = word_of_nat k - 1"
    using nosyn syn isn k(2) by (simp add: rc_index_def rc_isn_after_def)
  then have index: "unat (rc_index r g) = k - 1" using k(3) uk by (simp add: unat_u64_sub)
  then show eq: "ts_payload g = take (length (ts_payload g)) (drop (unat (rc_index r g)) W)"
    using k(4) by simp
  have "length (ts_payload g) \<le> length W - unat (rc_index r g)"
    using arg_cong [OF eq, of length] by simp
  moreover have "0 < length (ts_payload g)" using data by simp
  ultimately show "unat (rc_index r g) + length (ts_payload g) \<le> length W" by linarith
qed

lemma seg_excerpt:
  assumes seg: "stream_seg isn W g" and W: "length W < 2147483646" and agree: "\<forall>i < length W. f i = W ! i"
    and isn: "rc_syn r \<longrightarrow> rc_isn r = isn" and syn: "rc_syn r \<or> th_syn (ts_header g)"
    and ckpt: "unat (rc_ckpt r) \<le> length W"
  shows "excerpt f (ts_payload g) (rc_index r g)"
proof (cases "ts_payload g = []")
  case False
  note index = seg_index [OF seg W False isn syn ckpt]
  let ?k = "unat (rc_index r g)"
  have "ts_payload g ! i = f (?k + i)" if "i < length (ts_payload g)" for i
  proof -
    have "ts_payload g ! i = take (length (ts_payload g)) (drop ?k W) ! i" using index(2) by simp
    also have "\<dots> = W ! (?k + i)" using that index(1) by simp
    finally show ?thesis using agree that index(1) by simp
  qed
  then show ?thesis by (simp add: excerpt_def)
qed (simp add: excerpt_def)

text \<open>A ring that takes the whole stream is never copied to across its end.\<close>

lemma short_stream_clean:
  assumes got: "rc_got isn f R r" and seg: "stream_seg isn W g" and W: "length W < 2147483646"
    and ckpt: "unat (rc_ckpt r) \<le> length W" and short: "length W \<le> unat (rc_capacity r)"
  shows "rc_clean r g"
proof (cases "ts_payload g = []")
  case False
  let ?s = "rc_reassembler r"
  let ?C = "unat (sr_capacity ?s)" and ?lo = "copy_lo ?s (rc_index r g)"
    and ?hi = "copy_hi ?s (ts_payload g) (rc_index r g)"
  have wf: "rc_wf r" using got by (simp add: rc_got_def)
  have "clean_copy ?s (ts_payload g) (rc_index r g)" if "rc_syn r \<or> th_syn (ts_header g)"
  proof -
    have "unat (rc_index r g) + length (ts_payload g) \<le> length W"
      using seg_index(1) [OF seg W False _ that ckpt] got by (simp add: rc_got_def)
    moreover have "unat (sr_start_aux ?s) \<le> length W" "length W \<le> ?C" "0 < ?C"
      using wf ckpt short by (simp_all add: rc_wf_def sr_wf_def bytes_written_def rc_stream_out_def)
    ultimately have "?hi \<le> ?C" "?lo \<le> ?C" by (auto simp: copy_hi_def copy_lo_def)
    then have "?lo mod ?C + (?hi - ?lo) \<le> ?C" by (cases "?lo = ?C") simp_all
    then show ?thesis by (simp add: clean_copy_def)
  qed
  then show ?thesis by (simp add: rc_clean_def)
qed (simp add: rc_clean_def clean_copy_def misses_def)

lemma rc_segment_received_got:
  assumes got: "rc_got isn f R r" and room: "rc_room r g" and seg: "stream_seg isn W g" and clean: "rc_clean r g"
    and W: "length W < 2147483646" and agree: "\<forall>i < length W. f i = W ! i"
    and ckpt: "unat (rc_ckpt r) \<le> length W" and recv: "rc_segment_received r g = Inr r'"
  shows "rc_got isn f R r'"
proof (cases "rc_syn r \<or> th_syn (ts_header g)")
  case True
  have wf: "rc_wf r" and isn: "rc_syn r \<longrightarrow> rc_isn r = isn" using got by (simp_all add: rc_got_def)
  obtain s' where s': "push_substring (rc_reassembler r) (ts_payload g) (rc_index r g)
      (rc_eof r \<or> th_fin (ts_header g)) = Inr s'"
    using rc_segment_received_throws [OF True] recv by (metis Inl_Inr_False sumE)
  have r': "r' = rc_after r g s'" using rc_segment_received_eq [OF True s'] recv by simp
  have reads: "sr_reads f R (rc_reassembler r)" using got by (simp add: rc_got_def)
  have "sr_reads f R s'"
    by (rule sr_reads_push [OF reads rc_push_ok [OF wf room] seg_excerpt [OF seg W agree isn True ckpt]
      clean [unfolded rc_clean_def, rule_format, OF True] s'])
  moreover from this have "sr_reads f R (s'\<lparr>sr_output := end_input (sr_output s')\<rparr>)"
    by (intro sr_reads_output) (simp_all add: sr_reads_def sr_wf_def end_input_wf, simp_all add: end_input_def)
  moreover have "rc_wf r'" using rc_segment_received_ok [OF wf room] recv by auto
  moreover have "rc_isn_after r g = isn"
  proof (cases "th_syn (ts_header g)")
    case True
    then have "th_seqno (ts_header g) = wrap 0 isn" using seg by (auto simp: stream_seg_def)
    then show ?thesis using True by (simp add: rc_isn_after_def WrappingInt32.expand wrap_raw)
  qed (use isn True in \<open>simp add: rc_isn_after_def\<close>)
  ultimately show ?thesis by (simp add: rc_got_def r' rc_after_def Let_def)
qed (use got recv in \<open>simp add: rc_segment_received_def\<close>)

text \<open>The bytes written so far do not say how the stream goes on, so the receiver's invariant holds
  for every continuation.\<close>

definition cn_got :: "WrappingInt32 \<Rightarrow> bytes \<Rightarrow> bytes \<Rightarrow> TCPConnection \<Rightarrow> bool" where
  "cn_got isn W R c \<longleftrightarrow> (\<forall>f. (\<forall>i < length W. f i = W ! i) \<longrightarrow> rc_got isn f R (cn_receiver c))"

lemma cn_got_prefix:
  assumes "cn_got isn W R c"
  shows "R @ bs_deq (cn_inbound c) = take (unat (rc_ckpt (cn_receiver c))) W"
    "unat (rc_ckpt (cn_receiver c)) \<le> length W"
proof -
  let ?n = "unat (rc_ckpt (cn_receiver c))"
  have eq: "R @ bs_deq (cn_inbound c) = map f [0 ..< ?n]" if "\<forall>i < length W. f i = W ! i" for f
    using assms that unfolding cn_got_def
    by (auto simp: rc_got_def sr_reads_def rc_wf_def sr_wf_def cn_inbound_def rc_stream_out_def bytes_written_def)
  let ?f = "\<lambda>b i. if i < length W then W ! i else b"
  show le: "?n \<le> length W"
  proof (rule ccontr)
    assume "\<not> ?n \<le> length W"
    then have "map (?f 0) [0 ..< ?n] ! length W \<noteq> map (?f 1) [0 ..< ?n] ! length W" by simp
    moreover have "map (?f 0) [0 ..< ?n] = map (?f 1) [0 ..< ?n]"
      by (rule trans [OF sym [OF eq] eq]) simp_all
    ultimately show False by (simp only:)
  qed
  have "map (?f 0) [0 ..< ?n] = take ?n W" using le by (intro nth_equalityI) simp_all
  then show "R @ bs_deq (cn_inbound c) = take ?n W" using eq [of "?f 0"] by simp
qed

lemma cn_got_mono: "cn_got isn W R c \<Longrightarrow> cn_got isn (W @ d) R c"
  by (simp add: cn_got_def nth_append)

lemma cn_got_receiver: "cn_got isn W R c \<Longrightarrow> cn_receiver c' = cn_receiver c \<Longrightarrow> cn_got isn W R c'"
  by (simp add: cn_got_def)

lemma cn_set_errors_got: "cn_got isn W R c \<Longrightarrow> cn_got isn W R (cn_set_errors c)"
  by (simp add: cn_got_def cn_set_errors_def rc_got_error)

lemma cn_receiver_same [simp]:
  "cn_receiver (send_segments c) = cn_receiver c" "cn_receiver (cn_fill c) = cn_receiver c"
  "cn_receiver (connect c) = cn_receiver c" "cn_receiver (end_input_stream c) = cn_receiver c"
  "cn_receiver (fst (cn_write c d)) = cn_receiver c"
  by (simp_all add: send_segments_eq cn_fill_def connect_def end_input_stream_def cn_write_def Let_def split_def)

lemma cn_tick_got: "cn_got isn W R c \<Longrightarrow> cn_got isn W R (cn_tick c ms)"
  by (simp add: cn_got_def cn_tick_def Let_def cn_set_errors_def rc_got_error)

lemma cn_destroy_got: "cn_got isn W R c \<Longrightarrow> cn_got isn W R (cn_destroy c)"
  by (simp add: cn_got_def cn_destroy_def Let_def cn_set_errors_def rc_got_error)

lemma cn_segment_received_got:
  assumes recv: "cn_segment_received c g = Inr c'" and got: "cn_got isn W R c"
    and room: "rc_room (cn_receiver c) g" and seg: "stream_seg isn W g" and clean: "rc_clean (cn_receiver c) g"
    and W: "length W < 2147483646"
  shows "cn_got isn W R c'"
  using recv
proof (induction rule: cn_segment_received_induct)
  case (recv c1 r)
  show ?case
    using rc_segment_received_got [OF _ room seg clean W _ cn_got_prefix(2) [OF got] recv(4)] got
    by (simp add: cn_got_def)
next
  case (reset c1)
  then show ?case by (intro cn_set_errors_got) (simp add: cn_got_def)
qed (use got in \<open>simp_all add: cn_got_def\<close>)


section \<open>Two connections and a network\<close>

text \<open>The network remembers every segment that was ever put on it in either direction, and may deliver
  any of them at any time, any number of times. The last four fields collect what the two
  applications wrote (as far as the connection took it) and read.\<close>

record Duplex =
  dx_a :: TCPConnection
  dx_b :: TCPConnection
  dx_wire_ab :: "TCPSegment set"
  dx_wire_ba :: "TCPSegment set"
  dx_written_a :: bytes
  dx_written_b :: bytes
  dx_read_a :: bytes
  dx_read_b :: bytes

definition dx_flip :: "Duplex \<Rightarrow> Duplex" where
  "dx_flip d = \<lparr>dx_a = dx_b d, dx_b = dx_a d, dx_wire_ab = dx_wire_ba d, dx_wire_ba = dx_wire_ab d,
     dx_written_a = dx_written_b d, dx_written_b = dx_written_a d, dx_read_a = dx_read_b d,
     dx_read_b = dx_read_a d\<rparr>"

lemma dx_flip_flip [simp]: "dx_flip (dx_flip d) = d"
  by (simp add: dx_flip_def)

definition dx_init :: "TCPConfig \<Rightarrow> u32 \<Rightarrow> TCPConfig \<Rightarrow> u32 \<Rightarrow> Duplex" where
  "dx_init cfg_a random_a cfg_b random_b =
     \<lparr>dx_a = TCPConnection_init cfg_a random_a, dx_b = TCPConnection_init cfg_b random_b,
      dx_wire_ab = {}, dx_wire_ba = {}, dx_written_a = [], dx_written_b = [], dx_read_a = [],
      dx_read_b = []\<rparr>"

definition dx_start :: "Duplex \<Rightarrow> bool" where
  "dx_start d \<longleftrightarrow> cn_start (dx_a d) \<and> cn_start (dx_b d) \<and>
     (\<exists>cfg_a random_a cfg_b random_b. d = dx_init cfg_a random_a cfg_b random_b)"

text \<open>The steps of one end: the calls of its owner, its segments leaving, a segment of the other end
  arriving; \<open>step_other\<close> gives the other end the same steps. A segment arrives under the
  conditions of the connection invariant and as a copy the reassembler gets right, and an
  application writes less than \<open>2 ^ 31\<close> bytes.\<close>

inductive dx_step :: "Duplex \<Rightarrow> Duplex \<Rightarrow> bool" where
  dx_connect: "dx_step d (d\<lparr>dx_a := connect (dx_a d)\<rparr>)"
| dx_write: "\<not> input_ended (cn_outbound (dx_a d)) \<Longrightarrow>
    length (dx_written_a d) + length data < 2147483646 \<Longrightarrow>
    dx_step d (d\<lparr>dx_a := fst (cn_write (dx_a d) data),
      dx_written_a := dx_written_a d @ take (unat (snd (cn_write (dx_a d) data))) data\<rparr>)"
| dx_end: "dx_step d (d\<lparr>dx_a := end_input_stream (dx_a d)\<rparr>)"
| dx_tick: "dx_step d (d\<lparr>dx_a := cn_tick (dx_a d) ms\<rparr>)"
| dx_destroy: "dx_step d (d\<lparr>dx_a := cn_destroy (dx_a d)\<rparr>)"
| dx_read: "dx_step d (d\<lparr>dx_a := (dx_a d)\<lparr>cn_receiver := rc_set_stream_out (cn_receiver (dx_a d))
      (fst (bs_read (cn_inbound (dx_a d)) len))\<rparr>,
      dx_read_a := dx_read_a d @ snd (bs_read (cn_inbound (dx_a d)) len)\<rparr>)"
| dx_send: "dx_step d (d\<lparr>dx_a := (dx_a d)\<lparr>cn_segments_out := []\<rparr>,
      dx_wire_ab := dx_wire_ab d \<union> set (cn_segments_out (dx_a d))\<rparr>)"
| dx_recv: "g \<in> dx_wire_ba d \<Longrightarrow> cn_accepts (dx_a d) g \<Longrightarrow> rc_clean (cn_receiver (dx_a d)) g \<Longrightarrow>
    cn_segment_received (dx_a d) g = Inr a \<Longrightarrow> dx_step d (d\<lparr>dx_a := a\<rparr>)"
| step_other: "dx_step d d' \<Longrightarrow> dx_step (dx_flip d) (dx_flip d')"

text \<open>The steps of the other end that the example and the benchmark use.\<close>

lemma dx_recv_b:
  assumes "g \<in> dx_wire_ab d" "cn_accepts (dx_b d) g" "rc_clean (cn_receiver (dx_b d)) g"
    "cn_segment_received (dx_b d) g = Inr b"
  shows "dx_step d (d\<lparr>dx_b := b\<rparr>)"
  using step_other [OF dx_recv [of g "dx_flip d" b]] assms by (cases d) (simp add: dx_flip_def)

lemma dx_send_b:
  "dx_step d (d\<lparr>dx_b := (dx_b d)\<lparr>cn_segments_out := []\<rparr>,
     dx_wire_ba := dx_wire_ba d \<union> set (cn_segments_out (dx_b d))\<rparr>)"
  using step_other [OF dx_send [of "dx_flip d"]] by (cases d) (simp add: dx_flip_def)

lemma dx_read_b:
  "dx_step d (d\<lparr>dx_b := (dx_b d)\<lparr>cn_receiver := rc_set_stream_out (cn_receiver (dx_b d))
     (fst (bs_read (cn_inbound (dx_b d)) len))\<rparr>,
     dx_read_b := dx_read_b d @ snd (bs_read (cn_inbound (dx_b d)) len)\<rparr>)"
  using step_other [OF dx_read [of "dx_flip d" len]] by (cases d) (simp add: dx_flip_def)

definition dx_carries :: "Duplex \<Rightarrow> bool" where
  "dx_carries d \<longleftrightarrow> length (dx_written_a d) < 2147483646 \<and>
     cn_sent (sn_isn (cn_sender (dx_a d))) (dx_written_a d) (dx_a d) \<and>
     (\<forall>g \<in> dx_wire_ab d. stream_seg (sn_isn (cn_sender (dx_a d))) (dx_written_a d) g) \<and>
     cn_got (sn_isn (cn_sender (dx_a d))) (dx_written_a d) (dx_read_b d) (dx_b d)"

definition dx_inv :: "Duplex \<Rightarrow> bool" where
  "dx_inv d \<longleftrightarrow> dx_carries d \<and> dx_carries (dx_flip d)"

lemma dx_inv_flip [simp]: "dx_inv (dx_flip d) = dx_inv d"
  by (auto simp: dx_inv_def)

text \<open>A step of one end keeps the invariant if its sender still sends bytes of the stream and its
  receiver still reads those of the other end.\<close>

lemma dx_inv_local:
  assumes inv: "dx_inv d"
    and sent: "\<And>isn. cn_sent isn (dx_written_a d) (dx_a d) \<Longrightarrow> cn_sent isn (dx_written_a d) a"
    and got: "cn_got (sn_isn (cn_sender (dx_b d))) (dx_written_b d) (dx_read_a d) (dx_a d) \<Longrightarrow>
      cn_got (sn_isn (cn_sender (dx_b d))) (dx_written_b d) R a"
  shows "dx_inv (d\<lparr>dx_a := a, dx_read_a := R\<rparr>)"
proof -
  have "cn_sent (sn_isn (cn_sender (dx_a d))) (dx_written_a d) a"
    using inv sent by (simp add: dx_inv_def dx_carries_def)
  moreover from this have "sn_isn (cn_sender a) = sn_isn (cn_sender (dx_a d))" by (simp add: cn_sent_def)
  ultimately show ?thesis using inv got by (simp add: dx_inv_def dx_carries_def dx_flip_def)
qed


lemma dx_step_inv: "dx_step d d' \<Longrightarrow> dx_inv d \<Longrightarrow> dx_inv d'"
proof (induction rule: dx_step.induct)
  case (dx_connect d)
  then show ?case
    using dx_inv_local [of d "connect (dx_a d)" "dx_read_a d"] cn_got_receiver by (simp add: connect_sent)
next
  case (dx_write d data)
  let ?W = "dx_written_a d @ take (unat (snd (cn_write (dx_a d) data))) data"
  have "cn_sent (sn_isn (cn_sender (dx_a d))) ?W (fst (cn_write (dx_a d) data))"
    using dx_write cn_write_sent by (simp add: dx_inv_def dx_carries_def)
  moreover from this have "sn_isn (cn_sender (fst (cn_write (dx_a d) data))) = sn_isn (cn_sender (dx_a d))"
    by (simp add: cn_sent_def)
  ultimately show ?case
    using dx_write cn_got_receiver [of _ _ _ "dx_a d"]
    by (simp add: dx_inv_def dx_carries_def dx_flip_def stream_seg_mono cn_got_mono)
next
  case (dx_end d)
  then show ?case
    using dx_inv_local [of d "end_input_stream (dx_a d)" "dx_read_a d"] cn_got_receiver
    by (simp add: end_input_stream_sent)
next
  case (dx_tick d ms)
  then show ?case
    using dx_inv_local [of d "cn_tick (dx_a d) ms" "dx_read_a d"] by (simp add: cn_tick_sent cn_tick_got)
next
  case (dx_destroy d)
  then show ?case
    using dx_inv_local [of d "cn_destroy (dx_a d)" "dx_read_a d"] by (simp add: cn_destroy_sent cn_destroy_got)
next
  case (dx_read d len)
  then show ?case
    by (intro dx_inv_local) (simp_all add: cn_sent_def cn_got_def cn_inbound_def rc_got_read)
next
  case (dx_send d)
  then show ?case by (auto simp: dx_inv_def dx_carries_def dx_flip_def cn_sent_def cn_got_def)
next
  case (dx_recv g d a)
  have "stream_seg (sn_isn (cn_sender (dx_b d))) (dx_written_b d) g" "length (dx_written_b d) < 2147483646"
    using dx_recv by (simp_all add: dx_inv_def dx_carries_def dx_flip_def)
  note got = cn_segment_received_got [OF dx_recv.hyps(4) _ _ this(1) dx_recv.hyps(3) this(2)]
  have "dx_inv (d\<lparr>dx_a := a, dx_read_a := dx_read_a d\<rparr>)"
  proof (rule dx_inv_local [OF dx_recv.prems])
    show "cn_sent isn (dx_written_a d) a" if "cn_sent isn (dx_written_a d) (dx_a d)" for isn
      using cn_segment_received_sent [OF dx_recv.hyps(4) that] dx_recv.hyps(2) by (simp add: cn_accepts_def)
  qed (use got dx_recv.hyps(2) in \<open>simp add: cn_accepts_def\<close>)
  then show ?case by simp
qed simp


lemma dx_start_inv: "dx_start d \<Longrightarrow> dx_inv d"
proof -
  have init: "cn_sent (sn_isn (cn_sender c)) [] c \<and> (\<forall>isn. cn_got isn [] [] c)" if start: "cn_start c" for c
  proof -
    obtain cfg random where c: "c = TCPConnection_init cfg random"
        "0 < unat (cfg_recv_capacity cfg)" "unat (cfg_recv_capacity cfg) < 9223372036854775808"
      using start by (auto simp: cn_start_def)
    have "rc_got isn f [] (TCPReceiver_init (cfg_recv_capacity cfg))" for isn f
      using TCPReceiver_init_wf [OF c(2,3)] sr_reads_init [OF c(2,3)] by (simp add: rc_got_def TCPReceiver_init_def)
    moreover have "sn_sent [] (TCPSender_init (cfg_send_capacity cfg) (cfg_rt_timeout cfg) (cfg_fixed_isn cfg) random)"
      by (simp add: sn_sent_def TCPSender_init_def ByteStream_init_def)
    ultimately show ?thesis
      by (simp add: c(1) cn_sent_def cn_got_def TCPConnection_init_def TCPSender_init_wf)
  qed
  assume "dx_start d"
  then show ?thesis
    using init [of "dx_a d"] init [of "dx_b d"]
    by (auto simp: dx_start_def dx_init_def dx_inv_def dx_carries_def dx_flip_def)
qed

interpretation duplex: machine_invariant dx_start dx_step dx_inv
  by unfold_locales (simp_all add: dx_start_inv dx_step_inv)

section \<open>An exchange\<close>

text \<open>Two connections with eight bytes of capacity: the handshake, two bytes of data, and the
  application of the other end reading one of them.\<close>

definition ex_config :: "u32 \<Rightarrow> TCPConfig" where
  "ex_config n = \<lparr>cfg_rt_timeout = 1000, cfg_recv_capacity = 8, cfg_send_capacity = 8,
     cfg_fixed_isn = Some (WrappingInt32 n)\<rparr>"

definition ex_client :: TCPConnection where
  "ex_client = connect (TCPConnection_init (ex_config 5) 0)"

definition ex_server :: TCPConnection where
  "ex_server = projr (cn_segment_received (TCPConnection_init (ex_config 9) 0) (hd (cn_segments_out ex_client)))"

definition ex_client_open :: TCPConnection where
  "ex_client_open = projr (cn_segment_received (ex_client\<lparr>cn_segments_out := []\<rparr>) (hd (cn_segments_out ex_server)))"

definition ex_client_data :: TCPConnection where
  "ex_client_data = fst (cn_write ex_client_open [1, 2])"

definition ex_server_data :: TCPConnection where
  "ex_server_data = projr (cn_segment_received (ex_server\<lparr>cn_segments_out := []\<rparr>) (last (cn_segments_out ex_client_data)))"

lemma small_room:
  "rc_ckpt r \<le> 8 \<Longrightarrow> rc_capacity r \<le> 8 \<Longrightarrow> length (ts_payload g) \<le> 8 \<Longrightarrow> rc_room r g"
  by (auto simp: rc_room_def word_le_nat_alt)

definition ex_ready :: "TCPConnection \<Rightarrow> TCPSegment \<Rightarrow> bool" where
  "ex_ready c g \<longleftrightarrow> \<not> isl (cn_segment_received c g) \<and>
     rc_ckpt (cn_receiver c) \<le> 8 \<and> rc_capacity (cn_receiver c) \<le> 8 \<and> length (ts_payload g) \<le> 8 \<and>
     (th_ack (ts_header g) \<longrightarrow> sn_next_seqno (cn_sender c) \<noteq> 0) \<and> rc_clean (cn_receiver c) g"

lemma ex_deliver:
  assumes "ex_ready c g"
  shows "cn_accepts c g" "rc_clean (cn_receiver c) g"
    "cn_segment_received c g = Inr (projr (cn_segment_received c g))"
  using assms small_room by (simp_all add: ex_ready_def cn_accepts_def)

lemma ex_ready_syn: "ex_ready (TCPConnection_init (ex_config 9) 0) (hd (cn_segments_out ex_client))"
  by code_simp

lemma ex_ready_synack: "ex_ready (ex_client\<lparr>cn_segments_out := []\<rparr>) (hd (cn_segments_out ex_server))"
  by code_simp

lemma ex_ready_data: "ex_ready (ex_server\<lparr>cn_segments_out := []\<rparr>) (last (cn_segments_out ex_client_data))"
  by code_simp

lemmas ex_delivered = ex_deliver [OF ex_ready_syn, folded ex_server_def]
  ex_deliver [OF ex_ready_synack, folded ex_client_open_def]
  ex_deliver [OF ex_ready_data, folded ex_server_data_def]

lemma ex_exchange:
  "cn_segments_out ex_client \<noteq> [] \<and> cn_segments_out ex_server \<noteq> [] \<and> cn_segments_out ex_client_data \<noteq> [] \<and>
   \<not> input_ended (cn_outbound ex_client_open) \<and> unat (snd (cn_write ex_client_open [1, 2])) = 2 \<and>
   peek_output (cn_inbound ex_server_data) 1 = [1] \<and> unat (rc_ckpt (cn_receiver ex_server_data)) = 2"
  by code_simp

lemma ex_exchange_reachable:
  "\<exists>d. reachable dx_start dx_step d \<and> dx_written_a d = [1, 2] \<and> dx_read_b d = [1] \<and>
     unat (rc_ckpt (cn_receiver (dx_b d))) = 2"
proof -
  let ?R = "reachable dx_start dx_step"
  let ?d0 = "dx_init (ex_config 5) 0 (ex_config 9) 0"
  have cfg: "cn_start (TCPConnection_init (ex_config n) 0)" for n
    unfolding cn_start_def by (rule exI [of _ "ex_config n"]) (auto simp: ex_config_def)
  have "?R ?d0" using cfg by (intro reachable_start) (auto simp: dx_start_def dx_init_def)
  note r = reachable_step [OF this dx_connect]
  note r = reachable_step [OF r dx_send]
  note r = reachable_step [OF r dx_recv_b [where g = "hd (cn_segments_out ex_client)" and b = ex_server]]
  note r = reachable_step [OF r dx_send_b]
  note r = reachable_step [OF r dx_recv [where g = "hd (cn_segments_out ex_server)" and a = ex_client_open]]
  note r = reachable_step [OF r dx_write [where data = "[1, 2]"]]
  note r = reachable_step [OF r dx_send]
  note r = reachable_step [OF r dx_recv_b [where g = "last (cn_segments_out ex_client_data)" and b = ex_server_data]]
  note r = reachable_step [OF r dx_read_b [where len = 1]]
  show ?thesis
    by (rule exI, rule conjI, rule r)
      (simp_all add: dx_init_def ex_client_def [symmetric] ex_client_data_def [symmetric] ex_exchange
        ex_delivered ex_delivered [simplified] rc_set_stream_out_def)
qed

section \<open>Properties\<close>

lemma dx_inv_delivers:
  assumes "dx_inv d"
  shows "dx_read_b d @ bs_deq (cn_inbound (dx_b d)) =
      take (unat (rc_ckpt (cn_receiver (dx_b d)))) (dx_written_a d)"
    "g \<in> dx_wire_ab d \<Longrightarrow> length (dx_written_a d) \<le> unat (rc_capacity (cn_receiver (dx_b d))) \<Longrightarrow>
      rc_clean (cn_receiver (dx_b d)) g"
proof -
  have inv: "length (dx_written_a d) < 2147483646"
      "\<forall>g \<in> dx_wire_ab d. stream_seg (sn_isn (cn_sender (dx_a d))) (dx_written_a d) g"
      "cn_got (sn_isn (cn_sender (dx_a d))) (dx_written_a d) (dx_read_b d) (dx_b d)"
    using assms by (simp_all add: dx_inv_def dx_carries_def)
  show "dx_read_b d @ bs_deq (cn_inbound (dx_b d)) =
      take (unat (rc_ckpt (cn_receiver (dx_b d)))) (dx_written_a d)"
    by (rule cn_got_prefix(1) [OF inv(3)])
  have "rc_got (sn_isn (cn_sender (dx_a d))) (\<lambda>i. dx_written_a d ! i) (dx_read_b d) (cn_receiver (dx_b d))"
    using inv(3) by (simp add: cn_got_def)
  then show "rc_clean (cn_receiver (dx_b d)) g"
    if "g \<in> dx_wire_ab d" "length (dx_written_a d) \<le> unat (rc_capacity (cn_receiver (dx_b d)))"
    using short_stream_clean [OF _ _ inv(1) cn_got_prefix(2) [OF inv(3)] that(2)] inv(2) that(1) by blast
qed



end
