(* ===== verification/TCP_Benchmark.thy ===== *)
theory TCP_Benchmark
  imports Stream_Delivery Text
begin

text \<open>
  The benchmark program (\<open>src/apps/tcp_benchmark.cc\<close>): two connections in one process exchange
  their segments, in order or reversed, until the string written to the first has been read
  from the second. The string, which the program fills with random bytes, and the random
  initial sequence numbers are arguments; the clock and the output of the throughput are left
  out. The two \<open>while\<close> loops around the body may not end, so they are partial functions.
\<close>

section \<open>The program\<close>

fun receive_all :: "TCPSegment list \<Rightarrow> TCPConnection \<Rightarrow> TCPConnection res" where
  "receive_all [] y = Inr y"
| "receive_all (seg # segs) y = bindE (cn_segment_received y seg) (receive_all segs)"

definition move_segments ::
    "TCPConnection \<Rightarrow> TCPConnection \<Rightarrow> TCPSegment list \<Rightarrow> bool \<Rightarrow>
     (TCPConnection \<times> TCPConnection \<times> TCPSegment list) res" where
  "move_segments x y segments reorder =
     (let segments = segments @ cn_segments_out x;
          x = x\<lparr>cn_segments_out := []\<rparr>
      in bindE (receive_all (if reorder then rev segments else segments) y) (\<lambda>y. Inr (x, y, [])))"

definition written_error :: "u64 \<Rightarrow> u64 \<Rightarrow> exn" where
  "written_error want written =
     Runtime_Error (''want = '' @ to_string_nat (unat want) @ '', written = '' @ to_string_nat (unat written))"

text \<open>Writing input into the first connection, as long as there is input and room.\<close>

function write_input :: "TCPConnection \<Rightarrow> bytes \<Rightarrow> (TCPConnection \<times> bytes) res" where
  "write_input x bytes_to_send =
     (if sz bytes_to_send \<noteq> 0 \<and> remaining_outbound_capacity x \<noteq> 0 then
        let want = min (remaining_outbound_capacity x) (sz bytes_to_send);
            r = cn_write x (take (unat want) bytes_to_send)
        in if want \<noteq> snd r then Inl (written_error want (snd r))
           else write_input (fst r) (drop (unat (snd r)) bytes_to_send)
      else Inr (x, bytes_to_send))"
  by pat_completeness auto
termination
proof (relation "measure (\<lambda>(x, b). length b)")
  fix x :: TCPConnection and bytes_to_send :: bytes and want :: u64 and r :: "TCPConnection \<times> u64"
  assume "sz bytes_to_send \<noteq> 0 \<and> remaining_outbound_capacity x \<noteq> 0"
    "want = min (remaining_outbound_capacity x) (sz bytes_to_send)" "\<not> want \<noteq> snd r"
  then have "snd r \<noteq> 0" "bytes_to_send \<noteq> []" by (auto simp: min_def sz_def split: if_splits)
  then show "((fst r, drop (unat (snd r)) bytes_to_send), x, bytes_to_send) \<in> measure (\<lambda>(x, b). length b)"
    by (simp add: unat_gt_0)
qed simp

declare write_input.simps [simp del]

record bench =
  bn_x :: TCPConnection
  bn_y :: TCPConnection
  bn_bytes_to_send :: bytes
  bn_x_closed :: bool
  bn_string_received :: bytes

definition bench_start :: "bytes \<Rightarrow> u32 \<Rightarrow> u32 \<Rightarrow> bench" where
  "bench_start string_to_send random_x random_y =
     \<lparr>bn_x = connect (TCPConnection_init TCPConfig_init random_x),
      bn_y = end_input_stream (TCPConnection_init TCPConfig_init random_y),
      bn_bytes_to_send = string_to_send, bn_x_closed = False, bn_string_received = []\<rparr>"

definition bench_loop :: "bool \<Rightarrow> bench \<Rightarrow> bench res" where
  "bench_loop reorder b =
     bindE (write_input (bn_x b) (bn_bytes_to_send b)) (\<lambda>(x, bytes_to_send).
     let close = (sz bytes_to_send = 0 \<and> \<not> bn_x_closed b);
         x = (if close then end_input_stream x else x);
         x_closed = (bn_x_closed b \<or> close)
     in
     bindE (move_segments x (bn_y b) [] reorder) (\<lambda>(x, y, segments).
     bindE (move_segments y x segments False) (\<lambda>(y, x, segments).
     let available_output = buffer_size (cn_inbound y);
         (y, string_received) =
           (if available_output > 0 then
              let (st, d) = bs_read (cn_inbound y) available_output
              in (y\<lparr>cn_receiver := rc_set_stream_out (cn_receiver y) st\<rparr>, bn_string_received b @ d)
            else (y, bn_string_received b))
     in Inr \<lparr>bn_x = cn_tick x 1000, bn_y = cn_tick y 1000, bn_bytes_to_send = bytes_to_send,
            bn_x_closed = x_closed, bn_string_received = string_received\<rparr>)))"

partial_function (option) bench_while :: "bool \<Rightarrow> (bench \<Rightarrow> bool) \<Rightarrow> bench \<Rightarrow> bench res option" where
  "bench_while reorder cond b =
     (if cond b then
        (case bench_loop reorder b of Inl e \<Rightarrow> Some (Inl e) | Inr b' \<Rightarrow> bench_while reorder cond b')
      else Some (Inr b))"

definition main_loop :: "bool \<Rightarrow> bytes \<Rightarrow> u32 \<Rightarrow> u32 \<Rightarrow> bench res option" where
  "main_loop reorder string_to_send random_x random_y =
     Option.bind (bench_while reorder (\<lambda>b. \<not> bs_eof (cn_inbound (bn_y b)))
       (bench_start string_to_send random_x random_y)) (\<lambda>r.
     case r of Inl e \<Rightarrow> Some (Inl e)
     | Inr b \<Rightarrow>
       if bn_string_received b \<noteq> string_to_send
       then Some (Inl (Runtime_Error (''strings sent vs. received don'' @ [CHR 39] @ ''t match'')))
       else bench_while reorder (\<lambda>b. cn_active (bn_x b) \<or> cn_active (bn_y b)) b)"


text \<open>The exit status of the program; the message of an exception goes to the standard error.\<close>

definition benchmark_main :: "bytes \<times> u32 \<times> u32 \<Rightarrow> bytes \<times> u32 \<times> u32 \<Rightarrow> int option" where
  "benchmark_main in_order reordered =
     (case in_order of (s, rx, ry) \<Rightarrow> Option.bind (main_loop False s rx ry) (\<lambda>r.
      case r of Inl e \<Rightarrow> Some 1
      | Inr b \<Rightarrow> (case reordered of (s, rx, ry) \<Rightarrow> Option.bind (main_loop True s rx ry) (\<lambda>r.
          Some (case r of Inl e \<Rightarrow> 1 | Inr b \<Rightarrow> 0)))))"

section \<open>Open connections\<close>

text \<open>Once a sender has sent its SYN it stays that way, and the capacity of a receiver is fixed.\<close>

definition cn_ready :: "u64 \<Rightarrow> TCPConnection \<Rightarrow> bool" where
  "cn_ready cap c \<longleftrightarrow> sn_wf (cn_sender c) \<and> sn_next_seqno (cn_sender c) \<noteq> 0 \<and> rc_capacity (cn_receiver c) = cap"

lemma fill_window_opened:
  assumes wf: "sn_wf s"
  shows "sn_next_seqno (fill_window s) \<noteq> 0"
proof -
  have small: "unat (sn_next_seqno s) \<le> 9223372036854775809" using wf sn_next_small by (simp add: sn_wf_def)
  then have "unat (sn_next_seqno s + 1) = unat (sn_next_seqno s) + 1" by (simp add: word_nat)
  then have "sn_next_seqno s + 1 \<noteq> 0" by (metis add_eq_0_iff_both_eq_0 unat_0 zero_neq_one)
  moreover have "sn_next_seqno (fill_loop s) \<noteq> 0" if "sn_next_seqno s \<noteq> 0"
    using fill_loop_induct [of "\<lambda>_. True" s] wf that by blast
  ultimately show ?thesis
    by (simp add: fill_window_def send_syn_def send_fin_def send_probe_def Let_def split_def)
qed

lemma ack_received_opened:
  assumes "sn_wf s" "sn_next_seqno s \<noteq> 0"
  shows "sn_next_seqno (ack_received s a w) \<noteq> 0"
  using assms
proof (cases rule: ack_received_cases [where ackno = a and w = w])
  case (taken ack)
  have "sn_next_seqno (ack_taken s ack w) = sn_next_seqno s" by (simp add: ack_taken_def split_def Let_def)
  then show ?thesis using fill_window_opened [OF taken(1)] assms(2) unfolding taken(2) by (simp add: Let_def)
qed (use assms in simp)

lemma send_segments_ready: "cn_ready cap c \<Longrightarrow> cn_ready cap (send_segments c)"
  by (simp add: cn_ready_def send_segments_eq sn_wf_queue)

lemma cn_fill_ready: "sn_wf (cn_sender c) \<Longrightarrow> rc_capacity (cn_receiver c) = cap \<Longrightarrow> cn_ready cap (cn_fill c)"
  unfolding cn_fill_def
  by (rule send_segments_ready) (simp add: cn_ready_def fill_window_wf fill_window_opened)

lemma connect_ready: "sn_wf (cn_sender c) \<Longrightarrow> rc_capacity (cn_receiver c) = cap \<Longrightarrow> cn_ready cap (connect c)"
  by (simp add: connect_def cn_fill_ready)

lemma end_input_stream_ready:
  "sn_wf (cn_sender c) \<Longrightarrow> rc_capacity (cn_receiver c) = cap \<Longrightarrow> cn_ready cap (end_input_stream c)"
  by (simp add: end_input_stream_def cn_fill_ready sn_end_wf)

lemma cn_set_errors_ready: "cn_ready cap c \<Longrightarrow> cn_ready cap (cn_set_errors c)"
  by (auto simp: cn_ready_def cn_set_errors_def rc_set_stream_out_def sn_wf_def sn_flight_def sn_numbers_def set_error_wf)
    (simp_all add: set_error_def)

lemma cn_tick_ready:
  assumes "cn_ready cap c"
  shows "cn_ready cap (cn_tick c ms)"
proof -
  have "sn_next_seqno (sn_tick (cn_sender c) ms) = sn_next_seqno (cn_sender c)"
    by (simp add: sn_tick_def Let_def split: list.split)
  then have "cn_ready cap (c\<lparr>cn_time := cn_time c + ms, cn_sender := sn_tick (cn_sender c) ms\<rparr>)"
      "cn_ready cap (c\<lparr>cn_time := cn_time c + ms, cn_sender := sn_tick (cn_sender c) ms, cn_rst_to_send := True\<rparr>)"
    using assms by (simp_all add: cn_ready_def sn_tick_wf)
  then show ?thesis by (simp add: cn_tick_def Let_def send_segments_ready cn_set_errors_ready)
qed

lemma cn_segment_received_ready:
  assumes "cn_segment_received c g = Inr c'" "cn_ready cap c" "rc_wf (cn_receiver c)" "rc_room (cn_receiver c) g"
  shows "cn_ready cap c'"
  using assms(1)
proof (induction rule: cn_segment_received_induct)
  case ack
  then show ?case using assms(2) by (simp add: cn_ready_def ack_received_wf ack_received_opened)
next
  case (recv c1 r)
  then show ?case using rc_segment_received_ok [OF assms(3,4)] by (auto simp: cn_ready_def)
next
  case (connect c1)
  then show ?case by (intro connect_ready) (simp_all add: cn_ready_def)
next
  case (reset c1)
  then show ?case by (intro cn_set_errors_ready) (simp add: cn_ready_def)
next
  case (reply c1)
  then show ?case by (simp add: cn_ready_def send_empty_segment_wf) (simp add: send_empty_segment_def)
qed (use assms(2) in \<open>simp_all add: send_segments_ready\<close>, simp_all add: cn_ready_def)

lemma cn_write_ready:
  assumes "cn_ready cap c" "unat (bs_bytes_readed (cn_outbound c)) + length (bs_deq (cn_outbound c)) +
    length d < 9223372036854775808"
  shows "cn_ready cap (fst (cn_write c d))"
  unfolding cn_write_def Let_def split_def fst_conv
  by (intro cn_fill_ready) (use assms sn_write_wf [of "cn_sender c" d] in \<open>simp_all add: cn_ready_def cn_outbound_def\<close>)


section \<open>The benchmark as a run of two connections and a network\<close>

definition bench_duplex :: "bytes \<Rightarrow> bytes \<Rightarrow> TCPConnection \<Rightarrow> TCPConnection \<Rightarrow> TCPSegment set \<Rightarrow> TCPSegment set \<Rightarrow> Duplex" where
  "bench_duplex W R x y A B = \<lparr>dx_a = x, dx_b = y, dx_wire_ab = A, dx_wire_ba = B, dx_written_a = W,
     dx_written_b = [], dx_read_a = [], dx_read_b = R\<rparr>"

definition bench_link :: "bytes \<Rightarrow> bytes \<Rightarrow> TCPConnection \<Rightarrow> TCPConnection \<Rightarrow> TCPSegment set \<Rightarrow> TCPSegment set \<Rightarrow> bool" where
  "bench_link W R x y A B \<longleftrightarrow> dx_inv (bench_duplex W R x y A B) \<and> cn_ready 64000 x \<and> cn_ready 64000 y"

lemma link_step:
  "bench_link W R x y A B \<Longrightarrow> dx_step (bench_duplex W R x y A B) (bench_duplex W' R' x' y' A' B') \<Longrightarrow>
   cn_ready 64000 x' \<Longrightarrow> cn_ready 64000 y' \<Longrightarrow> bench_link W' R' x' y' A' B'"
  using dx_step_inv by (auto simp: bench_link_def)

text \<open>A segment on the wire is accepted by the other end, if the stream fits into its capacity.\<close>

lemma dx_deliver_b:
  assumes inv: "dx_inv d" and short: "length (dx_written_a d) \<le> 64000" and ready: "cn_ready 64000 (dx_b d)"
    and g: "g \<in> dx_wire_ab d"
  shows "\<exists>b. cn_segment_received (dx_b d) g = Inr b \<and> dx_step d (d\<lparr>dx_b := b\<rparr>) \<and> cn_ready 64000 b"
proof -
  let ?r = "cn_receiver (dx_b d)" and ?W = "dx_written_a d"
  have seg: "stream_seg (sn_isn (cn_sender (dx_a d))) ?W g"
      and got: "cn_got (sn_isn (cn_sender (dx_a d))) ?W (dx_read_b d) (dx_b d)"
    using inv g by (simp_all add: dx_inv_def dx_carries_def)
  have wf: "rc_wf ?r" using got by (auto simp: cn_got_def rc_got_def)
  have cap: "rc_capacity ?r = 64000" using ready by (simp add: cn_ready_def)
  have "length (ts_payload g) \<le> length ?W"
  proof (cases "ts_payload g = []")
    case False
    then obtain k where "ts_payload g = take (length (ts_payload g)) (drop k ?W)"
      using seg by (auto simp: stream_seg_def)
    from arg_cong [OF this, of length] show ?thesis by simp
  qed simp
  then have room: "rc_room ?r g"
    using cn_got_prefix(2) [OF got] short cap by (simp add: rc_room_def)
  have clean: "rc_clean ?r g" using dx_inv_delivers(2) [OF inv g] short cap by simp
  have acc: "cn_accepts (dx_b d) g" using room ready by (simp add: cn_accepts_def cn_ready_def)
  obtain b where b: "cn_segment_received (dx_b d) g = Inr b"
    using cn_segment_received_wf [OF _ acc] wf ready by (auto simp: cn_parts_wf_def cn_ready_def)
  show ?thesis
    using b dx_recv_b [OF g acc clean b] cn_segment_received_ready [OF b ready wf room] by blast
qed

lemma link_deliver:
  assumes "bench_link W R x y A B" "length W \<le> 64000"
  shows "g \<in> A \<Longrightarrow> \<exists>y'. cn_segment_received y g = Inr y' \<and> bench_link W R x y' A B"
    "g \<in> B \<Longrightarrow> \<exists>x'. cn_segment_received x g = Inr x' \<and> bench_link W R x' y A B"
proof -
  let ?d = "bench_duplex W R x y A B"
  have inv: "dx_inv ?d" "dx_inv (dx_flip ?d)" and ready: "cn_ready 64000 x" "cn_ready 64000 y"
    using assms(1) by (simp_all add: bench_link_def)
  show "\<exists>y'. cn_segment_received y g = Inr y' \<and> bench_link W R x y' A B" if g: "g \<in> A"
  proof -
    obtain b where "cn_segment_received y g = Inr b" "dx_step ?d (?d\<lparr>dx_b := b\<rparr>)" "cn_ready 64000 b"
      using dx_deliver_b [OF inv(1), of g] assms(2) ready g by (auto simp: bench_duplex_def)
    then show ?thesis using link_step [OF assms(1)] ready by (auto simp: bench_duplex_def)
  qed
  show "\<exists>x'. cn_segment_received x g = Inr x' \<and> bench_link W R x' y A B" if g: "g \<in> B"
  proof -
    obtain a where a: "cn_segment_received x g = Inr a" "dx_step (dx_flip ?d) ((dx_flip ?d)\<lparr>dx_b := a\<rparr>)" "cn_ready 64000 a"
      using dx_deliver_b [OF inv(2), of g] ready g by (auto simp: bench_duplex_def dx_flip_def)
    from step_other [OF a(2)] have "dx_step ?d (bench_duplex W R a y A B)"
      by (simp add: bench_duplex_def dx_flip_def)
    then show ?thesis using link_step [OF assms(1)] a ready by blast
  qed
qed

lemma link_receive_all:
  assumes "length W \<le> 64000"
  shows "bench_link W R x y A B \<Longrightarrow> set segs \<subseteq> A \<Longrightarrow>
      \<exists>y'. receive_all segs y = Inr y' \<and> bench_link W R x y' A B"
    "bench_link W R x y A B \<Longrightarrow> set segs \<subseteq> B \<Longrightarrow>
      \<exists>x'. receive_all segs x = Inr x' \<and> bench_link W R x' y A B"
proof (induction segs arbitrary: x y)
  case (Cons g segs)
  {
    case 1
    then show ?case using link_deliver(1) [OF 1(1) assms, of g] Cons.IH(1) by fastforce
  next
    case 2
    then show ?case using link_deliver(2) [OF 2(1) assms, of g] Cons.IH(2) by fastforce
  }
qed simp_all

lemma link_move:
  assumes link: "bench_link W R x y A B" and short: "length W \<le> 64000"
  shows "\<exists>x' y'. move_segments x y [] reorder = Inr (x', y', []) \<and>
      bench_link W R x' y' (A \<union> set (cn_segments_out x)) B \<and> cn_outbound x' = cn_outbound x"
    "\<exists>x' y'. move_segments y x [] reorder = Inr (y', x', []) \<and>
      bench_link W R x' y' A (B \<union> set (cn_segments_out y))"
proof -
  let ?x = "x\<lparr>cn_segments_out := []\<rparr>" and ?y = "y\<lparr>cn_segments_out := []\<rparr>"
  have ready: "cn_ready 64000 x" "cn_ready 64000 y" "cn_ready 64000 ?x" "cn_ready 64000 ?y"
    using link by (simp_all add: bench_link_def cn_ready_def)
  have "bench_link W R ?x y (A \<union> set (cn_segments_out x)) B"
    using link_step [OF link] dx_send [of "bench_duplex W R x y A B"] ready by (simp add: bench_duplex_def)
  from link_receive_all(1) [OF short this, of "if reorder then rev (cn_segments_out x) else cn_segments_out x"]
  show "\<exists>x' y'. move_segments x y [] reorder = Inr (x', y', []) \<and>
      bench_link W R x' y' (A \<union> set (cn_segments_out x)) B \<and> cn_outbound x' = cn_outbound x"
    by (auto simp: move_segments_def Let_def cn_outbound_def)
  have "bench_link W R x ?y A (B \<union> set (cn_segments_out y))"
    using link_step [OF link] dx_send_b [of "bench_duplex W R x y A B"] ready by (simp add: bench_duplex_def)
  from link_receive_all(2) [OF short this, of "if reorder then rev (cn_segments_out y) else cn_segments_out y"]
  show "\<exists>x' y'. move_segments y x [] reorder = Inr (y', x', []) \<and>
      bench_link W R x' y' A (B \<union> set (cn_segments_out y))"
    by (auto simp: move_segments_def Let_def)
qed


text \<open>Only the owner ends the input of a connection.\<close>

lemma drains_end: "stream_drains b b' \<Longrightarrow> input_ended b' = input_ended b"
  by (simp add: stream_drains_def input_ended_def)

lemma receive_all_end: "receive_all segs x = Inr x' \<Longrightarrow> input_ended (cn_outbound x') = input_ended (cn_outbound x)"
proof (induction segs arbitrary: x)
  case (Cons g segs)
  then show ?case using cn_segment_received_streams(1) drains_end by (fastforce simp: bindE_eq_Inr)
qed simp

lemma move_segments_end:
  "move_segments x y segments reorder = Inr (x', y', segments') \<Longrightarrow>
   input_ended (cn_outbound x') = input_ended (cn_outbound x) \<and>
   input_ended (cn_outbound y') = input_ended (cn_outbound y)"
  using receive_all_end by (fastforce simp: move_segments_def Let_def bindE_eq_Inr cn_outbound_def)

lemma link_write:
  assumes link: "bench_link W R x y A B" and short: "length W + length d \<le> 64000"
    and nofin: "\<not> input_ended (cn_outbound x)" and room: "sz d \<le> remaining_outbound_capacity x"
  shows "snd (cn_write x d) = sz d" "bench_link (W @ d) R (fst (cn_write x d)) y A B"
    "\<not> input_ended (cn_outbound (fst (cn_write x d)))"
proof -
  show n: "snd (cn_write x d) = sz d"
    using room by (simp add: cn_write_streams(3)) (simp add: bs_write_def Let_def cn_outbound_def remaining_outbound_capacity_def)
  have sent: "cn_sent (sn_isn (cn_sender x)) W x" and ready: "cn_ready 64000 x" "cn_ready 64000 y"
    using link by (simp_all add: bench_link_def dx_inv_def dx_carries_def bench_duplex_def)
  then have "unat (bs_bytes_readed (cn_outbound x)) + length (bs_deq (cn_outbound x)) = length W"
    by (simp add: cn_sent_def sn_sent_def cn_outbound_def)
  then have "cn_ready 64000 (fst (cn_write x d))" using cn_write_ready [OF ready(1)] short by simp
  moreover have "unat (sz d) = length d" using short by (simp add: unat_sz fits_def)
  ultimately show "bench_link (W @ d) R (fst (cn_write x d)) y A B"
    using link_step [OF link] dx_write [of "bench_duplex W R x y A B" d] nofin short ready n
    by (simp add: bench_duplex_def)
  show "\<not> input_ended (cn_outbound (fst (cn_write x d)))"
    using drains_end [OF cn_write_streams(1)] nofin by (simp add: input_ended_def)
qed

lemma link_write_input:
  "bench_link W R x y A B \<Longrightarrow> length W + length b \<le> 64000 \<Longrightarrow> \<not> input_ended (cn_outbound x) \<Longrightarrow>
   \<exists>x' n. write_input x b = Inr (x', drop n b) \<and> bench_link (W @ take n b) R x' y A B \<and>
     \<not> input_ended (cn_outbound x')"
proof (induction x b arbitrary: W rule: write_input.induct)
  case (1 x b)
  show ?case
  proof (cases "sz b \<noteq> 0 \<and> remaining_outbound_capacity x \<noteq> 0")
    case True
    define want where "want = min (remaining_outbound_capacity x) (sz b)"
    define d where "d = take (unat want) b"
    have "unat (sz b) = length b" using 1(3) by (simp add: unat_sz fits_def)
    then have "unat want \<le> length b" by (metis want_def min.cobounded2 word_le_nat_alt)
    then have len: "length d = unat want" by (simp add: d_def)
    then have sz_d: "sz d = want" by (simp add: sz_def)
    have room: "sz d \<le> remaining_outbound_capacity x" by (simp add: sz_d want_def)
    have short: "length W + length d \<le> 64000" using 1(3) \<open>unat want \<le> length b\<close> len by simp
    note w = link_write [OF 1(2) short 1(4) room]
    have "length (W @ d) + length (drop (unat (snd (cn_write x d))) b) \<le> 64000"
      using 1(3) len w(1) sz_d \<open>unat want \<le> length b\<close> by simp
    from 1(1) [OF True want_def, of "cn_write x d" "W @ d"] this w sz_d
    obtain x' n where "write_input (fst (cn_write x d)) (drop (unat want) b) = Inr (x', drop n (drop (unat want) b))"
        "bench_link ((W @ d) @ take n (drop (unat want) b)) R x' y A B" "\<not> input_ended (cn_outbound x')"
      unfolding d_def [symmetric] by auto
    moreover have "write_input x b = write_input (fst (cn_write x d)) (drop (unat want) b)"
      using True w(1) sz_d by (subst write_input.simps) (simp add: Let_def want_def d_def)
    moreover have "take (unat want + n) b = d @ take n (drop (unat want) b)"
      using \<open>unat want \<le> length b\<close> by (simp add: d_def take_add)
    ultimately show ?thesis
      by (intro exI [of _ x'] exI [of _ "unat want + n"]) (simp add: add.commute)
  next
    case False
    then show ?thesis
      using 1(2,4) by (intro exI [of _ x] exI [of _ 0]) (auto simp: write_input.simps [of x b])
  qed
qed


lemma link_end_input: "bench_link W R x y A B \<Longrightarrow> bench_link W R (end_input_stream x) y A B"
  using link_step [OF _ dx_end [of "bench_duplex W R x y A B", unfolded bench_duplex_def Duplex.simps, folded bench_duplex_def]]
    end_input_stream_ready [of x 64000] by (simp add: bench_link_def cn_ready_def)

lemma link_tick:
  assumes link: "bench_link W R x y A B"
  shows "bench_link W R (cn_tick x ms) (cn_tick y ms) A B"
proof -
  have ready: "cn_ready 64000 x" "cn_ready 64000 y" using link by (simp_all add: bench_link_def)
  have "dx_step (bench_duplex W R x y A B) (bench_duplex W R (cn_tick x ms) y A B)"
    using dx_tick [of "bench_duplex W R x y A B" ms] by (simp add: bench_duplex_def)
  from link_step [OF link this] ready have link1: "bench_link W R (cn_tick x ms) y A B"
    by (simp add: cn_tick_ready)
  have "dx_step (bench_duplex W R (cn_tick x ms) y A B) (bench_duplex W R (cn_tick x ms) (cn_tick y ms) A B)"
    using step_other [OF dx_tick [of "dx_flip (bench_duplex W R (cn_tick x ms) y A B)" ms]]
    by (simp add: bench_duplex_def dx_flip_def)
  from link_step [OF link1 this] ready show ?thesis by (simp add: cn_tick_ready)
qed

lemma link_read:
  assumes link: "bench_link W R x y A B"
  shows "bench_link W (R @ peek_output (cn_inbound y) len) x
    (y\<lparr>cn_receiver := rc_set_stream_out (cn_receiver y) (pop_output (cn_inbound y) len)\<rparr>) A B"
  using link_step [OF link, of W "R @ peek_output (cn_inbound y) len" x
      "y\<lparr>cn_receiver := rc_set_stream_out (cn_receiver y) (pop_output (cn_inbound y) len)\<rparr>" A B]
    dx_read_b [of "bench_duplex W R x y A B" len] link
  by (simp add: bench_duplex_def bench_link_def cn_ready_def rc_set_stream_out_def)

definition bench_ok :: "bytes \<Rightarrow> bench \<Rightarrow> bool" where
  "bench_ok string_to_send b \<longleftrightarrow> (\<exists>W A B. bench_link W (bn_string_received b) (bn_x b) (bn_y b) A B \<and>
     W @ bn_bytes_to_send b = string_to_send \<and>
     (if bn_x_closed b then bn_bytes_to_send b = [] else \<not> input_ended (cn_outbound (bn_x b))))"

lemma bench_start_ok: "bench_ok s (bench_start s random_x random_y)"
proof -
  let ?x = "TCPConnection_init TCPConfig_init random_x" and ?y = "TCPConnection_init TCPConfig_init random_y"
  let ?d = "bench_duplex [] [] ?x ?y {} {}"
  have start: "cn_start (TCPConnection_init TCPConfig_init r)" for r
    unfolding cn_start_def by (rule exI [of _ TCPConfig_init]) (auto simp: TCPConfig_init_def)
  then have "dx_start ?d" by (auto simp: dx_start_def dx_init_def bench_duplex_def)
  then have "dx_inv ?d" by (rule dx_start_inv)
  moreover have "dx_step ?d (bench_duplex [] [] (connect ?x) ?y {} {})"
    using dx_connect [of ?d] by (simp add: bench_duplex_def)
  ultimately have "dx_inv (bench_duplex [] [] (connect ?x) ?y {} {})" using dx_step_inv by blast
  moreover have "dx_step (bench_duplex [] [] (connect ?x) ?y {} {}) (bench_duplex [] [] (connect ?x) (end_input_stream ?y) {} {})"
    using step_other [OF dx_end [of "dx_flip (bench_duplex [] [] (connect ?x) ?y {} {})"]]
    by (simp add: bench_duplex_def dx_flip_def)
  ultimately have "dx_inv (bench_duplex [] [] (connect ?x) (end_input_stream ?y) {} {})" using dx_step_inv by blast
  moreover have "cn_ready 64000 (connect ?x)" "cn_ready 64000 (end_input_stream ?y)"
    by (rule connect_ready end_input_stream_ready;
        simp add: TCPConnection_init_def TCPSender_init_wf TCPReceiver_init_def TCPConfig_init_def)+
  moreover have "\<not> input_ended (cn_outbound (connect ?x))"
    using drains_end [OF connect_streams(1) [of ?x]]
    by (simp add: cn_outbound_def TCPConnection_init_def TCPSender_init_def ByteStream_init_def input_ended_def)
  ultimately show ?thesis by (auto simp: bench_ok_def bench_start_def bench_link_def)
qed

lemma bench_loop_ok:
  assumes ok: "bench_ok s b" and short: "length s \<le> 64000"
  shows "\<exists>b'. bench_loop reorder b = Inr b' \<and> bench_ok s b'"
proof -
  obtain W A B where link: "bench_link W (bn_string_received b) (bn_x b) (bn_y b) A B"
      and s: "W @ bn_bytes_to_send b = s"
      and closed: "if bn_x_closed b then bn_bytes_to_send b = [] else \<not> input_ended (cn_outbound (bn_x b))"
    using ok by (auto simp: bench_ok_def)
  obtain x rest W1 where wr: "write_input (bn_x b) (bn_bytes_to_send b) = Inr (x, rest)"
      and link1: "bench_link W1 (bn_string_received b) x (bn_y b) A B" and s1: "W1 @ rest = s"
      and closed1: "if bn_x_closed b then rest = [] else \<not> input_ended (cn_outbound x)"
  proof (cases "bn_x_closed b")
    case True
    then have "write_input (bn_x b) (bn_bytes_to_send b) = Inr (bn_x b, [])"
      using closed by (subst write_input.simps) simp
    then show thesis using that link s closed True by simp
  next
    case False
    have "length W + length (bn_bytes_to_send b) \<le> 64000" using short s by auto
    from link_write_input [OF link this] closed False obtain x n where
      "write_input (bn_x b) (bn_bytes_to_send b) = Inr (x, drop n (bn_bytes_to_send b))"
      "bench_link (W @ take n (bn_bytes_to_send b)) (bn_string_received b) x (bn_y b) A B"
      "\<not> input_ended (cn_outbound x)" by auto
    then show thesis using that s False by simp
  qed
  define close where "close \<longleftrightarrow> sz rest = 0 \<and> \<not> bn_x_closed b"
  define x1 where "x1 = (if close then end_input_stream x else x)"
  have "length rest \<le> 64000" using short s1 by auto
  then have rest0: "sz rest = 0 \<longleftrightarrow> rest = []" using unat_sz [of rest] by (auto simp: fits_def)
  have link2: "bench_link W1 (bn_string_received b) x1 (bn_y b) A B"
    using link1 link_end_input by (simp add: x1_def)
  have closed2: "if bn_x_closed b \<or> close then rest = [] else \<not> input_ended (cn_outbound x1)"
    using closed1 rest0 by (auto simp: x1_def close_def)
  have short1: "length W1 \<le> 64000" using short s1 by auto
  obtain x2 y2 A2 where move1: "move_segments x1 (bn_y b) [] reorder = Inr (x2, y2, [])"
      and link3: "bench_link W1 (bn_string_received b) x2 y2 A2 B"
    using link_move(1) [OF link2 short1] by blast
  obtain x3 y3 B3 where move2: "move_segments y2 x2 [] False = Inr (y3, x3, [])"
      and link4: "bench_link W1 (bn_string_received b) x3 y3 A2 B3"
    using link_move(2) [OF link3 short1] by blast
  have end3: "input_ended (cn_outbound x3) = input_ended (cn_outbound x1)"
    using move_segments_end [OF move1] move_segments_end [OF move2] by simp
  let ?n = "buffer_size (cn_inbound y3)"
  define y4 where "y4 = (if ?n > 0 then y3\<lparr>cn_receiver := rc_set_stream_out (cn_receiver y3) (pop_output (cn_inbound y3) ?n)\<rparr> else y3)"
  define R4 where "R4 = (if ?n > 0 then bn_string_received b @ peek_output (cn_inbound y3) ?n else bn_string_received b)"
  have "bench_link W1 R4 x3 y4 A2 B3" using link4 link_read by (simp add: y4_def R4_def)
  then have link5: "bench_link W1 R4 (cn_tick x3 1000) (cn_tick y4 1000) A2 B3" by (rule link_tick)
  have "bench_loop reorder b = Inr \<lparr>bn_x = cn_tick x3 1000, bn_y = cn_tick y4 1000, bn_bytes_to_send = rest,
      bn_x_closed = bn_x_closed b \<or> close, bn_string_received = R4\<rparr>"
    using move1 move2 unfolding x1_def close_def
    by (simp add: bench_loop_def wr Let_def y4_def R4_def bs_read_def)
  moreover from link5 have "input_ended (cn_outbound (cn_tick x3 1000)) = input_ended (cn_outbound x1)"
    using drains_end [OF cn_tick_streams(1)] end3 by simp
  then have "bench_ok s \<lparr>bn_x = cn_tick x3 1000, bn_y = cn_tick y4 1000, bn_bytes_to_send = rest,
      bn_x_closed = bn_x_closed b \<or> close, bn_string_received = R4\<rparr>"
    unfolding bench_ok_def
    by (intro exI [of _ W1] exI [of _ A2] exI [of _ B3]) (use link5 s1 closed2 in \<open>simp split: if_splits\<close>)
  ultimately show ?thesis by blast
qed

section \<open>Properties\<close>

fun bench_rounds :: "bool \<Rightarrow> nat \<Rightarrow> bench \<Rightarrow> bench res" where
  "bench_rounds reorder 0 b = Inr b"
| "bench_rounds reorder (Suc n) b = bindE (bench_loop reorder b) (bench_rounds reorder n)"

lemma bench_rounds_ok: "bench_ok s b \<Longrightarrow> length s \<le> 64000 \<Longrightarrow> \<exists>b'. bench_rounds reorder n b = Inr b' \<and> bench_ok s b'"
proof (induction n arbitrary: b)
  case (Suc n)
  then show ?case using bench_loop_ok [of s b reorder] by fastforce
qed simp

lemma bench_while_ok:
  assumes "bench_while reorder cond b = Some r" "bench_ok s b" "length s \<le> 64000"
  shows "\<exists>b'. r = Inr b' \<and> bench_ok s b' \<and> \<not> cond b'"
proof -
  have "bench_ok s b \<longrightarrow> (\<exists>b'. r = Inr b' \<and> bench_ok s b' \<and> \<not> cond b')"
  proof (rule bench_while.raw_induct [OF _ assms(1)], rule impI)
    fix run reorder cond b r
    assume IH: "\<And>reorder cond b r. run reorder cond b = Some r \<Longrightarrow>
        bench_ok s b \<longrightarrow> (\<exists>b'. r = Inr b' \<and> bench_ok s b' \<and> \<not> cond b')"
      and body: "(if cond b then (case bench_loop reorder b of Inl e \<Rightarrow> Some (Inl e) | Inr b' \<Rightarrow> run reorder cond b')
        else Some (Inr b)) = Some r"
      and ok: "bench_ok s b"
    obtain b' where "bench_loop reorder b = Inr b'" "bench_ok s b'" using bench_loop_ok [OF ok assms(3)] by blast
    then show "\<exists>b'. r = Inr b' \<and> bench_ok s b' \<and> \<not> cond b'" using IH body ok by (auto split: if_splits)
  qed
  then show ?thesis using assms(2) by blast
qed

lemma bench_ok_prefix:
  assumes "bench_ok s b"
  shows "prefix (bn_string_received b @ bs_deq (cn_inbound (bn_y b))) s"
proof -
  obtain W A B where link: "bench_link W (bn_string_received b) (bn_x b) (bn_y b) A B"
      and s: "W @ bn_bytes_to_send b = s"
    using assms by (auto simp: bench_ok_def)
  then have "dx_inv (bench_duplex W (bn_string_received b) (bn_x b) (bn_y b) A B)" by (simp add: bench_link_def)
  from dx_inv_delivers(1) [OF this] have "prefix (bn_string_received b @ bs_deq (cn_inbound (bn_y b))) W"
    by (simp add: bench_duplex_def take_is_prefix)
  then show ?thesis using s by (auto simp: prefix_def)
qed



end
