(* ===== verification/Retransmission_Timer.thy ===== *)
theory Retransmission_Timer
  imports TCP_Connection
begin

text \<open>
  The bounds of the retransmission timer (\<open>_curr_RTO\<close> and \<open>_consec_retrans\<close> of
  \<open>src/libsponge/tcp_sender.cc\<close>, \<open>MAX_RETX_ATTEMPTS\<close> of \<open>tcp_helpers/tcp_config.hh\<close>) for an owner
  that, like \<open>_tcp_loop\<close> of \<open>tcp_helpers/tcp_sponge_socket.cc\<close>, calls \<open>tick\<close> only while the
  connection is active.
\<close>

definition sn_timer :: "TCPSender \<Rightarrow> u64 \<times> u32 \<times> u32" where
  "sn_timer s = (sn_curr_RTO s, sn_consec_retrans s, sn_initial_retransmission_timeout s)"

lemma fill_loop_timer: "sn_timer (fill_loop s) = sn_timer s"
proof (induction s rule: fill_loop.induct)
  case (1 s)
  have "sn_timer (fill_step s) = sn_timer s" by (simp add: fill_step_eq sn_timer_def sn_emit_def)
  then show ?case using 1 by (simp add: fill_loop.simps [of s])
qed

lemma fill_window_timer: "sn_timer (fill_window s) = sn_timer s"
  by (simp add: fill_window_def fill_loop_timer)
    (simp add: send_syn_def send_fin_def send_probe_def sn_emit_def sn_timer_def Let_def split_def)

text \<open>An acknowledgment leaves the timer alone or resets it.\<close>

lemma ack_received_timer:
  "sn_timer (ack_received s a w) = sn_timer s \<or>
   sn_timer (ack_received s a w) = (ucast (sn_initial_retransmission_timeout s), 0, sn_initial_retransmission_timeout s)"
proof -
  have "sn_timer (fill_window t) = (x, 0, y)" if "sn_timer t = (x, 0, y)" for t x y
    using that fill_window_timer by simp
  then show ?thesis by (simp add: ack_received_def Let_def split_def) (simp add: sn_timer_def)
qed

lemma unat_u16_u64: "unat (ucast (x :: u16) :: u64) = unat x"
  using u16_bound [of x] by (simp add: unat_ucast_mod)

definition timer_ok :: "TCPConnection \<Rightarrow> bool" where
  "timer_ok c \<longleftrightarrow> (let s = cn_sender c; rt = cfg_rt_timeout (cn_cfg c); n = unat (sn_consec_retrans s) in
     sn_initial_retransmission_timeout s = ucast rt \<and> unat (sn_curr_RTO s) = unat rt * 2 ^ n \<and>
     (n \<le> 8 \<or> n = 9 \<and> cn_rst_to_send c))"

lemma timer_ok_cong:
  "timer_ok c \<Longrightarrow> sn_timer (cn_sender c') = sn_timer (cn_sender c) \<Longrightarrow> cn_cfg c' = cn_cfg c \<Longrightarrow>
   (cn_rst_to_send c \<Longrightarrow> cn_rst_to_send c') \<Longrightarrow> timer_ok c'"
  by (auto simp: timer_ok_def sn_timer_def Let_def)

lemma send_segments_timer: "timer_ok c \<Longrightarrow> timer_ok (send_segments c)"
  by (erule timer_ok_cong) (simp_all add: send_segments_eq sn_timer_def)

lemma cn_fill_timer: "timer_ok c \<Longrightarrow> timer_ok (cn_fill c)"
  unfolding cn_fill_def by (rule send_segments_timer, erule timer_ok_cong) (simp_all add: fill_window_timer)

lemma connect_timer: "timer_ok c \<Longrightarrow> timer_ok (connect c)"
  unfolding connect_def by (rule cn_fill_timer, erule timer_ok_cong) simp_all

lemma cn_set_errors_timer: "timer_ok c \<Longrightarrow> timer_ok (cn_set_errors c)"
  by (erule timer_ok_cong) (simp_all add: cn_set_errors_def sn_timer_def)

lemma cn_segment_received_timer:
  assumes "cn_segment_received c seg = Inr c'" "timer_ok c"
  shows "timer_ok c'"
  using assms(1)
proof (induction rule: cn_segment_received_induct)
  case ack
  let ?s = "cn_sender c" and ?h = "ts_header seg"
  have init: "sn_initial_retransmission_timeout ?s = ucast (cfg_rt_timeout (cn_cfg c))"
    using assms(2) by (simp add: timer_ok_def Let_def)
  from ack_received_timer [of ?s "th_ackno ?h" "th_win ?h"] show ?case
  proof
    assume "sn_timer (ack_received ?s (th_ackno ?h) (th_win ?h)) = sn_timer ?s"
    then show ?thesis by (intro timer_ok_cong [OF assms(2)]) simp_all
  next
    assume "sn_timer (ack_received ?s (th_ackno ?h) (th_win ?h)) =
      (ucast (sn_initial_retransmission_timeout ?s), 0, sn_initial_retransmission_timeout ?s)"
    then show ?thesis using init by (simp add: timer_ok_def sn_timer_def Let_def ucast_16_32_64 unat_u16_u64)
  qed
next
  case (reset c1)
  then show ?case by (intro cn_set_errors_timer) (erule timer_ok_cong, simp_all)
next
  case (reply c1)
  then show ?case by (rule timer_ok_cong) (simp_all add: send_empty_segment_def sn_timer_def)
qed (use assms(2) in \<open>simp_all add: connect_timer send_segments_timer\<close>, simp_all add: timer_ok_def)


lemma sn_tick_timer:
  "sn_timer (sn_tick s ms) = sn_timer s \<or>
   sn_timer (sn_tick s ms) = (sn_curr_RTO s * 2, sn_consec_retrans s + 1, sn_initial_retransmission_timeout s)"
  by (simp add: sn_tick_def sn_timer_def Let_def split: list.split)

lemma cn_tick_timer:
  assumes ok: "timer_ok c" and active: "cn_active c"
  shows "timer_ok (cn_tick c ms)"
proof -
  let ?s = "cn_sender c" and ?rt = "cfg_rt_timeout (cn_cfg c)"
  let ?c1 = "c\<lparr>cn_time := cn_time c + ms, cn_sender := sn_tick ?s ms\<rparr>"
  have norst: "\<not> cn_rst_to_send c" using active by (auto simp: cn_active_def)
  then have n: "unat (sn_consec_retrans ?s) \<le> 8" and rto: "unat (sn_curr_RTO ?s) = unat ?rt * 2 ^ unat (sn_consec_retrans ?s)"
      and init: "sn_initial_retransmission_timeout ?s = ucast ?rt"
    using ok by (auto simp: timer_ok_def Let_def)
  have "unat ?rt < 65536" using u16_bound [of ?rt] by simp
  moreover have "(2 :: nat) ^ unat (sn_consec_retrans ?s) \<le> 2 ^ 8" using n by (intro power_increasing) simp_all
  ultimately have small: "unat (sn_curr_RTO ?s) \<le> 65536 * 256"
    unfolding rto by (intro mult_le_mono) simp_all
  then have twice: "unat (sn_curr_RTO ?s * 2) = unat (sn_curr_RTO ?s) * 2" by (simp add: unat_word_ariths)
  have next1: "unat (sn_consec_retrans ?s + 1) = unat (sn_consec_retrans ?s) + 1"
    using n by (simp add: unat_word_ariths)
  have "timer_ok (cn_set_errors (?c1\<lparr>cn_rst_to_send := True\<rparr>)) \<and>
    (\<not> consecutive_retransmissions (cn_sender ?c1) > MAX_RETX_ATTEMPTS \<longrightarrow> timer_ok ?c1)"
    using sn_tick_timer [of ?s ms]
  proof
    assume same: "sn_timer (sn_tick ?s ms) = sn_timer ?s"
    then have "timer_ok ?c1" "timer_ok (?c1\<lparr>cn_rst_to_send := True\<rparr>)"
      by (auto intro: timer_ok_cong [OF ok])
    then show ?thesis using cn_set_errors_timer by blast
  next
    assume "sn_timer (sn_tick ?s ms) = (sn_curr_RTO ?s * 2, sn_consec_retrans ?s + 1, sn_initial_retransmission_timeout ?s)"
    then have "sn_curr_RTO (sn_tick ?s ms) = sn_curr_RTO ?s * 2" "sn_consec_retrans (sn_tick ?s ms) = sn_consec_retrans ?s + 1"
        "sn_initial_retransmission_timeout (sn_tick ?s ms) = ucast ?rt"
      using init by (simp_all add: sn_timer_def)
    then have "timer_ok (?c1\<lparr>cn_rst_to_send := True\<rparr>)"
      "\<not> consecutive_retransmissions (cn_sender ?c1) > MAX_RETX_ATTEMPTS \<longrightarrow> timer_ok ?c1"
      using n rto twice next1
      by (auto simp: timer_ok_def Let_def consecutive_retransmissions_def MAX_RETX_ATTEMPTS_def word_less_nat_alt)
    then show ?thesis using cn_set_errors_timer by blast
  qed
  then show ?thesis by (simp add: cn_tick_def Let_def send_segments_timer)
qed

text \<open>The calls of an owner that ticks only an active connection.\<close>

inductive owner_step :: "TCPConnection \<Rightarrow> TCPConnection \<Rightarrow> bool" where
  owner_connect: "owner_step c (connect c)"
| owner_write: "owner_step c (fst (cn_write c d))"
| owner_end: "owner_step c (end_input_stream c)"
| owner_segment: "cn_segment_received c seg = Inr c' \<Longrightarrow> owner_step c c'"
| owner_tick: "cn_active c \<Longrightarrow> owner_step c (cn_tick c ms)"
| owner_read: "owner_step c (c\<lparr>cn_receiver := rc_set_stream_out (cn_receiver c)
    (fst (bs_read (rc_stream_out (cn_receiver c)) len))\<rparr>)"
| owner_pop: "owner_step c (c\<lparr>cn_segments_out := tl (cn_segments_out c)\<rparr>)"

interpretation timer: machine_invariant cn_start owner_step timer_ok
proof unfold_locales
  fix c assume "cn_start c"
  then show "timer_ok c"
    by (auto simp: cn_start_def timer_ok_def TCPConnection_init_def TCPSender_init_def unat_u16_u64)
next
  fix c c' assume ok: "timer_ok c" and "owner_step c c'"
  from this(2) ok show "timer_ok c'"
  proof (induction rule: owner_step.induct)
    case (owner_write c d)
    then show ?case
      unfolding cn_write_def Let_def split_def fst_conv
      by (intro cn_fill_timer) (erule timer_ok_cong, simp_all add: sn_timer_def)
  next
    case (owner_end c)
    then show ?case
      unfolding end_input_stream_def by (intro cn_fill_timer) (erule timer_ok_cong, simp_all add: sn_timer_def)
  qed (simp_all add: connect_timer cn_segment_received_timer cn_tick_timer, simp_all add: timer_ok_def)
qed

text \<open>
  C12. The retransmission timer stays in bounds: while the owner ticks only an active connection,
  the timeout is the configured one doubled once per consecutive retransmission, computed
  without overflow; there are at most nine of these, and after the ninth the connection is
  being reset. So the timeout never exceeds 512 times the configured one.
\<close>

theorem retransmission_timer_bounds:
  assumes "reachable cn_start owner_step c"
  shows "unat (sn_curr_RTO (cn_sender c)) =
      unat (cfg_rt_timeout (cn_cfg c)) * 2 ^ unat (consecutive_retransmissions (cn_sender c)) \<and>
    unat (consecutive_retransmissions (cn_sender c)) \<le> 9 \<and>
    (unat (consecutive_retransmissions (cn_sender c)) = 9 \<longrightarrow> \<not> cn_active c) \<and>
    unat (sn_curr_RTO (cn_sender c)) \<le> 512 * unat (cfg_rt_timeout (cn_cfg c))"
proof -
  have ok: "timer_ok c" by (rule timer.reachable_inv [OF assms])
  then have n: "unat (sn_consec_retrans (cn_sender c)) \<le> 9"
    and rto: "unat (sn_curr_RTO (cn_sender c)) = unat (cfg_rt_timeout (cn_cfg c)) * 2 ^ unat (sn_consec_retrans (cn_sender c))"
    by (auto simp: timer_ok_def Let_def)
  have "(2 :: nat) ^ unat (sn_consec_retrans (cn_sender c)) \<le> 2 ^ 9" using n by (intro power_increasing) simp_all
  then have "unat (sn_curr_RTO (cn_sender c)) \<le> unat (cfg_rt_timeout (cn_cfg c)) * 2 ^ 9"
    unfolding rto by (rule mult_le_mono2)
  then show ?thesis
    using ok n rto by (auto simp: timer_ok_def Let_def consecutive_retransmissions_def cn_active_def)
qed

theorem retransmission_timer_bounds_witness:
  "\<exists>c. reachable cn_start owner_step c \<and> unat (consecutive_retransmissions (cn_sender c)) = 1 \<and>
     unat (sn_curr_RTO (cn_sender c)) = 6 \<and> unat (sn_curr_RTO (cn_sender c)) \<le> 512 * unat (cfg_rt_timeout (cn_cfg c))"
proof -
  let ?cfg = "TCPConfig_init\<lparr>cfg_rt_timeout := 3, cfg_recv_capacity := 8\<rparr>"
  let ?c = "cn_tick (connect (TCPConnection_init ?cfg 5)) 3"
  have "cn_start (TCPConnection_init ?cfg 5)"
    unfolding cn_start_def by (rule exI [of _ ?cfg]) (auto simp: TCPConfig_init_def)
  moreover have "cn_active (connect (TCPConnection_init ?cfg 5))" by code_simp
  ultimately have r: "reachable cn_start owner_step ?c"
    using reachable_start reachable_step owner_connect owner_tick by metis
  have "unat (consecutive_retransmissions (cn_sender ?c)) = 1 \<and> unat (cfg_rt_timeout (cn_cfg ?c)) = 3" by code_simp
  with retransmission_timer_bounds [OF r] r show ?thesis by (intro exI [of _ ?c]) simp
qed

end
