(* ===== verification/Spec2Isabelle.thy ===== *)
theory Spec2Isabelle
  imports Lab7 Packet_Dump Web_Client TCP_Benchmark Retransmission_Timer
begin

text \<open>
  A verification library for a user-space TCP/IP stack in C++ (\<open>src/libsponge\<close>) and the programs
  built on it (\<open>src/apps\<close>).

  \<^bold>\<open>The program.\<close> A \<open>TCPConnection\<close> owns a \<open>TCPSender\<close>, which cuts an outgoing
  \<open>ByteStream\<close> into segments, and a \<open>TCPReceiver\<close>, whose \<open>StreamReassembler\<close> rebuilds the
  incoming one. A \<open>TCPSpongeSocket\<close> drives a connection from an \<open>EventLoop\<close> over file descriptors:
  bytes of the application arrive on a local socket pair, segments travel through an adapter that
  wraps them into UDP, IPv4 over TUN, or IPv4 over Ethernet with a \<open>NetworkInterface\<close> that resolves
  addresses with ARP. A \<open>Router\<close> forwards datagrams between interfaces by longest prefix match.

  \<^bold>\<open>Conventions.\<close> Machine integers are words (\<open>u8\<close>, \<open>u16\<close>, \<open>u32\<close>, \<open>u64\<close>), so arithmetic wraps as in
  the code; byte strings are lists of \<open>u8\<close>. Code that can throw, or whose behaviour C++ leaves
  undefined, returns \<open>exn + 'a\<close> (theory Prelude). Classes are records, operations functions that
  return the new state; queues and deques are lists, maps are functions to options. Randomness,
  the clock, the kernel and the resolver are arguments: a kernel is a record of system calls on
  an abstract state (theory File_Descriptor), and what the code relies on is stated as contracts
  (\<open>writev_contract\<close>, \<open>stream_kernel\<close>, \<open>numeric_resolver\<close>), each with a concrete instance.
  Unbounded loops are partial functions or take the number of rounds as an argument; every other
  loop is a terminating function.

  \<^bold>\<open>Theories.\<close>
  \<^item> Prelude, Text, Transition: words, lists, exceptions, numbers as text; state machines and the
    contract of an invariant (locale \<open>machine_invariant\<close>).
  \<^item> Byte_Stream (\<open>byte_stream.cc\<close>), Buffers (\<open>util/buffer.cc\<close>): first-in first-out behaviour (locales
    \<open>byte_pipe\<close> and \<open>prefix_view\<close>).
  \<^item> Wrapping_Integers (\<open>wrapping_integers.cc\<close>): wrap and unwrap are inverse near the checkpoint.
  \<^item> Stream_Reassembler (\<open>stream_reassembler.cc\<close>): whatever is pushed and read, the application gets
    a prefix of the stream; pushes never fail; in-order data gets through.
  \<^item> TCP_Receiver (\<open>tcp_receiver.cc\<close>), TCP_Sender (\<open>tcp_sender.cc\<close>), TCP_State
    (\<open>tcp_helpers/tcp_state.cc\<close>), TCP_Connection (\<open>tcp_connection.cc\<close>): the invariants of sender,
    receiver and connection, what fill_window sends, the retransmission timer, the handshake.
  \<^item> Connection_Streams, Retransmission_Timer, Stream_Delivery: how the operations of a connection
    change its two streams; bounds of the timer; two connections over a network that loses,
    duplicates and reorders segments.
  \<^item> Net_Parser (\<open>util/parser.cc\<close>), Internet_Checksum (\<open>util/util.cc\<close>), TCP_Segment, IPv4, Ethernet
    (\<open>tcp_helpers\<close>): parsing and serialising, with round trips for every format (locale
    \<open>wire_codec\<close>); Printing: their text output and \<open>hexdump\<close>.
  \<^item> Socket_Address (\<open>util/address.cc\<close>), TCP_Over_IP (\<open>tcp_helpers/tcp_over_ip.cc\<close>).
  \<^item> Network_Interface (\<open>network_interface.cc\<close>), Router (\<open>router.cc\<close>): the ARP cache and the waiting
    datagrams; the routing trie refines longest prefix match.
  \<^item> File_Descriptor, Sockets, Event_Loop, Adapters (\<open>util/file_descriptor.cc\<close>, \<open>util/socket.cc\<close>,
    \<open>util/tun.cc\<close>, \<open>util/eventloop.cc\<close>, \<open>tcp_helpers/fd_adapter.cc\<close>, \<open>tuntap_adapter.cc\<close>,
    \<open>lossy_fd_adapter.hh\<close>): system calls and their errors, the event loop over the rules of a client
    (locale \<open>loop_client\<close>), adapters that never touch the application's descriptors (locale
    \<open>quiet_adapter\<close>).
  \<^item> Stream_Copy (\<open>apps/bidirectional_stream_copy.cc\<close>), Sponge_Socket
    (\<open>tcp_helpers/tcp_sponge_socket.cc\<close>): both directions of a copy or of a socket are faithful for
    every behaviour of the kernel.
  \<^item> TCP_Benchmark (\<open>apps/tcp_benchmark.cc\<close>): no round throws and the strings are transferred.
  \<^item> Network_Simulator (\<open>apps/network_simulator.cc\<close>): six hosts around a router; a wire delivers every
    frame once and in order, a host accepts exactly the multiset of datagrams it expects, and no
    exception other than the report of a host can occur.
  \<^item> Command_Line (\<open>apps/tcp_ipv4.cc\<close>, \<open>tcp_udp.cc\<close>, \<open>tcp_ip_ethernet.cc\<close>): their options have exactly the
    effects of their list, and no argument is read behind the end of the command line.
  \<^item> Lab7 (\<open>apps/lab7.cc\<close>): the router between a host and the Internet as a client of the event loop
    (locale \<open>steady_client\<close>, which extends \<open>loop_client\<close>): its thread meets no undefined behaviour.
  \<^item> Packet_Dump (\<open>apps/udp_tcpdump.cc\<close>, \<open>tun.cc\<close>): a segment in a captured packet is shown as it is, and
    only bytes of the packet are read.
  \<^item> Web_Client (\<open>apps/webget.cc\<close>, \<open>tcp_native.cc\<close>): the client writes its request and prints what it reads.

  \<^bold>\<open>Bounds.\<close> Theorems about streams assume that fewer than \<open>2 ^ 63\<close> bytes pass (\<open>rc_room\<close>, \<open>step_write\<close>),
  end to end fewer than \<open>2 ^ 31\<close>, which keeps every 32-bit sequence number unambiguous. The
  reassembler is right for copies that do not wrap around its ring or take their whole substring
  (\<open>clean_copy\<close>); streams within the capacity always satisfy this, and \<open>overlap_corrupts_stream\<close>
  shows what happens otherwise. The loops of the socket, of the copy program and of the event
  loop run for a given number of rounds, and their theorems hold for every number.

  \<^bold>\<open>Deviations found.\<close> Each is a theorem on a concrete input: \<open>overlap_corrupts_stream\<close>,
  \<open>wrap_drops_waiting_byte\<close>, \<open>unwrap_not_closest\<close>, \<open>receiver_premature_end\<close>,
  \<open>receiver_isn_zero_loses_data\<close>, \<open>ack_before_syn_underflows\<close>, \<open>listening_ack_underflows\<close>,
  \<open>tcp_short_header_accepted\<close>, \<open>ipv4_wrong_version_accepted\<close>, \<open>ipv4_bad_checksum_accepted\<close>,
  \<open>foreign_frame_learned\<close>, \<open>unroutable_datagram_sent\<close>, \<open>poll_failure_ignored\<close>, \<open>loss_option_prefix\<close>,
  \<open>short_ipv4_overread\<close>, \<open>cut_udp_header_throws\<close>, \<open>bad_checksum_shows_zeros\<close>; and \<open>webget_ends_with_exception\<close>
  for every kernel that keeps POSIX' promise about closed descriptors.

  \<^bold>\<open>Not modelled.\<close> Threads: the connection thread of a socket is the function \<open>tcp_main\<close> and the
  network thread of lab7 the function \<open>network_thread\<close>, their interleaving with the main thread
  happens through the kernel argument; starting them is left out, and waiting for one is running
  it to its end. Diagnostic output of the library to the standard error, except where a
  program collects it. The conversion of a loss rate through \<open>float\<close>, the clock, the random
  generators, \<open>libpcap\<close>, the resolver and the kernel are arguments. The header \<open>BST.hh\<close> does not
  compile and is used nowhere. The test programs (\<open>src/tests\<close>) and the harness they share are not
  part of the implementation.
\<close>

end
